(* ===== verification/CPrelude.thy ===== *)
theory CPrelude
  imports Main "HOL-Library.Word"
begin

text \<open>
  The part of C17 and libc that the runtime's sources use, as total executable functions: the status
  codes of \<^verbatim>\<open>error.h\<close>, the C-locale character classes, the string routines of \<^verbatim>\<open>string.h\<close> and
  \<^verbatim>\<open>strings.h\<close> on NUL-free byte strings, \<^verbatim>\<open>strtol\<close> at 64 bits, decimal printing, and truncation as
  done by \<^verbatim>\<open>snprintf\<close>.  A \<^verbatim>\<open>const char *\<close> that the code tests against NULL is a \<^typ>\<open>string option\<close>, one
  that it does not test is a \<^typ>\<open>string\<close>.  Allocation is taken to succeed everywhere, so the
  out-of-memory branches of the sources have no counterpart in the models.
\<close>

section \<open>Proof collections\<close>

named_theorems cstr \<open>equations of the C string routines\<close>
named_theorems cchar \<open>facts about character classes\<close>

section \<open>Status codes\<close>

datatype ch_status =
    CH_OK
  | CH_ERROR_INVALID_ARGUMENT
  | CH_ERROR_OUT_OF_MEMORY
  | CH_ERROR_INVALID_STATE
  | CH_ERROR_IO
  | CH_ERROR_PARSE
  | CH_ERROR_NOT_FOUND
  | CH_ERROR_UNSUPPORTED
  | CH_ERROR_INTERNAL

text \<open>A fallible operation: \<^term>\<open>Inl\<close> is the code left in the \<^verbatim>\<open>ch_error\<close>, \<^term>\<open>Inr\<close> the outputs after
  \<^verbatim>\<open>CH_OK\<close>.  Message texts are not modelled.\<close>

type_synonym 'a result = "ch_status + 'a"

definition ch_status_name :: "ch_status \<Rightarrow> string" where
  "ch_status_name s =
     (case s of
        CH_OK \<Rightarrow> ''ok''
      | CH_ERROR_INVALID_ARGUMENT \<Rightarrow> ''invalid_argument''
      | CH_ERROR_OUT_OF_MEMORY \<Rightarrow> ''out_of_memory''
      | CH_ERROR_INVALID_STATE \<Rightarrow> ''invalid_state''
      | CH_ERROR_IO \<Rightarrow> ''io''
      | CH_ERROR_PARSE \<Rightarrow> ''parse''
      | CH_ERROR_NOT_FOUND \<Rightarrow> ''not_found''
      | CH_ERROR_UNSUPPORTED \<Rightarrow> ''unsupported''
      | CH_ERROR_INTERNAL \<Rightarrow> ''internal'')"

fun bind_result :: "'a result \<Rightarrow> ('a \<Rightarrow> 'b result) \<Rightarrow> 'b result" where
  "bind_result (Inl e) f = Inl e"
| "bind_result (Inr x) f = f x"

lemma bind_result_Inr_iff:
  "bind_result m f = Inr y \<longleftrightarrow> (\<exists>x. m = Inr x \<and> f x = Inr y)"
  by (cases m) auto

lemma bind_result_Inl_iff:
  "bind_result m f = Inl e \<longleftrightarrow> m = Inl e \<or> (\<exists>x. m = Inr x \<and> f x = Inl e)"
  by (cases m) auto

section \<open>Searching lists\<close>

lemma find_SomeD: "find P xs = Some x \<Longrightarrow> P x \<and> x \<in> set xs"
  by (metis find_Some_iff nth_mem)

lemma find_some_iff_ex: "find P xs \<noteq> None \<longleftrightarrow> (\<exists>x \<in> set xs. P x)"
  unfolding find_None_iff by blast

section \<open>Characters\<close>

abbreviation code :: "char \<Rightarrow> nat" where
  "code c \<equiv> of_char c"

definition isspace :: "char \<Rightarrow> bool" where
  "isspace c \<longleftrightarrow> code c = 32 \<or> (9 \<le> code c \<and> code c \<le> 13)"

definition isdigit :: "char \<Rightarrow> bool" where
  "isdigit c \<longleftrightarrow> 48 \<le> code c \<and> code c \<le> 57"

definition isupper :: "char \<Rightarrow> bool" where
  "isupper c \<longleftrightarrow> 65 \<le> code c \<and> code c \<le> 90"

definition tolower :: "char \<Rightarrow> char" where
  "tolower c = (if isupper c then char_of (code c + 32) else c)"

lemma code_less [simp]: "code c < 256"
  using of_char_mod_256 [of c, where 'a = nat] by (metis mod_less_divisor zero_less_numeral)

lemma code_char_of [simp]: "n < 256 \<Longrightarrow> code (char_of n) = n"
  by simp

lemma code_eqI: "code c = code d \<Longrightarrow> c = d"
  by (rule of_char_eqI) auto

lemma isupper_tolower [simp]: "\<not> isupper (tolower c)"
  by (auto simp: tolower_def isupper_def)

lemma tolower_tolower [simp]: "tolower (tolower c) = tolower c"
  by (subst tolower_def) simp

lemma isspace_tolower [simp]: "isspace (tolower c) = isspace c"
  by (auto simp: tolower_def isspace_def isupper_def)

lemma isdigit_not_isspace [cchar]: "isdigit c \<Longrightarrow> \<not> isspace c"
  by (auto simp: isdigit_def isspace_def)

section \<open>Byte strings\<close>

text \<open>The trimming loops that several files repeat: skip leading white space, then drop trailing white
  space.\<close>

definition trim :: "string \<Rightarrow> string" where
  "trim s = rev (dropWhile isspace (rev (dropWhile isspace s)))"

definition lower :: "string \<Rightarrow> string" where
  "lower s = map tolower s"

text \<open>\<^verbatim>\<open>strcasecmp\<close>, \<^verbatim>\<open>strncmp\<close> against a literal, \<^verbatim>\<open>strncasecmp\<close> against a lower-case literal.\<close>

definition strcaseeq :: "string \<Rightarrow> string \<Rightarrow> bool" where
  "strcaseeq a b \<longleftrightarrow> lower a = lower b"

definition has_prefix :: "string \<Rightarrow> string \<Rightarrow> bool" where
  "has_prefix p s \<longleftrightarrow> take (length p) s = p"

definition has_prefix_fold :: "string \<Rightarrow> string \<Rightarrow> bool" where
  "has_prefix_fold p s \<longleftrightarrow> lower (take (length p) s) = lower p"

text \<open>\<^verbatim>\<open>strchr\<close> and \<^verbatim>\<open>strrchr\<close>, each as the text before and after the character found.\<close>

definition strchr :: "string \<Rightarrow> char \<Rightarrow> (string \<times> string) option" where
  "strchr s c =
     (if c \<in> set s then Some (takeWhile (\<lambda>x. x \<noteq> c) s, tl (dropWhile (\<lambda>x. x \<noteq> c) s)) else None)"

definition strrchr :: "string \<Rightarrow> char \<Rightarrow> (string \<times> string) option" where
  "strrchr s c =
     (case strchr (rev s) c of None \<Rightarrow> None | Some (a, b) \<Rightarrow> Some (rev b, rev a))"

fun strstr :: "string \<Rightarrow> string \<Rightarrow> bool" where
  "strstr [] needle \<longleftrightarrow> needle = []"
| "strstr (c # cs) needle \<longleftrightarrow> has_prefix needle (c # cs) \<or> strstr cs needle"

text \<open>\<^verbatim>\<open>snprintf\<close> into a buffer of \<open>capacity\<close> bytes keeps one byte for the terminator.\<close>

definition snprintf :: "nat \<Rightarrow> string \<Rightarrow> string" where
  "snprintf capacity text = take (capacity - 1) text"

text \<open>A string that may be NULL, read as the empty string there.\<close>

definition or_empty :: "string option \<Rightarrow> string" where
  "or_empty s = (case s of None \<Rightarrow> [] | Some t \<Rightarrow> t)"

lemma or_empty_simps [simp]: "or_empty None = []" "or_empty (Some s) = s"
  by (simp_all add: or_empty_def)

subsection \<open>Trimming and case\<close>

lemma set_trim: "set (trim s) \<subseteq> set s"
  unfolding trim_def by (metis set_dropWhileD set_rev subsetI)

lemma lower_lower [simp]: "lower (lower s) = lower s"
  by (simp add: lower_def o_def)

lemma length_lower [simp]: "length (lower s) = length s"
  by (simp add: lower_def)

lemma lower_append [simp]: "lower (a @ b) = lower a @ lower b"
  by (simp add: lower_def)

lemma lower_Nil_iff [simp]: "lower s = [] \<longleftrightarrow> s = []"
  by (simp add: lower_def)

lemma lower_drop: "lower (drop n s) = drop n (lower s)"
  by (simp add: lower_def drop_map)

lemma dropWhile_isspace_lower: "dropWhile isspace (lower s) = lower (dropWhile isspace s)"
  by (simp add: lower_def dropWhile_map o_def)

lemma trim_lower: "trim (lower s) = lower (trim s)"
proof -
  have "rev (lower s) = lower (rev s)" for s
    by (simp add: lower_def rev_map)
  then show ?thesis
    by (simp add: trim_def dropWhile_isspace_lower)
qed

lemma dropWhile_dropWhile_same: "dropWhile P (dropWhile P xs) = dropWhile P xs"
  by (induction xs) auto

lemma dropWhile_id: "xs = [] \<or> \<not> P (hd xs) \<Longrightarrow> dropWhile P xs = xs"
  by (cases xs) auto

lemma hd_dropWhile_not: "dropWhile P xs \<noteq> [] \<Longrightarrow> \<not> P (hd (dropWhile P xs))"
  by (rule hd_dropWhile)

lemma trim_last: "trim s \<noteq> [] \<Longrightarrow> \<not> isspace (last (trim s))"
  unfolding trim_def by (metis hd_dropWhile last_rev rev_is_Nil_conv)

lemma trim_hd:
  assumes "trim s \<noteq> []"
  shows "\<not> isspace (hd (trim s))"
proof -
  let ?d = "dropWhile isspace s"
  have d: "?d \<noteq> []"
    using assms by (metis dropWhile.simps(1) rev.simps(1) trim_def)
  obtain k where "trim s = take k ?d"
    unfolding trim_def by (metis dropWhile_eq_drop rev_drop rev_rev_ident)
  with assms have "hd (trim s) = hd ?d"
    by (cases ?d; cases k) auto
  then show ?thesis
    using hd_dropWhile [OF d] by simp
qed

lemma trim_id: "s = [] \<or> \<not> isspace (hd s) \<and> \<not> isspace (last s) \<Longrightarrow> trim s = s"
  by (auto simp: trim_def dropWhile_id hd_rev)

lemma trim_trim [simp]: "trim (trim s) = trim s"
  by (rule trim_id) (use trim_hd trim_last in blast)

subsection \<open>Searching\<close>

lemma strchr_Some: "strchr s c = Some (a, b) \<longleftrightarrow> s = a @ c # b \<and> c \<notin> set a"
proof
  assume "strchr s c = Some (a, b)"
  then have c: "c \<in> set s" and a: "a = takeWhile (\<lambda>x. x \<noteq> c) s"
    and b: "b = tl (dropWhile (\<lambda>x. x \<noteq> c) s)"
    by (auto simp: strchr_def split: if_splits)
  have ne: "dropWhile (\<lambda>x. x \<noteq> c) s \<noteq> []"
    using c by auto
  have "hd (dropWhile (\<lambda>x. x \<noteq> c) s) = c"
    using hd_dropWhile [OF ne] by simp
  then have "dropWhile (\<lambda>x. x \<noteq> c) s = c # b"
    using ne b by (metis list.collapse)
  then have "s = a @ c # b"
    using takeWhile_dropWhile_id [of "\<lambda>x. x \<noteq> c" s] a by simp
  moreover have "c \<notin> set a"
    using a by (auto dest: set_takeWhileD)
  ultimately show "s = a @ c # b \<and> c \<notin> set a" ..
next
  assume "s = a @ c # b \<and> c \<notin> set a"
  then show "strchr s c = Some (a, b)"
    by (simp add: strchr_def takeWhile_append dropWhile_append)
qed

lemma strchr_None [simp]: "strchr s c = None \<longleftrightarrow> c \<notin> set s"
  by (simp add: strchr_def)

lemma strrchr_Some: "strrchr s c = Some (a, b) \<longleftrightarrow> s = a @ c # b \<and> c \<notin> set b"
proof -
  have "strrchr s c = Some (a, b) \<longleftrightarrow> strchr (rev s) c = Some (rev b, rev a)"
    by (auto simp: strrchr_def strchr_def split: option.splits)
  also have "\<dots> \<longleftrightarrow> rev s = rev b @ c # rev a \<and> c \<notin> set b"
    by (simp add: strchr_Some)
  also have "\<dots> \<longleftrightarrow> s = a @ c # b \<and> c \<notin> set b"
    by (metis (no_types, lifting) append_Cons append_Nil append_assoc rev.simps(2) rev_append
        rev_rev_ident)
  finally show ?thesis .
qed

lemma strrchr_None [simp]: "strrchr s c = None \<longleftrightarrow> c \<notin> set s"
  by (auto simp: strrchr_def strchr_def)

lemma has_prefix_iff: "has_prefix p s \<longleftrightarrow> (\<exists>t. s = p @ t)"
  unfolding has_prefix_def by (metis append_eq_conv_conj append_take_drop_id)

lemma has_prefix_hd: "has_prefix (c # p) s \<Longrightarrow> hd s = c"
  by (auto simp: has_prefix_iff)

lemma strstr_iff: "strstr s needle \<longleftrightarrow> (\<exists>a b. s = a @ needle @ b)"
proof (induction s)
  case Nil
  then show ?case by auto
next
  case (Cons c cs)
  have "(\<exists>a b. c # cs = a @ needle @ b) \<longleftrightarrow>
      (\<exists>b. c # cs = needle @ b) \<or> (\<exists>a b. cs = a @ needle @ b)"
    by (metis append_Cons append_Nil list.exhaust list.inject)
  then show ?case
    by (simp add: Cons.IH has_prefix_iff)
qed

section \<open>Numbers in text\<close>

definition digit_value :: "char \<Rightarrow> nat" where
  "digit_value c = code c - 48"

definition digit_char :: "nat \<Rightarrow> char" where
  "digit_char d = char_of (48 + d)"

definition digits_value :: "string \<Rightarrow> nat" where
  "digits_value ds = foldl (\<lambda>acc c. acc * 10 + digit_value c) 0 ds"

fun dec_nat :: "nat \<Rightarrow> string" where
  "dec_nat n = (if n < 10 then [digit_char n] else dec_nat (n div 10) @ [digit_char (n mod 10)])"

declare dec_nat.simps [simp del]

definition dec_int :: "int \<Rightarrow> string" where
  "dec_int i = (if i < 0 then CHR ''-'' # dec_nat (nat (- i)) else dec_nat (nat i))"

lemma digit_value_char [simp]: "d < 10 \<Longrightarrow> digit_value (digit_char d) = d"
  by (simp add: digit_value_def digit_char_def)

lemma isdigit_char [simp]: "d < 10 \<Longrightarrow> isdigit (digit_char d)"
  by (simp add: isdigit_def digit_char_def)

lemma digits_value_snoc [simp]: "digits_value (ds @ [c]) = digits_value ds * 10 + digit_value c"
  by (simp add: digits_value_def)

lemma digits_value_Nil [simp]: "digits_value [] = 0"
  by (simp add: digits_value_def)

lemma dec_nat_digits: "\<forall>c \<in> set (dec_nat n). isdigit c"
proof (induction n rule: dec_nat.induct)
  case (1 n)
  then show ?case
    by (cases "n < 10") (auto simp: dec_nat.simps [of n])
qed

lemma dec_nat_nonempty [simp]: "dec_nat n \<noteq> []"
  by (subst dec_nat.simps) simp

lemma digits_value_dec_nat [simp]: "digits_value (dec_nat n) = n"
proof (induction n rule: dec_nat.induct)
  case (1 n)
  show ?case
  proof (cases "n < 10")
    case True
    then show ?thesis
      by (simp add: dec_nat.simps [of n] digits_value_def)
  next
    case False
    with 1 show ?thesis
      by (simp add: dec_nat.simps [of n])
  qed
qed

lemma dec_nat_inj: "dec_nat m = dec_nat n \<longleftrightarrow> m = n"
  by (metis digits_value_dec_nat)

subsection \<open>strtol\<close>

text \<open>
  \<^verbatim>\<open>strtol(s, &end, 10)\<close> with a 64-bit \<^verbatim>\<open>long\<close>: the value, clamped at the range of the type, whether a
  conversion took place (\<^verbatim>\<open>end != s\<close>), the text from \<^verbatim>\<open>end\<close> on, and whether \<^verbatim>\<open>errno\<close> became
  \<^verbatim>\<open>ERANGE\<close>.
\<close>

record strtol_result =
  st_value :: int
  st_converted :: bool
  st_rest :: string
  st_range :: bool

definition long_max :: int where
  "long_max = 2 ^ 63 - 1"

definition long_min :: int where
  "long_min = - (2 ^ 63)"

definition strtol :: "string \<Rightarrow> strtol_result" where
  "strtol s =
     (let t = dropWhile isspace s;
          neg = (t \<noteq> [] \<and> hd t = CHR ''-'');
          u = (if t \<noteq> [] \<and> (hd t = CHR ''-'' \<or> hd t = CHR ''+'') then tl t else t);
          ds = takeWhile isdigit u;
          v = (if neg then - int (digits_value ds) else int (digits_value ds))
      in if ds = [] then \<lparr>st_value = 0, st_converted = False, st_rest = s, st_range = False\<rparr>
         else \<lparr>st_value = max long_min (min long_max v), st_converted = True,
               st_rest = dropWhile isdigit u, st_range = v < long_min \<or> long_max < v\<rparr>)"

text \<open>The test that most callers make: something was converted, the whole text was used, no range
  error.\<close>

definition strtol_full :: "string \<Rightarrow> int option" where
  "strtol_full s =
     (let r = strtol s in
      if st_converted r \<and> st_rest r = [] \<and> \<not> st_range r then Some (st_value r) else None)"

lemma strtol_dec_nat:
  assumes "int n \<le> long_max"
  shows "strtol (dec_nat n) =
    \<lparr>st_value = int n, st_converted = True, st_rest = [], st_range = False\<rparr>"
proof -
  let ?s = "dec_nat n"
  have all: "\<forall>c \<in> set ?s. isdigit c"
    by (rule dec_nat_digits)
  then have hd: "isdigit (hd ?s)"
    by (simp add: dec_nat_nonempty)
  then have nsp: "\<not> isspace (hd ?s)"
    by (rule isdigit_not_isspace)
  have sign: "hd ?s \<noteq> CHR ''-''" "hd ?s \<noteq> CHR ''+''"
    using hd by (auto simp: isdigit_def)
  have sp: "dropWhile isspace ?s = ?s"
    using nsp by (simp add: dropWhile_id)
  have tk: "takeWhile isdigit ?s = ?s" "dropWhile isdigit ?s = []"
    using all by auto
  have "long_min \<le> int n"
    by (simp add: long_min_def)
  then show ?thesis
    using assms by (simp add: strtol_def sp sign tk Let_def max_def min_def)
qed

lemma strtol_full_dec_nat: "int n \<le> long_max \<Longrightarrow> strtol_full (dec_nat n) = Some (int n)"
  by (simp add: strtol_full_def strtol_dec_nat Let_def)

lemma isdigit_hd_dec_nat [simp]: "isdigit (hd (dec_nat n))"
  using dec_nat_digits [of n] hd_in_set [OF dec_nat_nonempty] by blast

lemma isspace_hd_dec_nat [simp]: "\<not> isspace (hd (dec_nat n))"
  by (simp add: isdigit_not_isspace)

lemma dec_nat_hd_zero: "hd (dec_nat n) = CHR ''0'' \<longleftrightarrow> n = 0"
proof (induction n rule: dec_nat.induct)
  case (1 n)
  show ?case
  proof (cases "n < 10")
    case True
    then show ?thesis
      by (auto simp: dec_nat.simps [of n] digit_char_def char_of_eq_iff take_bit_eq_mod)
  next
    case False
    with 1 show ?thesis
      by (simp add: dec_nat.simps [of n])
  qed
qed

lemma strtol_full_dec_int:
  assumes "long_min \<le> i" "i \<le> long_max"
  shows "strtol_full (dec_int i) = Some i"
proof (cases "i < 0")
  case False
  with assms show ?thesis
    by (simp add: dec_int_def strtol_full_dec_nat)
next
  case True
  have "\<forall>c \<in> set (dec_nat n). isdigit c" for n
    by (rule dec_nat_digits)
  then have tk: "takeWhile isdigit (dec_nat n) = dec_nat n" "dropWhile isdigit (dec_nat n) = []" for n
    by auto
  have "\<not> isspace (CHR ''-'')"
    by (simp add: isspace_def)
  with True assms show ?thesis
    by (simp add: strtol_full_def strtol_def dec_int_def tk Let_def max_def min_def)
qed

text \<open>\<^verbatim>\<open>strtoul\<close>: a minus sign negates modulo 2 to the 64.\<close>

definition ulong_max :: int where
  "ulong_max = 2 ^ 64 - 1"

definition strtoul :: "string \<Rightarrow> strtol_result" where
  "strtoul s =
     (let t = dropWhile isspace s;
          neg = (t \<noteq> [] \<and> hd t = CHR ''-'');
          u = (if t \<noteq> [] \<and> (hd t = CHR ''-'' \<or> hd t = CHR ''+'') then tl t else t);
          ds = takeWhile isdigit u;
          v = int (digits_value ds)
      in if ds = [] then \<lparr>st_value = 0, st_converted = False, st_rest = s, st_range = False\<rparr>
         else \<lparr>st_value = (if ulong_max < v then ulong_max else if neg \<and> v \<noteq> 0 then ulong_max + 1 - v else v),
               st_converted = True, st_rest = dropWhile isdigit u, st_range = ulong_max < v\<rparr>)"

lemma strtoul_dec_nat:
  assumes "int n \<le> ulong_max"
  shows "strtoul (dec_nat n) = \<lparr>st_value = int n, st_converted = True, st_rest = [], st_range = False\<rparr>"
proof -
  have "dropWhile isspace (dec_nat n) = dec_nat n"
    by (rule dropWhile_id) simp
  moreover have "hd (dec_nat n) \<noteq> CHR ''-''" "hd (dec_nat n) \<noteq> CHR ''+''"
    using isdigit_hd_dec_nat [of n] by (auto simp: isdigit_def)
  moreover have digits: "takeWhile isdigit (dec_nat n) = dec_nat n" "dropWhile isdigit (dec_nat n) = []"
    using dec_nat_digits by auto
  ultimately show ?thesis
    using assms by (simp add: strtoul_def Let_def digits)
qed

text \<open>The C string in a character array: up to the first \<^verbatim>\<open>NUL\<close>.\<close>

definition c_str :: "string \<Rightarrow> string" where
  "c_str s = takeWhile (\<lambda>c. c \<noteq> CHR 0x00) s"

end
