(* ===== verification/Doubles.thy ===== *)
theory Doubles
  imports CPrelude Complex_Main
begin

text \<open>
  The part of binary64 arithmetic that the JSON code uses: \<^verbatim>\<open>strtod\<close> on a decimal token, the conversion
  of an \<^verbatim>\<open>int64_t\<close>, and \<^verbatim>\<open>printf("%.17g")\<close>.  A finite double is its sign bit and its exact magnitude as a
  rational number, so that every operation below computes.  Rounding is to nearest, ties to even,
  with the exponent range of the format; \<^verbatim>\<open>strtod\<close> answers \<open>None\<close> where it sets \<^verbatim>\<open>ERANGE\<close> (overflow, or a
  result below the normal range that is not exact).
\<close>

datatype double = Double (dbl_negative: bool) (dbl_magnitude: rat)

definition dbl_value :: "double \<Rightarrow> rat" where
  "dbl_value d = (if dbl_negative d then - dbl_magnitude d else dbl_magnitude d)"

section \<open>Rounding\<close>

fun bits :: "nat \<Rightarrow> nat" where
  "bits n = (if n = 0 then 0 else Suc (bits (n div 2)))"

declare bits.simps [simp del]

text \<open>Round half to even.\<close>

definition round_even :: "rat \<Rightarrow> int" where
  "round_even x =
     (let f = \<lfloor>x\<rfloor>; d = x - of_int f in
      if d < 1 / 2 then f else if 1 / 2 < d then f + 1 else if even f then f else f + 1)"

text \<open>The exponent of the leading bit of a positive rational.\<close>

definition binary_exponent :: "rat \<Rightarrow> int" where
  "binary_exponent q =
     (let (a, b) = quotient_of q; e = int (bits (nat a)) - int (bits (nat b)) in
      if 2 powi e \<le> q then e else e - 1)"

definition round_double :: "bool \<Rightarrow> rat \<Rightarrow> double option" where
  "round_double neg q =
     (if q = 0 then Some (Double neg 0)
      else
        let k = max (binary_exponent q - 52) (- 1074);
            r = of_int (round_even (q / 2 powi k)) * 2 powi k
        in if 2 powi 1024 \<le> r then None
           else if r < 2 powi (- 1022) \<and> r \<noteq> q then None
           else Some (Double neg r))"

text \<open>\<^verbatim>\<open>(double)value\<close> for an \<^verbatim>\<open>int64_t\<close>; the conversion is always in range
  (lemma \<open>round_double_int64\<close>).\<close>

definition int64_to_double :: "int \<Rightarrow> double" where
  "int64_to_double i =
     (case round_double (i < 0) (of_int \<bar>i\<bar>) of Some d \<Rightarrow> d | None \<Rightarrow> Double (i < 0) 0)"

section \<open>strtod on a decimal token\<close>

text \<open>The sign, the digits with the point removed, and the power of ten of a token
  \<open>[-]digits[.digits][e[sign]digits]\<close>.\<close>

definition decimal_exponent :: "string \<Rightarrow> int" where
  "decimal_exponent s =
     (case s of
        [] \<Rightarrow> 0
      | e # t \<Rightarrow>
          if e \<noteq> CHR ''e'' \<and> e \<noteq> CHR ''E'' then 0
          else (case t of
              [] \<Rightarrow> 0
            | c # u \<Rightarrow>
                if c = CHR ''-'' then - int (digits_value (takeWhile isdigit u))
                else if c = CHR ''+'' then int (digits_value (takeWhile isdigit u))
                else int (digits_value (takeWhile isdigit t))))"

definition decimal_fraction :: "string \<Rightarrow> string \<times> string" where
  "decimal_fraction s =
     (case s of
        [] \<Rightarrow> ([], [])
      | c # t \<Rightarrow> if c = CHR ''.'' then (takeWhile isdigit t, dropWhile isdigit t) else ([], s))"

definition strtod :: "string \<Rightarrow> double option" where
  "strtod s =
     (let neg = (s \<noteq> [] \<and> hd s = CHR ''-'');
          t = (if neg then tl s else s);
          whole = takeWhile isdigit t;
          (fraction, rest) = decimal_fraction (dropWhile isdigit t);
          e = decimal_exponent rest - int (length fraction)
      in round_double neg (of_nat (digits_value (whole @ fraction)) * 10 powi e))"

section \<open>printf(17g)\<close>

definition decimal_magnitude :: "rat \<Rightarrow> int" where
  "decimal_magnitude q =
     (let (a, b) = quotient_of q; e = int (length (dec_nat (nat a))) - int (length (dec_nat (nat b))) in
      if 10 powi e \<le> q then e else e - 1)"

definition strip_zeros :: "string \<Rightarrow> string" where
  "strip_zeros s = rev (dropWhile (\<lambda>c. c = CHR ''0'') (rev s))"

definition with_fraction :: "string \<Rightarrow> string \<Rightarrow> string" where
  "with_fraction whole fraction = (let f = strip_zeros fraction in if f = [] then whole else whole @ CHR ''.'' # f)"

definition two_digits :: "nat \<Rightarrow> string" where
  "two_digits n = (if n < 10 then CHR ''0'' # dec_nat n else dec_nat n)"

definition format_17g :: "double \<Rightarrow> string" where
  "format_17g d =
     (let sign = (if dbl_negative d then ''-'' else '''');
          q = dbl_magnitude d
      in if q = 0 then sign @ ''0''
         else
           let x0 = decimal_magnitude q;
               m0 = round_even (q / 10 powi (x0 - 16));
               (m, x) = (if m0 = 10 ^ 17 then (10 ^ 16, x0 + 1) else (m0, x0));
               ds = dec_nat (nat m)
           in sign @
              (if - 4 \<le> x \<and> x < 0 then
                 with_fraction ''0'' (replicate (nat (- x - 1)) (CHR ''0'') @ ds)
               else if 0 \<le> x \<and> x < 17 then
                 with_fraction (take (nat x + 1) ds) (drop (nat x + 1) ds)
               else
                 with_fraction (take 1 ds) (drop 1 ds) @ ''e'' @
                 (if x < 0 then ''-'' else ''+'') @ two_digits (nat \<bar>x\<bar>)))"

section \<open>The conversions stay in range\<close>

lemma bits_bound: "0 < n \<Longrightarrow> 2 ^ (bits n - 1) \<le> n \<and> n < 2 ^ bits n"
proof (induction n rule: bits.induct)
  case (1 n)
  show ?case
  proof (cases "n div 2 = 0")
    case True
    with 1(2) have "n = 1" by auto
    then show ?thesis by (simp add: bits.simps)
  next
    case False
    have b: "bits n = Suc (bits (n div 2))"
      using 1(2) by (simp add: bits.simps [of n])
    have "bits (n div 2) = Suc (bits (n div 2) - 1)"
      using False by (simp add: bits.simps [of "n div 2"])
    with 1(1) 1(2) False b show ?thesis
      by (metis One_nat_def Suc_diff_1 diff_Suc_1 div_le_dividend bot_nat_0.not_eq_extremum
          less_mult_imp_div_less mult.commute power_Suc div_less_iff_less_mult zero_less_numeral
          less_eq_div_iff_mult_less_eq)
  qed
qed

lemma round_even_ge: "of_int n \<le> x \<Longrightarrow> n \<le> round_even x"
  using le_floor_iff [of n x] by (auto simp: round_even_def Let_def)

lemma round_even_le:
  assumes "x \<le> of_int n"
  shows "round_even x \<le> n"
proof (cases "\<lfloor>x\<rfloor> = n")
  case True
  then have "x - of_int \<lfloor>x\<rfloor> \<le> 0"
    using assms by simp
  then show ?thesis
    using True by (simp add: round_even_def Let_def)
next
  case False
  have "\<lfloor>x\<rfloor> \<le> n"
    using assms by (simp add: floor_le_iff)
  with False show ?thesis
    by (simp add: round_even_def Let_def)
qed

lemma binary_exponent_nat:
  assumes "0 < n"
  obtains e where "2 ^ e \<le> n" "n < 2 ^ Suc e" "binary_exponent (of_nat n) = int e"
    "(2::rat) powi int e \<le> of_nat n"
proof -
  define e where "e = bits n - 1"
  have bn: "2 ^ e \<le> n" "n < 2 ^ Suc e"
    using bits_bound [of n] assms by (auto simp: e_def bits.simps [of n])
  have q: "quotient_of (of_nat n) = (int n, 1)"
    using quotient_of_int [of "int n"] by simp
  have le: "(2::rat) powi int e \<le> of_nat n"
    using bn(1) by (metis of_nat_le_iff of_nat_numeral of_nat_power power_int_of_nat)
  have "bits 1 = 1" "bits n = Suc e"
    using assms by (simp_all add: bits.simps [of "Suc 0"] bits.simps [of 0] bits.simps [of n] e_def)
  then have "binary_exponent (of_nat n) = int e"
    using le by (simp add: binary_exponent_def q Let_def)
  with bn le show thesis
    by (intro that)
qed

lemma round_double_nat:
  assumes "n \<le> 2 ^ 63"
  shows "\<exists>d. round_double neg (of_nat n) = Some d"
proof (cases "n = 0")
  case True
  then show ?thesis by (simp add: round_double_def)
next
  case False
  then obtain e where bn: "2 ^ e \<le> n" "n < 2 ^ Suc e" and be: "binary_exponent (of_nat n) = int e"
    and le: "(2::rat) powi int e \<le> of_nat n"
    using binary_exponent_nat [of n] by auto
  have e63: "e \<le> 63"
    using bn(1) assms by (meson nat_power_less_imp_less order.trans power_le_imp_le_exp one_less_numeral_iff semiring_norm(76))
  define k where "k = int e - 52"
  define m where "m = round_even (of_nat n / 2 powi k)"
  have kpos: "(0::rat) < 2 powi k" by simp
  have n_up: "of_nat n \<le> (2::rat) powi (int e + 1)"
    using bn(2) by (metis less_imp_le of_nat_Suc of_nat_le_iff of_nat_numeral of_nat_power
        power_int_of_nat Suc_eq_plus1 of_nat_add of_nat_1)
  have split: "(2::rat) powi (int e + 1) = 2 ^ 53 * 2 powi k" "(2::rat) powi int e = 2 ^ 52 * 2 powi k"
    by (simp_all add: k_def power_int_diff power_int_add)
  have "of_nat n / 2 powi k \<le> (of_int (2 ^ 53) :: rat)"
    using n_up kpos unfolding split by (simp add: divide_le_eq)
  then have m_up: "m \<le> 2 ^ 53"
    unfolding m_def by (rule round_even_le)
  have "(of_int (2 ^ 52) :: rat) \<le> of_nat n / 2 powi k"
    using le kpos unfolding split by (simp add: le_divide_eq)
  then have m_lo: "2 ^ 52 \<le> m"
    unfolding m_def by (rule round_even_ge)
  have "of_int m * 2 powi k \<le> (2::rat) powi (int e + 1)"
    unfolding split using m_up kpos
    by (metis mult_right_mono less_imp_le of_int_le_iff of_int_numeral of_int_power)
  also have "\<dots> \<le> 2 powi 64"
    using e63 by (intro power_int_increasing) auto
  also have "\<dots> < 2 powi 1024"
    by (intro power_int_strict_increasing) auto
  finally have up: "of_int m * 2 powi k < (2::rat) powi 1024" .
  have "(2::rat) powi (- 1022) \<le> 2 powi int e"
    by (intro power_int_increasing) auto
  also have "\<dots> \<le> of_int m * 2 powi k"
    unfolding split using m_lo kpos
    by (metis mult_right_mono less_imp_le of_int_le_iff of_int_numeral of_int_power)
  finally have lo: "(2::rat) powi (- 1022) \<le> of_int m * 2 powi k" .
  have "max (binary_exponent (of_nat n) - 52) (- 1074) = k"
    by (simp add: be k_def)
  then show ?thesis
    using up lo False by (simp add: round_double_def Let_def m_def)
qed

lemma round_double_int64:
  assumes "long_min \<le> i" "i \<le> long_max"
  shows "round_double (i < 0) (of_int \<bar>i\<bar>) = Some (int64_to_double i)"
proof -
  have "nat \<bar>i\<bar> \<le> 2 ^ 63"
    using assms by (auto simp: long_min_def long_max_def)
  then obtain d where "round_double (i < 0) (of_nat (nat \<bar>i\<bar>)) = Some d"
    using round_double_nat by blast
  then show ?thesis
    by (simp add: int64_to_double_def)
qed

lemma round_even_int [simp]: "round_even (of_int i) = i"
  by (simp add: round_even_def)

text \<open>Integers of at most 53 bits are exact.\<close>

lemma round_double_exact:
  assumes "n < 2 ^ 53"
  shows "round_double neg (of_nat n) = Some (Double neg (of_nat n))"
proof (cases "n = 0")
  case False
  then obtain e where e: "2 ^ e \<le> n" "binary_exponent (of_nat n) = int e"
    using binary_exponent_nat [of n] by auto
  have "(2::nat) ^ e < 2 ^ 53"
    using e(1) assms by linarith
  then have "e < 53"
    by (rule power_less_imp_less_exp [rotated]) simp
  define j where "j = 52 - e"
  have k: "max (binary_exponent (of_nat n) - 52) (- 1074) = - int j"
    using \<open>e < 53\<close> e(2) by (simp add: j_def)
  have scaled: "(of_nat n :: rat) / 2 powi (- int j) = of_int (int n * 2 ^ j)"
    by (simp add: power_int_minus divide_inverse)
  have r: "of_int (round_even (of_nat n / 2 powi (- int j))) * 2 powi (- int j) = (of_nat n :: rat)"
    unfolding scaled round_even_int by (simp add: power_int_minus)
  have "(of_nat n :: rat) < 2 ^ 53"
    using assms by (metis of_nat_less_iff of_nat_numeral of_nat_power)
  also have "(2::rat) ^ 53 = 2 powi 53"
    by simp
  also have "(2::rat) powi 53 < 2 powi 1024"
    by (rule power_int_strict_increasing) auto
  finally have "\<not> (2 powi 1024 \<le> (of_nat n :: rat))"
    by (simp only: not_le)
  then show ?thesis
    using False unfolding round_double_def Let_def k r by (simp only: if_False) simp
qed (simp add: round_double_def)

lemma dbl_value_int64: "\<bar>i\<bar> < 2 ^ 53 \<Longrightarrow> dbl_value (int64_to_double i) = of_int i"
proof -
  assume "\<bar>i\<bar> < 2 ^ 53"
  then have "nat \<bar>i\<bar> < 2 ^ 53"
    by simp
  from round_double_exact [OF this, of "i < 0"]
  show ?thesis
    by (simp add: int64_to_double_def dbl_value_def)
qed

lemma takeWhile_digits_dec_nat [simp]:
  "takeWhile isdigit (dec_nat n) = dec_nat n" "dropWhile isdigit (dec_nat n) = []"
  using dec_nat_digits by auto

lemma hd_dec_nat_not_sign [simp]: "hd (dec_nat n) \<noteq> CHR ''-''" "hd (dec_nat n) \<noteq> CHR ''+''"
  using isdigit_hd_dec_nat [of n] by (auto simp: isdigit_def)

text \<open>Reading back a printed integer gives the double the C conversion gives.\<close>

lemma strtod_dec_int:
  assumes "long_min \<le> i" "i \<le> long_max"
  shows "strtod (dec_int i) = Some (int64_to_double i)"
  using round_double_int64 [OF assms]
  by (auto simp: strtod_def dec_int_def decimal_fraction_def decimal_exponent_def Let_def)

end
