(* ===== verification/Json.thy ===== *)
theory Json
  imports Doubles
begin

text \<open>
  The JSON library of \<^verbatim>\<open>src/native/src/json.c\<close>: the growing output buffer, string escaping, the recursive
  descent parser with its depth bound, the accessors, the mutators of arrays and objects and the
  serialiser.  A parser position is the list of bytes that are left.  A function that returns NULL or
  0 and sets the error answers \<open>Inl\<close> of the status it sets.  Allocation is taken to succeed.
\<close>

section \<open>The output buffer\<close>

record ch_json_buffer =
  jb_data :: string
  jb_capacity :: nat
  jb_failed :: bool

definition size_max :: nat where
  "size_max = 2 ^ 64 - 1"

text \<open>The doubling loop of \<^verbatim>\<open>ch_json_reserve\<close>; it starts from at least 128, so \<open>next\<close> is positive.\<close>

function ch_json_grow :: "nat \<Rightarrow> nat \<Rightarrow> nat" where
  "ch_json_grow nxt needed =
     (if 0 < nxt \<and> nxt < needed then
        (if size_max div 2 < nxt then needed else ch_json_grow (nxt * 2) needed)
      else nxt)"
  by pat_completeness auto
termination
  by (relation "measure (\<lambda>(nxt, needed). needed - nxt)") auto

declare ch_json_grow.simps [simp del]

definition ch_json_reserve :: "ch_json_buffer \<Rightarrow> nat \<Rightarrow> ch_json_buffer \<times> bool" where
  "ch_json_reserve b extra =
     (if jb_failed b then (b, False)
      else if size_max - length (jb_data b) - 1 < extra then (b\<lparr>jb_failed := True\<rparr>, False)
      else
        let needed = length (jb_data b) + extra + 1 in
        if needed \<le> jb_capacity b then (b, True)
        else (b\<lparr>jb_capacity :=
                  ch_json_grow (if jb_capacity b = 0 then 128 else jb_capacity b) needed\<rparr>, True))"

definition ch_json_init :: ch_json_buffer where
  "ch_json_init = \<lparr>jb_data = [], jb_capacity = 0, jb_failed = False\<rparr>"

definition ch_json_append :: "ch_json_buffer \<Rightarrow> string \<Rightarrow> ch_json_buffer \<times> bool" where
  "ch_json_append b text =
     (let (b', ok) = ch_json_reserve b (length text) in
      if ok then (b'\<lparr>jb_data := jb_data b' @ text\<rparr>, True) else (b', False))"

text \<open>The C chains \<^verbatim>\<open>append(...) && append(...)\<close>.\<close>

definition and_then ::
  "ch_json_buffer \<times> bool \<Rightarrow> (ch_json_buffer \<Rightarrow> ch_json_buffer \<times> bool) \<Rightarrow> ch_json_buffer \<times> bool" where
  "and_then r f = (if snd r then f (fst r) else r)"

definition ch_json_take :: "ch_json_buffer \<Rightarrow> string option" where
  "ch_json_take b = (if jb_failed b then None else Some (jb_data b))"

section \<open>Strings\<close>

abbreviation quote_char :: char where
  "quote_char \<equiv> CHR 0x22"

abbreviation backslash :: char where
  "backslash \<equiv> CHR 0x5C"

definition hex_digit :: "nat \<Rightarrow> char" where
  "hex_digit d = ''0123456789abcdef'' ! d"

text \<open>The bytes that \<^verbatim>\<open>ch_json_append_string\<close> writes for one byte.\<close>

definition escape_char :: "char \<Rightarrow> string" where
  "escape_char c =
     (if c = quote_char then [backslash, quote_char]
      else if c = backslash then [backslash, backslash]
      else if c = CHR 0x08 then [backslash, CHR ''b'']
      else if c = CHR 0x0C then [backslash, CHR ''f'']
      else if c = CHR 0x0A then [backslash, CHR ''n'']
      else if c = CHR 0x0D then [backslash, CHR ''r'']
      else if c = CHR 0x09 then [backslash, CHR ''t'']
      else if code c < 32 then
        [backslash, CHR ''u'', CHR ''0'', CHR ''0'', hex_digit (code c div 16), hex_digit (code c mod 16)]
      else [c])"

fun append_escaped :: "ch_json_buffer \<Rightarrow> string \<Rightarrow> ch_json_buffer \<times> bool" where
  "append_escaped b [] = (b, True)"
| "append_escaped b (c # cs) = and_then (ch_json_append b (escape_char c)) (\<lambda>b. append_escaped b cs)"

definition ch_json_append_string :: "ch_json_buffer \<Rightarrow> string option \<Rightarrow> ch_json_buffer \<times> bool" where
  "ch_json_append_string b value =
     and_then (ch_json_append b [quote_char]) (\<lambda>b.
     and_then (append_escaped b (or_empty value)) (\<lambda>b.
     ch_json_append b [quote_char]))"

definition ch_json_hex :: "char \<Rightarrow> nat option" where
  "ch_json_hex c =
     (if 48 \<le> code c \<and> code c \<le> 57 then Some (code c - 48)
      else if 97 \<le> code c \<and> code c \<le> 102 then Some (code c - 97 + 10)
      else if 65 \<le> code c \<and> code c \<le> 70 then Some (code c - 65 + 10)
      else None)"

text \<open>Four hexadecimal digits at the cursor; the cursor moves by four.\<close>

fun ch_json_code_unit :: "string \<Rightarrow> nat option" where
  "ch_json_code_unit (a # b # c # d # _) =
     (case (ch_json_hex a, ch_json_hex b, ch_json_hex c, ch_json_hex d) of
        (Some w, Some x, Some y, Some z) \<Rightarrow> Some (((w * 16 + x) * 16 + y) * 16 + z)
      | _ \<Rightarrow> None)"
| "ch_json_code_unit _ = None"

text \<open>The UTF-8 bytes of a code point.  They pass through \<^verbatim>\<open>ch_json_append\<close>, which takes a C string: the
  code point 0 is the empty string there.\<close>

definition ch_json_append_codepoint :: "nat \<Rightarrow> string option" where
  "ch_json_append_codepoint cp =
     (if cp = 0 then Some []
      else if cp \<le> 0x7f then Some [char_of cp]
      else if cp \<le> 0x7ff then Some [char_of (0xc0 + cp div 64), char_of (0x80 + cp mod 64)]
      else if cp \<le> 0xffff then
        Some [char_of (0xe0 + cp div 4096), char_of (0x80 + cp div 64 mod 64), char_of (0x80 + cp mod 64)]
      else if cp \<le> 0x10ffff then
        Some [char_of (0xf0 + cp div 262144), char_of (0x80 + cp div 4096 mod 64),
              char_of (0x80 + cp div 64 mod 64), char_of (0x80 + cp mod 64)]
      else None)"

definition simple_escape :: "char \<Rightarrow> char option" where
  "simple_escape e =
     (if e = quote_char then Some quote_char
      else if e = backslash then Some backslash
      else if e = CHR ''/'' then Some (CHR ''/'')
      else if e = CHR ''b'' then Some (CHR 0x08)
      else if e = CHR ''f'' then Some (CHR 0x0C)
      else if e = CHR ''n'' then Some (CHR 0x0A)
      else if e = CHR ''r'' then Some (CHR 0x0D)
      else if e = CHR ''t'' then Some (CHR 0x09)
      else None)"

text \<open>
  The body of the string loop of \<^verbatim>\<open>ch_json_parse_string_raw\<close> in two parts: the \<^verbatim>\<open>case 'u'\<close> branch with its
  surrogate pairs, and the switch on the byte after a backslash.  Each answers the bytes to append and
  the rest.
\<close>

definition parse_unicode :: "string \<Rightarrow> (string \<times> string) result" where
  "parse_unicode es =
     (case ch_json_code_unit es of
        None \<Rightarrow> Inl CH_ERROR_PARSE
      | Some u \<Rightarrow>
          if 0xd800 \<le> u \<and> u \<le> 0xdbff then
            (if take 2 (drop 4 es) \<noteq> [backslash, CHR ''u''] then Inl CH_ERROR_PARSE
             else (case ch_json_code_unit (drop 6 es) of
                 None \<Rightarrow> Inl CH_ERROR_PARSE
               | Some low \<Rightarrow>
                   if low < 0xdc00 \<or> 0xdfff < low then Inl CH_ERROR_PARSE
                   else (case ch_json_append_codepoint
                                (0x10000 + (u - 0xd800) * 1024 + (low - 0xdc00)) of
                       None \<Rightarrow> Inl CH_ERROR_OUT_OF_MEMORY
                     | Some t \<Rightarrow> Inr (t, drop 10 es))))
          else if 0xdc00 \<le> u \<and> u \<le> 0xdfff then Inl CH_ERROR_PARSE
          else (case ch_json_append_codepoint u of
              None \<Rightarrow> Inl CH_ERROR_OUT_OF_MEMORY
            | Some t \<Rightarrow> Inr (t, drop 4 es)))"

definition parse_escape :: "string \<Rightarrow> (string \<times> string) result" where
  "parse_escape cs =
     (case cs of
        [] \<Rightarrow> Inl CH_ERROR_PARSE
      | e # es \<Rightarrow>
          (case simple_escape e of
             Some r \<Rightarrow> Inr ([r], es)
           | None \<Rightarrow> if e = CHR ''u'' then parse_unicode es else Inl CH_ERROR_PARSE))"

lemma ch_json_hex_bound: "ch_json_hex c = Some d \<Longrightarrow> d < 16"
  by (auto simp: ch_json_hex_def split: if_splits)

lemma ch_json_code_unit_bound: "ch_json_code_unit s = Some u \<Longrightarrow> u < 65536"
  by (induction s rule: ch_json_code_unit.induct)
    (auto split: option.splits dest!: ch_json_hex_bound)

lemma ch_json_append_codepoint_None: "ch_json_append_codepoint cp = None \<longleftrightarrow> 0x10ffff < cp"
  by (simp add: ch_json_append_codepoint_def)

lemma parse_unicode_shape:
  "case parse_unicode es of Inl e \<Rightarrow> e = CH_ERROR_PARSE | Inr (t, r) \<Rightarrow> length r \<le> length es"
proof (cases "ch_json_code_unit es")
  case None
  then show ?thesis by (simp add: parse_unicode_def)
next
  case (Some u)
  have u: "u < 65536"
    by (rule ch_json_code_unit_bound [OF Some])
  have pair: "ch_json_append_codepoint (0x10000 + (u - 0xd800) * 1024 + (low - 0xdc00)) \<noteq> None"
    if "u \<le> 0xdbff" "\<not> (low < 0xdc00 \<or> 0xdfff < low)" for low
    unfolding ch_json_append_codepoint_None using that by linarith
  have single: "ch_json_append_codepoint u \<noteq> None"
    unfolding ch_json_append_codepoint_None using u by simp
  show ?thesis
  proof (cases "ch_json_code_unit (drop 6 es)")
    case None
    then show ?thesis
      unfolding parse_unicode_def Some using single by (auto split: option.split)
  next
    case low: (Some low)
    show ?thesis
      unfolding parse_unicode_def Some low using pair [of low] single by (auto split: option.split)
  qed
qed

lemma parse_escape_shape:
  "case parse_escape cs of Inl e \<Rightarrow> e = CH_ERROR_PARSE | Inr (t, r) \<Rightarrow> length r \<le> length cs"
proof (cases cs)
  case (Cons e es)
  then show ?thesis
    using parse_unicode_shape [of es]
    by (auto simp: parse_escape_def split: option.split sum.splits)
qed (simp add: parse_escape_def)

text \<open>The loop after the opening quote, with the output so far.\<close>

function parse_string_body :: "string \<Rightarrow> string \<Rightarrow> (string \<times> string) result" where
  "parse_string_body out [] = Inl CH_ERROR_PARSE"
| "parse_string_body out (c # cs) =
     (if c = quote_char then Inr (out, cs)
      else if code c < 32 then Inl CH_ERROR_PARSE
      else if c \<noteq> backslash then parse_string_body (out @ [c]) cs
      else (case parse_escape cs of
          Inl e \<Rightarrow> Inl e
        | Inr (t, r) \<Rightarrow> parse_string_body (out @ t) r))"
  by pat_completeness auto
termination
proof (relation "measure (\<lambda>(out, s). length s)")
  fix out :: string and c cs b t r
  assume "parse_escape cs = Inr b" "(t, r) = b"
  then show "((out @ t, r), (out, c # cs)) \<in> measure (\<lambda>(out, s). length s)"
    using parse_escape_shape [of cs] by auto
qed auto

definition ch_json_parse_string_raw :: "string \<Rightarrow> (string \<times> string) result" where
  "ch_json_parse_string_raw s =
     (case s of
        [] \<Rightarrow> Inl CH_ERROR_PARSE
      | c # cs \<Rightarrow> if c \<noteq> quote_char then Inl CH_ERROR_PARSE else parse_string_body [] cs)"

section \<open>Values and numbers\<close>

datatype ch_json_type = CH_JSON_NULL | CH_JSON_BOOL | CH_JSON_NUMBER | CH_JSON_STRING | CH_JSON_ARRAY | CH_JSON_OBJECT

text \<open>A number keeps the double, the 64-bit integer and whether the integer is exact.\<close>

datatype ch_json_value =
    JNull
  | JBool bool
  | JNumber double int bool
  | JString string
  | JArray "ch_json_value list"
  | JObject "(string \<times> ch_json_value) list"

definition ch_json_skip_space :: "string \<Rightarrow> string" where
  "ch_json_skip_space s = dropWhile isspace s"

text \<open>The scanner of \<^verbatim>\<open>ch_json_parse_number\<close>: the rest after each optional part, or \<open>None\<close> at
  \<^verbatim>\<open>goto invalid\<close>.\<close>

definition scan_whole :: "string \<Rightarrow> string option" where
  "scan_whole s =
     (let t = (if s \<noteq> [] \<and> hd s = CHR ''-'' then tl s else s) in
      case t of
        [] \<Rightarrow> None
      | c # cs \<Rightarrow>
          if c = CHR ''0'' then Some cs
          else if isdigit c then Some (dropWhile isdigit t)
          else None)"

definition scan_fraction :: "string \<Rightarrow> (string \<times> bool) option" where
  "scan_fraction s =
     (case s of
        [] \<Rightarrow> Some (s, True)
      | c # cs \<Rightarrow>
          if c \<noteq> CHR ''.'' then Some (s, True)
          else if cs = [] \<or> \<not> isdigit (hd cs) then None
          else Some (dropWhile isdigit cs, False))"

definition scan_exponent :: "string \<Rightarrow> (string \<times> bool) option" where
  "scan_exponent s =
     (case s of
        [] \<Rightarrow> Some (s, True)
      | c # cs \<Rightarrow>
          if c \<noteq> CHR ''e'' \<and> c \<noteq> CHR ''E'' then Some (s, True)
          else
            let t = (if cs \<noteq> [] \<and> (hd cs = CHR ''+'' \<or> hd cs = CHR ''-'') then tl cs else cs) in
            if t = [] \<or> \<not> isdigit (hd t) then None
            else Some (dropWhile isdigit t, False))"

definition ch_json_parse_number :: "string \<Rightarrow> (ch_json_value \<times> string) result" where
  "ch_json_parse_number s =
     (case scan_whole s of
        None \<Rightarrow> Inl CH_ERROR_PARSE
      | Some r1 \<Rightarrow>
          (case scan_fraction r1 of
             None \<Rightarrow> Inl CH_ERROR_PARSE
           | Some (r2, int1) \<Rightarrow>
               (case scan_exponent r2 of
                  None \<Rightarrow> Inl CH_ERROR_PARSE
                | Some (r3, int2) \<Rightarrow>
                    let text = take (length s - length r3) s in
                    case strtod text of
                      None \<Rightarrow> Inl CH_ERROR_PARSE
                    | Some number \<Rightarrow>
                        (case (if int1 \<and> int2 then strtol_full text else None) of
                           None \<Rightarrow> Inr (JNumber number 0 False, r3)
                         | Some integer \<Rightarrow> Inr (JNumber number integer True, r3)))))"

section \<open>The parser\<close>

text \<open>
  The loops of \<^verbatim>\<open>ch_json_parse_array\<close> and \<^verbatim>\<open>ch_json_parse_object\<close>, with the value parser of the next
  nesting level as an argument and as fuel the number of rounds; every round consumes a byte, so one
  more than the length of the text is enough (lemma \<open>parse_value_consumes\<close>).
\<close>

fun parse_items ::
  "(string \<Rightarrow> (ch_json_value \<times> string) result) \<Rightarrow> nat \<Rightarrow> ch_json_value list \<Rightarrow> string \<Rightarrow>
   (ch_json_value \<times> string) result" where
  "parse_items pv 0 acc s = Inl CH_ERROR_INTERNAL"
| "parse_items pv (Suc fuel) acc s =
     bind_result (pv s) (\<lambda>(item, r).
       case ch_json_skip_space r of
         [] \<Rightarrow> Inl CH_ERROR_PARSE
       | c # cs \<Rightarrow>
           if c = CHR '']'' then Inr (JArray (acc @ [item]), cs)
           else if c \<noteq> CHR '','' then Inl CH_ERROR_PARSE
           else parse_items pv fuel (acc @ [item]) (ch_json_skip_space cs))"

definition ch_json_parse_array ::
  "(string \<Rightarrow> (ch_json_value \<times> string) result) \<Rightarrow> string \<Rightarrow> (ch_json_value \<times> string) result" where
  "ch_json_parse_array pv s =
     (let t = ch_json_skip_space (tl s) in
      if t \<noteq> [] \<and> hd t = CHR '']'' then Inr (JArray [], tl t)
      else parse_items pv (Suc (length t)) [] t)"

fun parse_members ::
  "(string \<Rightarrow> (ch_json_value \<times> string) result) \<Rightarrow> nat \<Rightarrow> (string \<times> ch_json_value) list \<Rightarrow> string \<Rightarrow>
   (ch_json_value \<times> string) result" where
  "parse_members pv 0 acc s = Inl CH_ERROR_INTERNAL"
| "parse_members pv (Suc fuel) acc s =
     bind_result (ch_json_parse_string_raw s) (\<lambda>(key, r).
       case ch_json_skip_space r of
         [] \<Rightarrow> Inl CH_ERROR_PARSE
       | c # cs \<Rightarrow>
           if c \<noteq> CHR '':'' then Inl CH_ERROR_PARSE
           else bind_result (pv cs) (\<lambda>(value, r).
             case ch_json_skip_space r of
               [] \<Rightarrow> Inl CH_ERROR_PARSE
             | c # cs \<Rightarrow>
                 if c = CHR ''}'' then Inr (JObject (acc @ [(key, value)]), cs)
                 else if c \<noteq> CHR '','' then Inl CH_ERROR_PARSE
                 else parse_members pv fuel (acc @ [(key, value)]) (ch_json_skip_space cs)))"

definition ch_json_parse_object ::
  "(string \<Rightarrow> (ch_json_value \<times> string) result) \<Rightarrow> string \<Rightarrow> (ch_json_value \<times> string) result" where
  "ch_json_parse_object pv s =
     (let t = ch_json_skip_space (tl s) in
      if t \<noteq> [] \<and> hd t = CHR ''}'' then Inr (JObject [], tl t)
      else parse_members pv (Suc (length t)) [] t)"

text \<open>The first argument is the number of nesting levels that are left: 64 minus the depth counter.\<close>

fun ch_json_parse_value :: "nat \<Rightarrow> string \<Rightarrow> (ch_json_value \<times> string) result" where
  "ch_json_parse_value 0 s = Inl CH_ERROR_PARSE"
| "ch_json_parse_value (Suc levels) s =
     (let t = ch_json_skip_space s in
      if t = [] then Inl CH_ERROR_PARSE
      else if hd t = quote_char then
        bind_result (ch_json_parse_string_raw t) (\<lambda>(text, r). Inr (JString text, r))
      else if hd t = CHR ''['' then ch_json_parse_array (ch_json_parse_value levels) t
      else if hd t = CHR ''{'' then ch_json_parse_object (ch_json_parse_value levels) t
      else if has_prefix ''null'' t then Inr (JNull, drop 4 t)
      else if has_prefix ''true'' t then Inr (JBool True, drop 4 t)
      else if has_prefix ''false'' t then Inr (JBool False, drop 5 t)
      else if hd t = CHR ''-'' \<or> isdigit (hd t) then ch_json_parse_number t
      else Inl CH_ERROR_PARSE)"

definition ch_json_parse :: "string option \<Rightarrow> ch_json_value result" where
  "ch_json_parse json =
     (case json of
        None \<Rightarrow> Inl CH_ERROR_INVALID_ARGUMENT
      | Some text \<Rightarrow>
          bind_result (ch_json_parse_value 64 text) (\<lambda>(value, r).
            if ch_json_skip_space r \<noteq> [] then Inl CH_ERROR_PARSE else Inr value))"

section \<open>Accessors\<close>

definition ch_json_value_type :: "ch_json_value option \<Rightarrow> ch_json_type" where
  "ch_json_value_type value =
     (case value of
        None \<Rightarrow> CH_JSON_NULL
      | Some JNull \<Rightarrow> CH_JSON_NULL
      | Some (JBool _) \<Rightarrow> CH_JSON_BOOL
      | Some (JNumber _ _ _) \<Rightarrow> CH_JSON_NUMBER
      | Some (JString _) \<Rightarrow> CH_JSON_STRING
      | Some (JArray _) \<Rightarrow> CH_JSON_ARRAY
      | Some (JObject _) \<Rightarrow> CH_JSON_OBJECT)"

definition ch_json_bool_value :: "ch_json_value option \<Rightarrow> bool \<Rightarrow> bool" where
  "ch_json_bool_value value fallback = (case value of Some (JBool b) \<Rightarrow> b | _ \<Rightarrow> fallback)"

definition ch_json_number_value :: "ch_json_value option \<Rightarrow> double \<Rightarrow> double" where
  "ch_json_number_value value fallback = (case value of Some (JNumber d _ _) \<Rightarrow> d | _ \<Rightarrow> fallback)"

definition ch_json_int64_value :: "ch_json_value option \<Rightarrow> int option" where
  "ch_json_int64_value value =
     (case value of Some (JNumber _ i exact) \<Rightarrow> if exact then Some i else None | _ \<Rightarrow> None)"

definition ch_json_string_value :: "ch_json_value option \<Rightarrow> string option" where
  "ch_json_string_value value = (case value of Some (JString s) \<Rightarrow> Some s | _ \<Rightarrow> None)"

definition ch_json_array_size :: "ch_json_value option \<Rightarrow> nat" where
  "ch_json_array_size value = (case value of Some (JArray items) \<Rightarrow> length items | _ \<Rightarrow> 0)"

definition ch_json_array_get :: "ch_json_value option \<Rightarrow> nat \<Rightarrow> ch_json_value option" where
  "ch_json_array_get value index =
     (case value of
        Some (JArray items) \<Rightarrow> if index < length items then Some (items ! index) else None
      | _ \<Rightarrow> None)"

definition ch_json_object_size :: "ch_json_value option \<Rightarrow> nat" where
  "ch_json_object_size value = (case value of Some (JObject ms) \<Rightarrow> length ms | _ \<Rightarrow> 0)"

definition ch_json_object_key :: "ch_json_value option \<Rightarrow> nat \<Rightarrow> string option" where
  "ch_json_object_key value index =
     (case value of
        Some (JObject ms) \<Rightarrow> if index < length ms then Some (fst (ms ! index)) else None
      | _ \<Rightarrow> None)"

definition ch_json_object_value :: "ch_json_value option \<Rightarrow> nat \<Rightarrow> ch_json_value option" where
  "ch_json_object_value value index =
     (case value of
        Some (JObject ms) \<Rightarrow> if index < length ms then Some (snd (ms ! index)) else None
      | _ \<Rightarrow> None)"

text \<open>The linear search that \<^verbatim>\<open>get\<close>, \<^verbatim>\<open>set\<close> and \<^verbatim>\<open>remove\<close> share: the first member with the key.\<close>

definition ch_json_object_get :: "ch_json_value option \<Rightarrow> string \<Rightarrow> ch_json_value option" where
  "ch_json_object_get value key =
     (case value of Some (JObject ms) \<Rightarrow> map_of ms key | _ \<Rightarrow> None)"

section \<open>Construction and mutation\<close>

definition ch_json_value_new_int64 :: "int \<Rightarrow> ch_json_value" where
  "ch_json_value_new_int64 i = JNumber (int64_to_double i) i True"

definition ch_json_value_new_number :: "double \<Rightarrow> ch_json_value" where
  "ch_json_value_new_number d = JNumber d 0 False"

definition ch_json_value_new_string :: "string option \<Rightarrow> ch_json_value" where
  "ch_json_value_new_string s = JString (or_empty s)"

fun ch_json_value_clone :: "ch_json_value \<Rightarrow> ch_json_value" where
  "ch_json_value_clone JNull = JNull"
| "ch_json_value_clone (JBool b) = JBool b"
| "ch_json_value_clone (JNumber d i e) = JNumber d i e"
| "ch_json_value_clone (JString s) = JString s"
| "ch_json_value_clone (JArray items) = JArray (map ch_json_value_clone items)"
| "ch_json_value_clone (JObject ms) = JObject (map (\<lambda>(k, v). (k, ch_json_value_clone v)) ms)"

definition ch_json_array_append ::
  "ch_json_value option \<Rightarrow> ch_json_value option \<Rightarrow> ch_json_value result" where
  "ch_json_array_append arr item =
     (case (arr, item) of
        (Some (JArray items), Some v) \<Rightarrow> Inr (JArray (items @ [v]))
      | _ \<Rightarrow> Inl CH_ERROR_INVALID_ARGUMENT)"

fun set_member :: "(string \<times> ch_json_value) list \<Rightarrow> string \<Rightarrow> ch_json_value \<Rightarrow> (string \<times> ch_json_value) list" where
  "set_member [] key v = [(key, v)]"
| "set_member (m # ms) key v = (if fst m = key then (key, v) # ms else m # set_member ms key v)"

definition ch_json_object_set ::
  "ch_json_value option \<Rightarrow> string option \<Rightarrow> ch_json_value option \<Rightarrow> ch_json_value result" where
  "ch_json_object_set object key member_value =
     (case (object, key, member_value) of
        (Some (JObject ms), Some k, Some v) \<Rightarrow>
          if k = [] then Inl CH_ERROR_INVALID_ARGUMENT else Inr (JObject (set_member ms k v))
      | _ \<Rightarrow> Inl CH_ERROR_INVALID_ARGUMENT)"

fun remove_member :: "(string \<times> ch_json_value) list \<Rightarrow> string \<Rightarrow> (string \<times> ch_json_value) list \<times> bool" where
  "remove_member [] key = ([], False)"
| "remove_member (m # ms) key =
     (if fst m \<noteq> key then (let (ms', found) = remove_member ms key in (m # ms', found)) else (ms, True))"

definition ch_json_object_remove ::
  "ch_json_value option \<Rightarrow> string option \<Rightarrow> ch_json_value option \<times> bool" where
  "ch_json_object_remove object key =
     (case (object, key) of
        (Some (JObject ms), Some k) \<Rightarrow>
          (let (ms', found) = remove_member ms k in (Some (JObject ms'), found))
      | _ \<Rightarrow> (object, False))"

section \<open>The serialiser\<close>

definition append_number :: "ch_json_buffer \<Rightarrow> double \<Rightarrow> int \<Rightarrow> bool \<Rightarrow> ch_json_buffer \<times> bool" where
  "append_number b d i exact = ch_json_append b (if exact then dec_int i else format_17g d)"

fun ch_json_append_value :: "ch_json_buffer \<Rightarrow> ch_json_value \<Rightarrow> ch_json_buffer \<times> bool"
and append_items :: "ch_json_buffer \<Rightarrow> bool \<Rightarrow> ch_json_value list \<Rightarrow> ch_json_buffer \<times> bool"
and append_members :: "ch_json_buffer \<Rightarrow> bool \<Rightarrow> (string \<times> ch_json_value) list \<Rightarrow> ch_json_buffer \<times> bool" where
  "ch_json_append_value b JNull = ch_json_append b ''null''"
| "ch_json_append_value b (JBool v) = ch_json_append b (if v then ''true'' else ''false'')"
| "ch_json_append_value b (JNumber d i exact) = append_number b d i exact"
| "ch_json_append_value b (JString s) = ch_json_append_string b (Some s)"
| "ch_json_append_value b (JArray items) =
     and_then (ch_json_append b ''['') (\<lambda>b. and_then (append_items b True items) (\<lambda>b. ch_json_append b '']''))"
| "ch_json_append_value b (JObject ms) =
     and_then (ch_json_append b ''{'') (\<lambda>b. and_then (append_members b True ms) (\<lambda>b. ch_json_append b ''}''))"
| "append_items b first [] = (b, True)"
| "append_items b first (v # vs) =
     and_then (if first then (b, True) else ch_json_append b '','') (\<lambda>b.
     and_then (ch_json_append_value b v) (\<lambda>b. append_items b False vs))"
| "append_members b first [] = (b, True)"
| "append_members b first ((k, v) # ms) =
     and_then (if first then (b, True) else ch_json_append b '','') (\<lambda>b.
     and_then (ch_json_append_string b (Some k)) (\<lambda>b.
     and_then (ch_json_append b '':'') (\<lambda>b.
     and_then (ch_json_append_value b v) (\<lambda>b. append_members b False ms))))"

section \<open>The text of a value\<close>

text \<open>The reference definition of the output, without the buffer.\<close>

definition string_text :: "string \<Rightarrow> string" where
  "string_text s = [quote_char] @ concat (map escape_char s) @ [quote_char]"

text \<open>A member name of a text written out by hand, as the components do for their answers.\<close>

definition json_key :: "string \<Rightarrow> string" where
  "json_key k = quote_char # k @ [quote_char, CHR '':'']"

fun json_text :: "ch_json_value \<Rightarrow> string"
and items_text :: "bool \<Rightarrow> ch_json_value list \<Rightarrow> string"
and members_text :: "bool \<Rightarrow> (string \<times> ch_json_value) list \<Rightarrow> string" where
  "json_text JNull = ''null''"
| "json_text (JBool v) = (if v then ''true'' else ''false'')"
| "json_text (JNumber d i exact) = (if exact then dec_int i else format_17g d)"
| "json_text (JString s) = string_text s"
| "json_text (JArray items) = ''['' @ items_text True items @ '']''"
| "json_text (JObject ms) = ''{'' @ members_text True ms @ ''}''"
| "items_text first [] = []"
| "items_text first (v # vs) = (if first then [] else '','') @ json_text v @ items_text False vs"
| "members_text first [] = []"
| "members_text first ((k, v) # ms) =
     (if first then [] else '','') @ string_text k @ '':'' @ json_text v @ members_text False ms"

text \<open>The nesting depth that the parser counts, and the values that survive printing: C strings, and
  numbers that are exact integers.\<close>

fun json_depth :: "ch_json_value \<Rightarrow> nat" where
  "json_depth (JArray items) = Suc (Max (insert 0 (set (map json_depth items))))"
| "json_depth (JObject ms) = Suc (Max (insert 0 (set (map (\<lambda>(k, v). json_depth v) ms))))"
| "json_depth _ = 1"

definition c_string :: "string \<Rightarrow> bool" where
  "c_string s \<longleftrightarrow> CHR 0x00 \<notin> set s"

fun json_plain :: "ch_json_value \<Rightarrow> bool" where
  "json_plain JNull \<longleftrightarrow> True"
| "json_plain (JBool _) \<longleftrightarrow> True"
| "json_plain (JNumber d i exact) \<longleftrightarrow> exact \<and> long_min \<le> i \<and> i \<le> long_max \<and> d = int64_to_double i"
| "json_plain (JString s) \<longleftrightarrow> c_string s"
| "json_plain (JArray items) \<longleftrightarrow> (\<forall>v \<in> set items. json_plain v)"
| "json_plain (JObject ms) \<longleftrightarrow> (\<forall>(k, v) \<in> set ms. c_string k \<and> json_plain v)"

end
