(* ===== verification/Interfaces.thy ===== *)
theory Interfaces
  imports CPrelude
begin

text \<open>
  The contracts that several components share: a keyed store, a bounded log that forgets its oldest
  entries, and a list of rules decided by the first match.  Each component interprets the contract it
  provides on its own definitions.
\<close>

section \<open>Keyed stores\<close>

text \<open>Storing and deleting act on the lookup function as on a finite map; \<open>invar\<close> is what deletion
  needs.\<close>

datatype ('k, 'v) store_op = Store 'k 'v | Delete 'k

locale keyed_store =
  fixes invar :: "'s \<Rightarrow> bool"
    and lookup :: "'s \<Rightarrow> 'k \<Rightarrow> 'v option"
    and store :: "'s \<Rightarrow> 'k \<Rightarrow> 'v \<Rightarrow> 's"
    and delete :: "'s \<Rightarrow> 'k \<Rightarrow> 's"
  assumes lookup_store: "lookup (store s k v) = (lookup s)(k \<mapsto> v)"
    and lookup_delete: "invar s \<Longrightarrow> lookup (delete s k) = (lookup s)(k := None)"
    and invar_store: "invar s \<Longrightarrow> invar (store s k v)"
    and invar_delete: "invar s \<Longrightarrow> invar (delete s k)"
begin

primrec run :: "('k, 'v) store_op \<Rightarrow> 's \<Rightarrow> 's" where
  "run (Store k v) s = store s k v"
| "run (Delete k) s = delete s k"

primrec run_map :: "('k, 'v) store_op \<Rightarrow> ('k \<Rightarrow> 'v option) \<Rightarrow> ('k \<Rightarrow> 'v option)" where
  "run_map (Store k v) m = m(k \<mapsto> v)"
| "run_map (Delete k) m = m(k := None)"

lemma run_refines: "invar s \<Longrightarrow> lookup (run a s) = run_map a (lookup s) \<and> invar (run a s)"
  by (cases a) (simp_all add: lookup_store lookup_delete invar_store invar_delete)

lemma runs_refine: "invar s \<Longrightarrow> lookup (fold run ops s) = fold run_map ops (lookup s) \<and> invar (fold run ops s)"
  by (induction ops arbitrary: s) (simp_all add: run_refines)

end

section \<open>Bounded logs\<close>

definition lastn :: "nat \<Rightarrow> 'a list \<Rightarrow> 'a list" where
  "lastn n xs = drop (length xs - n) xs"

lemma length_lastn [simp]: "length (lastn n xs) = min n (length xs)"
  by (simp add: lastn_def)

lemma lastn_all [simp]: "length xs \<le> n \<Longrightarrow> lastn n xs = xs"
  by (simp add: lastn_def)

lemma set_lastn_subset: "set (lastn n xs) \<subseteq> set xs"
  by (auto simp: lastn_def dest: in_set_dropD)

lemma lastn_snoc:
  assumes "0 < n"
  shows "lastn n (xs @ [x]) = (if length xs < n then xs else tl (lastn n xs)) @ [x]"
proof (cases "length xs < n")
  case False
  then have "Suc (length xs) - n = Suc (length xs - n)"
    by simp
  with False assms show ?thesis
    by (simp add: lastn_def drop_Suc tl_drop)
qed (simp add: lastn_def)

text \<open>
  A log with room for \<open>cap\<close> entries: adding marks the entry (for the event ring, with its sequence
  number), puts it last, and drops the first when the log is full.
\<close>

locale bounded_log =
  fixes invar :: "'s \<Rightarrow> bool"
    and cap :: "'s \<Rightarrow> nat"
    and entries :: "'s \<Rightarrow> 'e list"
    and mark :: "'s \<Rightarrow> 'x \<Rightarrow> 'e"
    and add :: "'x \<Rightarrow> 's \<Rightarrow> 's"
  assumes cap_pos: "invar s \<Longrightarrow> 0 < cap s"
    and entries_cap: "invar s \<Longrightarrow> length (entries s) \<le> cap s"
    and invar_add: "invar s \<Longrightarrow> invar (add x s)"
    and cap_add: "invar s \<Longrightarrow> cap (add x s) = cap s"
    and entries_add: "invar s \<Longrightarrow>
      entries (add x s) = (if length (entries s) < cap s then entries s else tl (entries s)) @ [mark s x]"
begin

fun marks :: "'s \<Rightarrow> 'x list \<Rightarrow> 'e list" where
  "marks s [] = []"
| "marks s (x # xs) = mark s x # marks (add x s) xs"

lemma marks_append: "marks s (xs @ ys) = marks s xs @ marks (fold add xs s) ys"
  by (induction xs arbitrary: s) auto

lemma invar_adds: "invar s \<Longrightarrow> invar (fold add xs s)"
  by (induction xs arbitrary: s) (auto simp: invar_add)

lemma cap_adds: "invar s \<Longrightarrow> cap (fold add xs s) = cap s"
  by (induction xs arbitrary: s) (auto simp: invar_add cap_add)

lemma entries_adds: "invar s \<Longrightarrow> entries (fold add xs s) = lastn (cap s) (entries s @ marks s xs)"
proof (induction xs rule: rev_induct)
  case Nil
  then show ?case
    by (simp add: entries_cap)
next
  case (snoc x xs)
  let ?s = "fold add xs s"
  have inv: "invar ?s"
    using snoc.prems by (rule invar_adds)
  have "entries (add x ?s) =
      (if length (entries ?s) < cap s then entries ?s else tl (entries ?s)) @ [mark ?s x]"
    using entries_add [OF inv] cap_adds [OF snoc.prems] by simp
  also have "\<dots> = lastn (cap s) ((entries s @ marks s xs) @ [mark ?s x])"
    using snoc cap_pos [OF snoc.prems]
    by (subst lastn_snoc) (auto simp: min_def)
  finally show ?case
    by (simp add: marks_append)
qed

end

section \<open>First match\<close>

text \<open>
  A decision by the first rule that applies, with a default.  \<open>applies\<close> says whether a rule matches a
  request, \<open>verdict\<close> is what it answers; \<open>decide\<close> is the component's loop.
\<close>

locale first_match =
  fixes applies :: "'r \<Rightarrow> 'q \<Rightarrow> bool"
    and verdict :: "'r \<Rightarrow> 'd"
    and fallback :: "'q \<Rightarrow> 'd"
    and decide :: "'r list \<Rightarrow> 'q \<Rightarrow> 'd"
  assumes decide_Nil: "decide [] q = fallback q"
    and decide_Cons: "decide (r # rs) q = (if applies r q then verdict r else decide rs q)"
begin

lemma decide_find: "decide rs q = (case find (\<lambda>r. applies r q) rs of None \<Rightarrow> fallback q | Some r \<Rightarrow> verdict r)"
  by (induction rs) (auto simp: decide_Nil decide_Cons)

lemma decide_skip: "\<forall>r \<in> set rs. \<not> applies r q \<Longrightarrow> decide (rs @ rs') q = decide rs' q"
  by (induction rs) (auto simp: decide_Cons)

lemma decide_first: "\<forall>r \<in> set rs. \<not> applies r q \<Longrightarrow> applies r q \<Longrightarrow> decide (rs @ r # rs') q = verdict r"
  by (simp add: decide_skip decide_Cons)

lemma decide_default: "\<forall>r \<in> set rs. \<not> applies r q \<Longrightarrow> decide rs q = fallback q"
  using decide_skip [of rs q "[]"] by (simp add: decide_Nil)

text \<open>A rule behind one that applies whenever it does has no effect.\<close>

lemma decide_shadowed:
  assumes "\<And>q. applies r q \<Longrightarrow> applies s q" "s \<in> set rs"
  shows "decide (rs @ r # rs') q = decide (rs @ rs') q"
proof (cases "\<exists>x \<in> set rs. applies x q")
  case True
  then show ?thesis
    by (induction rs) (auto simp: decide_Cons)
next
  case False
  with assms show ?thesis
    by (simp add: decide_skip decide_Cons) blast
qed

end

end
