(* ===== verification/Json_Laws.thy ===== *)
theory Json_Laws
  imports Json Interfaces
begin

text \<open>
  Laws of the JSON library: the buffer and the serialiser against \<open>json_text\<close>, termination and error
  codes of the parser, and the round trip through text.
\<close>

section \<open>The buffer\<close>

text \<open>The invariant of a buffer that has not failed: the content and its terminator fit the capacity.\<close>

definition jb_inv :: "ch_json_buffer \<Rightarrow> bool" where
  "jb_inv b \<longleftrightarrow> \<not> jb_failed b \<and> jb_capacity b \<le> size_max \<and>
     (jb_capacity b = 0 \<and> jb_data b = [] \<or> length (jb_data b) < jb_capacity b)"

text \<open>\<open>writes f text\<close>: the operation appends exactly \<open>text\<close> if the result fits \<^verbatim>\<open>size_t\<close>, and otherwise
  answers false and marks the buffer failed.\<close>

definition writes :: "(ch_json_buffer \<Rightarrow> ch_json_buffer \<times> bool) \<Rightarrow> string \<Rightarrow> bool" where
  "writes f text \<longleftrightarrow> (\<forall>b. jb_inv b \<longrightarrow>
     (if length (jb_data b) + length text < size_max
      then snd (f b) \<and> jb_inv (fst (f b)) \<and> jb_data (fst (f b)) = jb_data b @ text
      else \<not> snd (f b) \<and> jb_failed (fst (f b))))"

lemma jb_inv_init: "jb_inv ch_json_init"
  by (simp add: jb_inv_def ch_json_init_def)

lemma ch_json_grow_bounds:
  assumes "0 < nxt" "needed \<le> size_max" "nxt \<le> size_max"
  shows "needed \<le> ch_json_grow nxt needed \<and> ch_json_grow nxt needed \<le> size_max"
  using assms
proof (induction nxt needed rule: ch_json_grow.induct)
  case (1 nxt needed)
  then show ?case
    by (subst (1 2) ch_json_grow.simps) (auto simp: size_max_def)
qed

lemma writes_append: "writes (\<lambda>b. ch_json_append b text) text"
  unfolding writes_def
proof (intro allI impI)
  fix b
  assume inv: "jb_inv b"
  let ?needed = "length (jb_data b) + length text + 1"
  let ?start = "if jb_capacity b = 0 then 128 else jb_capacity b"
  show "if length (jb_data b) + length text < size_max
      then snd (ch_json_append b text) \<and> jb_inv (fst (ch_json_append b text)) \<and>
        jb_data (fst (ch_json_append b text)) = jb_data b @ text
      else \<not> snd (ch_json_append b text) \<and> jb_failed (fst (ch_json_append b text))"
  proof (cases "length (jb_data b) + length text < size_max")
    case False
    with inv show ?thesis
      by (auto simp: ch_json_append_def ch_json_reserve_def jb_inv_def size_max_def)
  next
    case True
    have "?needed \<le> ch_json_grow ?start ?needed \<and> ch_json_grow ?start ?needed \<le> size_max"
      using True inv by (intro ch_json_grow_bounds) (auto simp: jb_inv_def size_max_def)
    with True inv show ?thesis
      by (auto simp: ch_json_append_def ch_json_reserve_def jb_inv_def Let_def)
  qed
qed

lemma writes_Nil: "writes (\<lambda>b. (b, True)) []"
  by (auto simp: writes_def jb_inv_def size_max_def)

lemma writes_and_then:
  assumes f: "writes f s" and g: "writes g t"
  shows "writes (\<lambda>b. and_then (f b) g) (s @ t)"
  unfolding writes_def
proof (intro allI impI)
  fix b
  assume inv: "jb_inv b"
  from f inv g show "if length (jb_data b) + length (s @ t) < size_max
      then snd (and_then (f b) g) \<and> jb_inv (fst (and_then (f b) g)) \<and>
        jb_data (fst (and_then (f b) g)) = jb_data b @ s @ t
      else \<not> snd (and_then (f b) g) \<and> jb_failed (fst (and_then (f b) g))"
    by (cases "length (jb_data b) + length s < size_max")
      (auto simp: writes_def and_then_def add.assoc)
qed

lemma writes_cond: "writes f s \<Longrightarrow> writes g t \<Longrightarrow> writes (\<lambda>b. if c then f b else g b) (if c then s else t)"
  by simp

lemma writes_escaped: "writes (\<lambda>b. append_escaped b s) (concat (map escape_char s))"
proof (induction s)
  case Nil
  then show ?case by (simp add: writes_Nil)
next
  case (Cons c cs)
  then show ?case
    using writes_and_then [OF writes_append Cons.IH] by simp
qed

lemma writes_string: "writes (\<lambda>b. ch_json_append_string b s) (string_text (or_empty s))"
  unfolding ch_json_append_string_def string_text_def
  by (intro writes_and_then writes_append writes_escaped)

lemma writes_value:
  "writes (\<lambda>b. ch_json_append_value b v) (json_text v)"
  "writes (\<lambda>b. append_items b first vs) (items_text first vs)"
  "writes (\<lambda>b. append_members b first ms) (members_text first ms)"
proof (induction v and first vs and first ms rule: json_text_items_text_members_text.induct)
  case (4 s)
  then show ?case
    using writes_string [of "Some s"] by simp
next
  case (8 first v vs)
  have "writes (\<lambda>b. if first then (b, True) else ch_json_append b '','') (if first then [] else '','')"
    by (intro writes_cond writes_Nil writes_append)
  from writes_and_then [OF this writes_and_then [OF 8]] show ?case
    by simp
next
  case (10 first k v ms)
  have "writes (\<lambda>b. if first then (b, True) else ch_json_append b '','') (if first then [] else '','')"
    by (intro writes_cond writes_Nil writes_append)
  from writes_and_then [OF this writes_and_then [OF writes_string [of "Some k"]
        writes_and_then [OF writes_append [of "'':''"] writes_and_then [OF 10]]]] show ?case
    by simp
next
  case (5 items)
  then show ?case
    using writes_and_then [OF writes_append [of "''[''"] writes_and_then [OF 5 writes_append]] by simp
next
  case (6 ms)
  then show ?case
    using writes_and_then [OF writes_append [of "''{''"] writes_and_then [OF 6 writes_append]] by simp
qed (simp_all add: writes_append writes_Nil append_number_def)

section \<open>The parser ends, and its errors\<close>

abbreviation parse_shape :: "nat \<Rightarrow> ('a \<times> string) result \<Rightarrow> bool" where
  "parse_shape n x \<equiv> (case x of Inl e \<Rightarrow> e = CH_ERROR_PARSE | Inr (t, r) \<Rightarrow> length r < n)"

lemma parse_shape_mono: "parse_shape m x \<Longrightarrow> m \<le> n \<Longrightarrow> parse_shape n x"
  by (auto split: sum.splits)

lemma parse_string_body_shape: "parse_shape (length s) (parse_string_body out s)"
proof (induction out s rule: parse_string_body.induct)
  case (2 out c cs)
  consider "c = quote_char \<or> code c < 32" | "\<not> (c = quote_char \<or> code c < 32)" "c \<noteq> backslash"
    | "c = backslash" by blast
  then show ?case
  proof cases
    case 1
    then show ?thesis by auto
  next
    case 2
    with \<open>\<lbrakk>c \<noteq> quote_char; \<not> code c < 32; c \<noteq> backslash\<rbrakk> \<Longrightarrow> _\<close> show ?thesis
      by (auto intro: parse_shape_mono)
  next
    case 3
    show ?thesis
    proof (cases "parse_escape cs")
      case (Inl e)
      then show ?thesis
        using parse_escape_shape [of cs] 3 by simp
    next
      case (Inr p)
      obtain t r where p: "p = (t, r)" by fastforce
      have "parse_shape (length r) (parse_string_body (out @ t) r)"
        using "2.IH"(2) Inr p 3 by simp
      moreover have "length r \<le> length (c # cs)"
        using parse_escape_shape [of cs] Inr p by simp
      ultimately show ?thesis
        using Inr p 3 parse_shape_mono by fastforce
    qed
  qed
qed simp

lemma parse_string_raw_shape: "parse_shape (length s) (ch_json_parse_string_raw s)"
proof (cases s)
  case (Cons c cs)
  then show ?thesis
    using parse_string_body_shape [of cs "[]"]
    by (auto simp: ch_json_parse_string_raw_def split: sum.splits)
qed (simp add: ch_json_parse_string_raw_def)

lemma length_dropWhile_le' [simp]: "length (ch_json_skip_space s) \<le> length s"
  by (simp add: ch_json_skip_space_def length_dropWhile_le)

lemma scan_whole_consumes: "scan_whole s = Some r \<Longrightarrow> length r < length s"
  using length_dropWhile_le [of isdigit "tl s"] length_dropWhile_le [of isdigit "tl (tl s)"]
  by (cases s; cases "tl s") (auto simp: scan_whole_def split: if_splits list.splits)

lemma scan_fraction_consumes: "scan_fraction s = Some (r, b) \<Longrightarrow> length r \<le> length s"
  using length_dropWhile_le [of isdigit "tl s"]
  by (cases s) (auto simp: scan_fraction_def split: if_splits)

lemma scan_exponent_consumes: "scan_exponent s = Some (r, b) \<Longrightarrow> length r \<le> length s"
  using length_dropWhile_le [of isdigit "tl s"] length_dropWhile_le [of isdigit "tl (tl s)"]
  by (cases s; cases "tl s") (auto simp: scan_exponent_def Let_def split: if_splits)

lemma parse_number_shape: "parse_shape (length s) (ch_json_parse_number s)"
  unfolding ch_json_parse_number_def Let_def
  by (auto split: option.split dest!: scan_whole_consumes scan_fraction_consumes scan_exponent_consumes)

lemma parse_shape_bind:
  assumes "parse_shape m x" "\<And>t r. x = Inr (t, r) \<Longrightarrow> length r < m \<Longrightarrow> parse_shape n (f (t, r))"
  shows "parse_shape n (bind_result x f)"
  using assms by (cases x) auto

lemma parse_shape_skip:
  assumes "\<And>c cs. length cs < length r \<Longrightarrow> parse_shape n (g c cs)"
  shows "parse_shape n (case ch_json_skip_space r of [] \<Rightarrow> Inl CH_ERROR_PARSE | c # cs \<Rightarrow> g c cs)"
proof (cases "ch_json_skip_space r")
  case (Cons c cs)
  then have "length cs < length r"
    using length_dropWhile_le' [of r] by simp
  with Cons assms show ?thesis by simp
qed simp

lemma skip_less: "length s < n \<Longrightarrow> length (ch_json_skip_space s) < n"
  using length_dropWhile_le' [of s] by linarith

lemma parse_items_shape:
  assumes pv: "\<And>s. parse_shape (length s) (pv s)"
  shows "length s < fuel \<Longrightarrow> parse_shape (length s) (parse_items pv fuel acc s)"
proof (induction fuel arbitrary: acc s)
  case (Suc fuel)
  have next_round: "parse_shape (length s) (parse_items pv fuel acc' (ch_json_skip_space cs))"
    if "length cs < length s" for acc' cs
    using skip_less [OF that] Suc.prems by (intro parse_shape_mono [OF Suc.IH]) auto
  show ?case
    unfolding parse_items.simps
    by (rule parse_shape_bind [OF pv]) (auto intro!: parse_shape_skip next_round)
qed simp

lemma parse_members_shape:
  assumes pv: "\<And>s. parse_shape (length s) (pv s)"
  shows "length s < fuel \<Longrightarrow> parse_shape (length s) (parse_members pv fuel acc s)"
proof (induction fuel arbitrary: acc s)
  case (Suc fuel)
  have next_round: "parse_shape (length s) (parse_members pv fuel acc' (ch_json_skip_space cs))"
    if "length cs < length s" for acc' cs
    using skip_less [OF that] Suc.prems by (intro parse_shape_mono [OF Suc.IH]) auto
  show ?case
    unfolding parse_members.simps
    by (rule parse_shape_bind [OF parse_string_raw_shape])
      (auto intro!: parse_shape_skip parse_shape_bind [OF pv] next_round)
qed simp

lemma parse_value_shape: "parse_shape (length s) (ch_json_parse_value levels s)"
proof (induction levels arbitrary: s)
  case (Suc levels)
  let ?t = "ch_json_skip_space s"
  have tail: "length (ch_json_skip_space (tl ?t)) < length s" if "?t \<noteq> []"
    using that length_dropWhile_le' [of s] by (intro skip_less) (cases ?t; simp)
  have arr: "parse_shape (length s) (ch_json_parse_array (ch_json_parse_value levels) ?t)" if "?t \<noteq> []"
    unfolding ch_json_parse_array_def Let_def
    using tail [OF that] parse_shape_mono [OF parse_items_shape [OF Suc.IH]]
    by (cases "ch_json_skip_space (tl ?t)") (auto simp del: parse_items.simps)
  have obj: "parse_shape (length s) (ch_json_parse_object (ch_json_parse_value levels) ?t)" if "?t \<noteq> []"
    unfolding ch_json_parse_object_def Let_def
    using tail [OF that] parse_shape_mono [OF parse_members_shape [OF Suc.IH]]
    by (cases "ch_json_skip_space (tl ?t)") (auto simp del: parse_members.simps)
  have str: "parse_shape (length s)
      (bind_result (ch_json_parse_string_raw ?t) (\<lambda>(text, r). Inr (JString text, r)))"
    by (intro parse_shape_bind [OF parse_string_raw_shape])
      (auto intro: less_le_trans [OF _ length_dropWhile_le'])
  have num: "parse_shape (length s) (ch_json_parse_number ?t)"
    by (rule parse_shape_mono [OF parse_number_shape]) simp
  have lit: "length ?t - n < length s" if "?t \<noteq> []" "0 < n" for n
    using that length_dropWhile_le' [of s] by (cases ?t) auto
  show ?case
    using arr obj str num lit by (auto simp: Let_def simp del: length_dropWhile_le')
qed simp

section \<open>The depth of a parsed value\<close>

lemma parse_items_all:
  assumes "parse_items pv fuel acc s = Inr (v, r)"
    and pv: "\<And>s v r. pv s = Inr (v, r) \<Longrightarrow> Q v" and "\<forall>v \<in> set acc. Q v"
  shows "\<exists>vs. v = JArray vs \<and> (\<forall>v \<in> set vs. Q v)"
  using assms(1,3)
proof (induction fuel arbitrary: acc s)
  case (Suc fuel)
  obtain item q where item: "pv s = Inr (item, q)"
    using Suc.prems(1) by (auto simp: bind_result_Inr_iff)
  with Suc.prems(1) obtain c cs where "ch_json_skip_space q = c # cs"
    by (auto split: list.splits)
  with Suc item pv [OF item] show ?case
    by (auto split: if_splits)
qed simp

lemma parse_members_all:
  assumes "parse_members pv fuel acc s = Inr (v, r)"
    and pv: "\<And>s v r. pv s = Inr (v, r) \<Longrightarrow> Q v" and "\<forall>kv \<in> set acc. Q (snd kv)"
  shows "\<exists>ms. v = JObject ms \<and> (\<forall>kv \<in> set ms. Q (snd kv))"
  using assms(1,3)
proof (induction fuel arbitrary: acc s)
  case (Suc fuel)
  obtain key q where key: "ch_json_parse_string_raw s = Inr (key, q)"
    using Suc.prems(1) by (auto simp: bind_result_Inr_iff)
  with Suc.prems(1) obtain c cs where c: "ch_json_skip_space q = c # cs"
    by (auto split: list.splits)
  with Suc.prems(1) key obtain member q2 where m: "pv cs = Inr (member, q2)"
    by (auto simp: bind_result_Inr_iff split: if_splits)
  with Suc.prems(1) key c obtain d ds where "ch_json_skip_space q2 = d # ds"
    by (auto split: list.splits if_splits)
  with Suc key c m pv [OF m] show ?case
    by (auto split: if_splits)
qed simp

lemma parse_number_depth: "ch_json_parse_number s = Inr (v, r) \<Longrightarrow> json_depth v = 1"
  by (auto simp: ch_json_parse_number_def Let_def split: option.splits if_splits)

lemma json_depth_array: "(\<forall>v \<in> set vs. json_depth v \<le> n) \<Longrightarrow> json_depth (JArray vs) \<le> Suc n"
  by simp

lemma json_depth_object: "(\<forall>kv \<in> set ms. json_depth (snd kv) \<le> n) \<Longrightarrow> json_depth (JObject ms) \<le> Suc n"
  by auto

lemma parse_array_depth:
  assumes "ch_json_parse_array pv s = Inr (v, r)" "\<And>s v r. pv s = Inr (v, r) \<Longrightarrow> json_depth v \<le> n"
  shows "json_depth v \<le> Suc n"
proof -
  consider "v = JArray []" | fuel t where "parse_items pv fuel [] t = Inr (v, r)"
    using assms(1) unfolding ch_json_parse_array_def Let_def by (metis (no_types, lifting) Inr_inject Pair_inject)
  then show ?thesis
  proof cases
    case 2
    from parse_items_all [OF this, of "\<lambda>v. json_depth v \<le> n"] assms(2) json_depth_array show ?thesis
      by (metis empty_iff list.set(1))
  qed simp
qed

lemma parse_object_depth:
  assumes "ch_json_parse_object pv s = Inr (v, r)" "\<And>s v r. pv s = Inr (v, r) \<Longrightarrow> json_depth v \<le> n"
  shows "json_depth v \<le> Suc n"
proof -
  consider "v = JObject []" | fuel t where "parse_members pv fuel [] t = Inr (v, r)"
    using assms(1) unfolding ch_json_parse_object_def Let_def by (metis (no_types, lifting) Inr_inject Pair_inject)
  then show ?thesis
  proof cases
    case 2
    from parse_members_all [OF this, of "\<lambda>v. json_depth v \<le> n"] assms(2) json_depth_object show ?thesis
      by (metis empty_iff list.set(1))
  qed simp
qed

lemma parse_value_depth: "ch_json_parse_value levels s = Inr (v, r) \<Longrightarrow> json_depth v \<le> levels"
proof (induction levels arbitrary: s v r)
  case (Suc levels)
  note arr = parse_array_depth [OF _ Suc.IH] and obj = parse_object_depth [OF _ Suc.IH]
  show ?case
    using Suc.prems
    by (auto simp: Let_def bind_result_Inr_iff dest: arr obj dest!: parse_number_depth split: if_splits
        simp del: json_depth.simps(1,2))
qed simp

section \<open>The round trip through text\<close>

lemma ch_json_hex_digit: "d < 16 \<Longrightarrow> ch_json_hex (hex_digit d) = Some d"
proof -
  have "list_all (\<lambda>d. ch_json_hex (hex_digit d) = Some d) [0..<16]"
    by code_simp
  then show "d < 16 \<Longrightarrow> ch_json_hex (hex_digit d) = Some d"
    by (auto simp: list_all_iff)
qed

lemma escape_char_cases:
  obtains r where "escape_char c = [backslash, r]" "simple_escape r = Some c"
  | "escape_char c = backslash # CHR ''u'' # CHR ''0'' # CHR ''0'' #
       [hex_digit (code c div 16), hex_digit (code c mod 16)]" "code c < 32"
  | "escape_char c = [c]" "c \<noteq> quote_char" "c \<noteq> backslash" "\<not> code c < 32"
  by (fastforce simp: escape_char_def simple_escape_def split: if_splits)

lemma parse_escaped_char:
  assumes "c \<noteq> CHR 0x00"
  shows "parse_string_body out (escape_char c @ rest) = parse_string_body (out @ [c]) rest"
proof (rule escape_char_cases [of c])
  fix r
  assume "escape_char c = [backslash, r]" "simple_escape r = Some c"
  then show ?thesis by (simp add: parse_escape_def)
next
  assume esc: "escape_char c = backslash # CHR ''u'' # CHR ''0'' # CHR ''0'' #
       [hex_digit (code c div 16), hex_digit (code c mod 16)]" and c: "code c < 32"
  have z: "ch_json_hex (CHR ''0'') = Some 0"
    by (simp add: ch_json_hex_def)
  have n0: "code c \<noteq> 0"
    using assms code_eqI [of c "CHR 0x00"] by auto
  have "parse_unicode (CHR ''0'' # CHR ''0'' # hex_digit (code c div 16) # hex_digit (code c mod 16) # rest) =
      Inr ([c], rest)"
    using c n0 by (simp add: parse_unicode_def z ch_json_hex_digit ch_json_append_codepoint_def)
  moreover have "simple_escape (CHR ''u'') = None"
    by (simp add: simple_escape_def)
  ultimately show ?thesis
    by (simp add: esc parse_escape_def)
next
  assume "escape_char c = [c]" "c \<noteq> quote_char" "c \<noteq> backslash" "\<not> code c < 32"
  then show ?thesis by simp
qed

lemma parse_string_text:
  assumes "c_string s"
  shows "ch_json_parse_string_raw (string_text s @ rest) = Inr (s, rest)"
proof -
  have "parse_string_body out (concat (map escape_char s) @ quote_char # rest) = Inr (out @ s, rest)" for out
    using assms
  proof (induction s arbitrary: out)
    case (Cons c cs)
    then have "c \<noteq> CHR 0x00" "c_string cs"
      by (auto simp: c_string_def)
    then show ?case
      using Cons.IH by (simp add: parse_escaped_char)
  qed simp
  from this [of "[]"] show ?thesis
    by (simp add: ch_json_parse_string_raw_def string_text_def)
qed

definition number_ends :: "string \<Rightarrow> bool" where
  "number_ends s \<longleftrightarrow> s = [] \<or> \<not> isdigit (hd s) \<and> hd s \<noteq> CHR ''.'' \<and> hd s \<noteq> CHR ''e'' \<and> hd s \<noteq> CHR ''E''"

lemma dropWhile_digits_append:
  assumes "\<forall>c \<in> set ds. isdigit c" "number_ends rest"
  shows "dropWhile isdigit (ds @ rest) = rest"
  using assms by (cases rest) (auto simp: dropWhile_append number_ends_def)

lemma scan_whole_dec_nat:
  assumes "number_ends rest"
  shows "scan_whole (dec_nat n @ rest) = Some rest" "scan_whole (CHR ''-'' # dec_nat n @ rest) = Some rest"
proof -
  obtain c cs where d: "dec_nat n = c # cs"
    using dec_nat_nonempty by (cases "dec_nat n") auto
  have all: "\<forall>c \<in> set (dec_nat n). isdigit c"
    by (rule dec_nat_digits)
  have "cs = []" if "c = CHR ''0''"
  proof -
    have "n = 0"
      using dec_nat_hd_zero [of n] d that by simp
    then show ?thesis
      using d by (simp add: dec_nat.simps [of 0])
  qed
  moreover have "dropWhile isdigit (c # cs @ rest) = rest"
    using dropWhile_digits_append [OF all assms] d by simp
  moreover have "c \<noteq> CHR ''-''" "isdigit c"
    using hd_dec_nat_not_sign(1) [of n] all d by auto
  ultimately show "scan_whole (dec_nat n @ rest) = Some rest"
    "scan_whole (CHR ''-'' # dec_nat n @ rest) = Some rest"
    by (auto simp: scan_whole_def d)
qed

lemma scan_whole_dec_int: "number_ends rest \<Longrightarrow> scan_whole (dec_int i @ rest) = Some rest"
  by (simp add: dec_int_def scan_whole_dec_nat)

lemma parse_number_text:
  assumes "long_min \<le> i" "i \<le> long_max" "number_ends rest"
  shows "ch_json_parse_number (dec_int i @ rest) = Inr (JNumber (int64_to_double i) i True, rest)"
proof -
  have "scan_fraction rest = Some (rest, True)" "scan_exponent rest = Some (rest, True)"
    using assms(3) by (auto simp: scan_fraction_def scan_exponent_def number_ends_def split: list.split)
  then show ?thesis
    using assms by (simp add: ch_json_parse_number_def scan_whole_dec_int strtod_dec_int strtol_full_dec_int)
qed

text \<open>The first byte of a text is never white space.\<close>

lemma json_text_hd:
  assumes "json_plain v"
  shows "json_text v \<noteq> [] \<and> \<not> isspace (hd (json_text v))"
proof (cases v)
  case (JNumber d i e)
  moreover have "\<not> isspace (CHR ''-'')"
    by (simp add: isspace_def)
  ultimately show ?thesis
    using assms by (simp add: dec_int_def)
qed (auto simp: string_text_def isspace_def)

lemma skip_space_json_text: "json_plain v \<Longrightarrow> ch_json_skip_space (json_text v @ rest) = json_text v @ rest"
  using json_text_hd [of v] by (cases "json_text v") (auto simp: ch_json_skip_space_def)

lemma skip_space_string_text: "ch_json_skip_space (string_text s @ rest) = string_text s @ rest"
  by (simp add: ch_json_skip_space_def string_text_def isspace_def)

lemma skip_space_cons: "\<not> isspace c \<Longrightarrow> ch_json_skip_space (c # cs) = c # cs"
  by (simp add: ch_json_skip_space_def)

text \<open>What the loops need of the value parser: it reads back the text of each element.\<close>

definition reads_back :: "(string \<Rightarrow> (ch_json_value \<times> string) result) \<Rightarrow> ch_json_value \<Rightarrow> bool" where
  "reads_back pv v \<longleftrightarrow> (\<forall>rest. number_ends rest \<longrightarrow> pv (json_text v @ rest) = Inr (v, rest))"

lemmas not_isspace_punctuation =
  isspace_def [of "CHR '']''"] isspace_def [of "CHR ''}''"] isspace_def [of "CHR '',''"] isspace_def [of "CHR '':''"]

lemma parse_items_text:
  assumes "\<forall>v \<in> set (v # vs). json_plain v \<and> reads_back pv v" "length vs < fuel"
  shows "parse_items pv fuel acc (json_text v @ items_text False vs @ CHR '']'' # rest) =
    Inr (JArray (acc @ v # vs), rest)"
  using assms
proof (induction fuel arbitrary: acc v vs)
  case (Suc fuel)
  have ends: "number_ends (items_text False vs @ CHR '']'' # rest)"
    by (cases vs) (simp_all add: number_ends_def isdigit_def)
  then have pv: "pv (json_text v @ items_text False vs @ CHR '']'' # rest) =
      Inr (v, items_text False vs @ CHR '']'' # rest)"
    using Suc.prems(1) by (simp add: reads_back_def)
  show ?case
  proof (cases vs)
    case Nil
    with pv show ?thesis
      by (simp add: skip_space_cons not_isspace_punctuation)
  next
    case (Cons w ws)
    have "parse_items pv fuel (acc @ [v]) (json_text w @ items_text False ws @ CHR '']'' # rest) =
        Inr (JArray ((acc @ [v]) @ w # ws), rest)"
      by (rule Suc.IH) (use Suc.prems Cons in auto)
    with pv Cons Suc.prems(1) show ?thesis
      by (simp add: skip_space_cons skip_space_json_text not_isspace_punctuation)
  qed
qed simp

lemma parse_members_text:
  assumes "\<forall>kv \<in> set ((k, v) # ms). c_string (fst kv) \<and> json_plain (snd kv) \<and> reads_back pv (snd kv)"
    "length ms < fuel"
  shows "parse_members pv fuel acc
      (string_text k @ CHR '':'' # json_text v @ members_text False ms @ CHR ''}'' # rest) =
    Inr (JObject (acc @ (k, v) # ms), rest)"
  using assms
proof (induction fuel arbitrary: acc k v ms)
  case (Suc fuel)
  have ends: "number_ends (members_text False ms @ CHR ''}'' # rest)"
    by (cases ms; cases "hd ms") (simp_all add: number_ends_def isdigit_def)
  then have pv: "pv (json_text v @ members_text False ms @ CHR ''}'' # rest) =
      Inr (v, members_text False ms @ CHR ''}'' # rest)"
    using Suc.prems(1) by (simp add: reads_back_def)
  have key: "ch_json_parse_string_raw (string_text k @ r) = Inr (k, r)" for r
    using Suc.prems(1) by (simp add: parse_string_text)
  show ?case
  proof (cases ms)
    case Nil
    with pv key show ?thesis
      by (simp add: skip_space_cons not_isspace_punctuation)
  next
    case (Cons m ns)
    obtain l w where m: "m = (l, w)" by fastforce
    have "parse_members pv fuel (acc @ [(k, v)])
          (string_text l @ CHR '':'' # json_text w @ members_text False ns @ CHR ''}'' # rest) =
        Inr (JObject ((acc @ [(k, v)]) @ (l, w) # ns), rest)"
      by (rule Suc.IH) (use Suc.prems Cons m in auto)
    with pv key Cons m show ?thesis
      by (simp add: skip_space_cons skip_space_string_text not_isspace_punctuation)
  qed
qed simp

lemma json_depth_item: "v \<in> set vs \<Longrightarrow> json_depth v < json_depth (JArray vs)"
  by (auto intro!: le_imp_less_Suc Max_ge)

lemma json_depth_member: "(k, v) \<in> set ms \<Longrightarrow> json_depth v < json_depth (JObject ms)"
  by (force intro!: le_imp_less_Suc Max_ge)

lemma length_items_text: "length vs \<le> length (items_text False vs)"
  by (induction vs) auto

lemma length_members_text: "length ms \<le> length (members_text False ms)"
  by (induction ms) auto

lemma json_depth_pos [simp]: "json_depth v \<noteq> 0"
  by (cases v) auto

lemma json_text_digit_hd:
  "long_min \<le> i \<Longrightarrow> i \<le> long_max \<Longrightarrow> hd (dec_int i) = CHR ''-'' \<or> isdigit (hd (dec_int i))"
  by (simp add: dec_int_def)

lemma parse_value_number:
  assumes "long_min \<le> i" "i \<le> long_max" "number_ends rest"
  shows "ch_json_parse_value (Suc n) (dec_int i @ rest) = Inr (JNumber (int64_to_double i) i True, rest)"
proof -
  define t where "t = dec_int i @ rest"
  have ne: "dec_int i \<noteq> []"
    by (simp add: dec_int_def)
  then have h: "hd t = CHR ''-'' \<or> isdigit (hd t)"
    using json_text_digit_hd [OF assms(1,2)] by (simp add: t_def)
  then have no: "hd t \<noteq> c" if "c \<noteq> CHR ''-''" "\<not> isdigit c" for c
    using that by blast
  have neq: "hd t \<noteq> quote_char" "hd t \<noteq> CHR ''[''" "hd t \<noteq> CHR ''{''"
      "hd t \<noteq> CHR ''n''" "hd t \<noteq> CHR ''t''" "hd t \<noteq> CHR ''f''"
    by (rule no; simp add: isdigit_def)+
  then have "\<not> has_prefix ''null'' t" "\<not> has_prefix ''true'' t" "\<not> has_prefix ''false'' t"
    using has_prefix_hd by fast+
  moreover have "ch_json_skip_space t = t"
    using skip_space_json_text [of "JNumber (int64_to_double i) i True" rest] assms by (simp add: t_def)
  moreover have "ch_json_parse_number t = Inr (JNumber (int64_to_double i) i True, rest)"
    using parse_number_text [OF assms] by (simp add: t_def)
  moreover have "t \<noteq> []"
    using ne by (simp add: t_def)
  ultimately show ?thesis
    unfolding t_def [symmetric] using neq h by simp
qed

lemma parse_array_text:
  assumes "\<forall>v \<in> set vs. json_plain v \<and> reads_back pv v"
  shows "ch_json_parse_array pv (json_text (JArray vs) @ rest) = Inr (JArray vs, rest)"
proof (cases vs)
  case Nil
  then show ?thesis
    by (simp add: ch_json_parse_array_def skip_space_cons not_isspace_punctuation)
next
  case (Cons w ws)
  have "hd (dec_nat n) \<noteq> CHR '']''" for n
    using isdigit_hd_dec_nat [of n] by (auto simp: isdigit_def)
  then have "hd (json_text w @ r) \<noteq> CHR '']''" for r
    using assms Cons by (cases w) (auto simp: string_text_def dec_int_def)
  moreover have "length ws < Suc (length (json_text w @ items_text False ws @ CHR '']'' # rest))"
    using length_items_text [of ws] by simp
  ultimately show ?thesis
    using assms Cons parse_items_text [of w ws pv _ "[]" rest]
    by (simp add: ch_json_parse_array_def skip_space_json_text Let_def del: parse_items.simps)
qed

lemma parse_object_text:
  assumes "\<forall>kv \<in> set ms. c_string (fst kv) \<and> json_plain (snd kv) \<and> reads_back pv (snd kv)"
  shows "ch_json_parse_object pv (json_text (JObject ms) @ rest) = Inr (JObject ms, rest)"
proof (cases ms)
  case Nil
  then show ?thesis
    by (simp add: ch_json_parse_object_def skip_space_cons not_isspace_punctuation)
next
  case (Cons m ns)
  obtain k v where m: "m = (k, v)" by fastforce
  let ?t = "string_text k @ CHR '':'' # json_text v @ members_text False ns @ CHR ''}'' # rest"
  have "length ns < Suc (length ?t)"
    using length_members_text [of ns] by simp
  then have "parse_members pv (Suc (length ?t)) [] ?t = Inr (JObject ms, rest)"
    using assms Cons m by (subst parse_members_text) auto
  moreover have "hd ?t \<noteq> CHR ''}''"
    by (simp add: string_text_def)
  ultimately show ?thesis
    using Cons m by (simp add: ch_json_parse_object_def skip_space_string_text Let_def del: parse_members.simps)
qed

lemma parse_value_text:
  "json_plain v \<Longrightarrow> json_depth v \<le> levels \<Longrightarrow> reads_back (ch_json_parse_value levels) v"
proof (induction v arbitrary: levels)
  case (JNumber d i exact)
  then show ?case
    by (cases levels) (auto simp: reads_back_def parse_value_number simp del: ch_json_parse_value.simps)
next
  case (JString s)
  have "hd (string_text s @ rest) = quote_char" "string_text s \<noteq> []" for rest
    by (simp_all add: string_text_def)
  with JString show ?case
    by (cases levels) (auto simp: reads_back_def skip_space_string_text parse_string_text)
next
  case (JArray vs)
  then obtain n where n: "levels = Suc n"
    by (cases levels) auto
  have "json_plain v \<and> reads_back (ch_json_parse_value n) v" if "v \<in> set vs" for v
  proof -
    have "json_depth v \<le> n"
      using json_depth_item [OF that] JArray.prems(2) n by linarith
    then show ?thesis
      using JArray.IH [OF that] JArray.prems(1) that by simp
  qed
  then have "\<forall>v \<in> set vs. json_plain v \<and> reads_back (ch_json_parse_value n) v"
    by blast
  from parse_array_text [OF this] show ?case
    using skip_space_json_text [OF JArray.prems(1)] by (auto simp: n reads_back_def)
next
  case (JObject ms)
  then obtain n where n: "levels = Suc n"
    by (cases levels) auto
  have "c_string k \<and> json_plain v \<and> reads_back (ch_json_parse_value n) v" if "(k, v) \<in> set ms" for k v
  proof -
    have "json_depth v \<le> n"
      using json_depth_member [OF that] JObject.prems(2) n by linarith
    moreover have "v \<in> Basic_BNFs.snds (k, v)"
      by simp
    ultimately show ?thesis
      using JObject.IH [OF that] JObject.prems(1) that by fastforce
  qed
  then have "\<forall>kv \<in> set ms. c_string (fst kv) \<and> json_plain (snd kv) \<and>
      reads_back (ch_json_parse_value n) (snd kv)"
    by auto
  from parse_object_text [OF this] show ?case
    using skip_space_json_text [OF JObject.prems(1)] by (auto simp: n reads_back_def)
next
  case JNull
  then show ?case
    by (cases levels) (simp_all add: reads_back_def skip_space_cons isspace_def has_prefix_def)
next
  case (JBool b)
  then show ?case
    by (cases levels; cases b) (simp_all add: reads_back_def skip_space_cons isspace_def has_prefix_def)
qed

section \<open>Objects as finite maps\<close>

lemma map_of_set_member: "map_of (set_member ms k v) = (map_of ms)(k \<mapsto> v)"
  by (induction ms k v rule: set_member.induct) (auto simp: fun_eq_iff)

lemma keys_set_member:
  "map fst (set_member ms k v) = map fst ms @ (if k \<in> set (map fst ms) then [] else [k])"
  by (induction ms k v rule: set_member.induct) auto

lemma keys_remove_member: "map fst (fst (remove_member ms k)) = remove1 k (map fst ms)"
  by (induction ms k rule: remove_member.induct) (auto split: prod.splits)

lemma found_remove_member: "snd (remove_member ms k) = (k \<in> set (map fst ms))"
  by (induction ms k rule: remove_member.induct) (auto split: prod.splits, force)

lemma map_of_remove_member:
  "distinct (map fst ms) \<Longrightarrow> map_of (fst (remove_member ms k)) = (map_of ms)(k := None)"
proof (induction ms k rule: remove_member.induct)
  case (2 m ms key)
  show ?case
  proof (cases "fst m = key")
    case True
    with 2(2) have "map_of ms key = None"
      by (simp add: map_of_eq_None_iff)
    with True show ?thesis
      by (auto simp: fun_eq_iff)
  next
    case False
    obtain ms' found where r: "remove_member ms key = (ms', found)"
      by fastforce
    have "map_of ms' = (map_of ms)(key := None)"
      using 2 False r by (simp add: fun_upd_def)
    with False r show ?thesis
      by (auto simp: fun_eq_iff)
  qed
qed simp

interpretation json_members: keyed_store
  "\<lambda>ms. distinct (map fst ms)" map_of set_member "\<lambda>ms k. fst (remove_member ms k)"
proof
  show "distinct (map fst (set_member ms k v))" if "distinct (map fst ms)" for ms k and v :: ch_json_value
    using that by (simp add: keys_set_member)
  show "distinct (map fst (fst (remove_member ms k)))" if "distinct (map fst ms)"
    for ms :: "(string \<times> ch_json_value) list" and k
    using that by (simp add: keys_remove_member)
qed (simp_all add: map_of_set_member map_of_remove_member)

lemma clone_eq: "ch_json_value_clone v = v"
  by (induction v) (auto intro!: map_idI)

section \<open>Properties\<close>

text \<open>An edit of an object through the library's own operations; an edit that the library refuses leaves
  the object as it is.\<close>

primrec json_edit :: "(string, ch_json_value) store_op \<Rightarrow> ch_json_value \<Rightarrow> ch_json_value" where
  "json_edit (Store k v) object =
     (case ch_json_object_set (Some object) (Some k) (Some v) of Inl e \<Rightarrow> object | Inr object' \<Rightarrow> object')"
| "json_edit (Delete k) object =
     (case fst (ch_json_object_remove (Some object) (Some k)) of None \<Rightarrow> object | Some object' \<Rightarrow> object')"

primrec map_edit :: "(string, 'v) store_op \<Rightarrow> (string \<Rightarrow> 'v option) \<Rightarrow> (string \<Rightarrow> 'v option)" where
  "map_edit (Store k v) m = (if k = [] then m else m(k \<mapsto> v))"
| "map_edit (Delete k) m = m(k := None)"

primrec accepted_op :: "(string, ch_json_value) store_op \<Rightarrow> bool" where
  "accepted_op (Store k v) \<longleftrightarrow> k \<noteq> []"
| "accepted_op (Delete k) \<longleftrightarrow> True"

lemma json_edits:
  "fold json_edit ops (JObject ms) = JObject (fold json_members.run (filter accepted_op ops) ms)"
proof (induction ops arbitrary: ms)
  case (Cons a ops)
  then show ?case
    by (cases a) (auto simp: ch_json_object_set_def ch_json_object_remove_def split: prod.splits)
qed simp

lemma map_edits: "fold map_edit ops m = fold json_members.run_map (filter accepted_op ops) m"
proof (induction ops arbitrary: m)
  case (Cons a ops)
  then show ?case
    by (cases a) (auto simp: fun_upd_def)
qed simp

lemma parse_json_text:
  assumes "json_plain v" "json_depth v \<le> 64"
  shows "ch_json_parse (Some (json_text v)) = Inr v"
proof -
  have "ch_json_parse_value 64 (json_text v) = Inr (v, [])"
    using parse_value_text [OF assms] unfolding reads_back_def number_ends_def
    by (metis append_Nil2)
  then show ?thesis
    by (simp add: ch_json_parse_def ch_json_skip_space_def del: ch_json_parse_value.simps)
qed

text \<open>C1: Printing a value and parsing the text gives the value back.  For every value of C strings and
  exact 64-bit integers, nested at most 64 deep, whose text fits the address space, the serialiser
  produces a text, and the parser reads that text as the same value.\<close>

theorem json_round_trip:
  assumes "json_plain v" "json_depth v \<le> 64" "length (json_text v) < size_max"
  shows "\<exists>text. ch_json_take (fst (ch_json_append_value ch_json_init v)) = Some text \<and>
    ch_json_parse (Some text) = Inr v"
proof -
  have "jb_inv (fst (ch_json_append_value ch_json_init v))"
    "jb_data (fst (ch_json_append_value ch_json_init v)) = json_text v"
    using writes_value(1) [of v] jb_inv_init assms(3)
    by (auto simp: writes_def ch_json_init_def)
  then have "ch_json_take (fst (ch_json_append_value ch_json_init v)) = Some (json_text v)"
    by (simp add: ch_json_take_def jb_inv_def)
  moreover have "ch_json_parse (Some (json_text v)) = Inr v"
    using assms(1,2) by (rule parse_json_text)
  ultimately show ?thesis by blast
qed

theorem json_round_trip_witness:
  "\<exists>text. ch_json_take (fst (ch_json_append_value ch_json_init
      (JObject [(''rules'', JArray [JNull, JBool True, JNumber (int64_to_double (- 7)) (- 7) True]),
        (''name'', JString [CHR ''a'', CHR 0x0A, CHR 0x22])]))) = Some text \<and>
    ch_json_parse (Some text) =
      Inr (JObject [(''rules'', JArray [JNull, JBool True, JNumber (int64_to_double (- 7)) (- 7) True]),
        (''name'', JString [CHR ''a'', CHR 0x0A, CHR 0x22])])"
  by (rule json_round_trip)
    (simp_all add: c_string_def long_min_def long_max_def size_max_def string_text_def escape_char_def
      dec_int_def dec_nat.simps)

text \<open>C2: The serialiser, working on the growing buffer, appends exactly the reference text of the value
  and keeps the buffer's invariant when the result fits the address space; otherwise it answers false
  and marks the buffer failed.\<close>

theorem json_serialiser_refines:
  assumes "jb_inv b"
  shows "if length (jb_data b) + length (json_text v) < size_max
    then snd (ch_json_append_value b v) \<and> jb_inv (fst (ch_json_append_value b v)) \<and>
      jb_data (fst (ch_json_append_value b v)) = jb_data b @ json_text v
    else \<not> snd (ch_json_append_value b v) \<and> jb_failed (fst (ch_json_append_value b v))"
  using writes_value(1) [of v] assms by (simp add: writes_def)

theorem json_serialiser_refines_witness:
  "snd (ch_json_append_value ch_json_init (JArray [JNull])) \<and>
   jb_data (fst (ch_json_append_value ch_json_init (JArray [JNull]))) = ''[null]''"
  using json_serialiser_refines [of ch_json_init "JArray [JNull]"]
  by (simp add: jb_inv_def ch_json_init_def size_max_def)

text \<open>C3: The parser is total: on every text it ends with a value nested at most 64 deep or with a parse
  error.  No other status is possible, and the loops never run out of rounds.\<close>

theorem json_parse_total:
  "ch_json_parse (Some text) = Inl CH_ERROR_PARSE \<or>
   (\<exists>v. ch_json_parse (Some text) = Inr v \<and> json_depth v \<le> 64)"
proof (cases "ch_json_parse_value 64 text")
  case (Inl e)
  then show ?thesis
    using parse_value_shape [of "text" 64] by (simp add: ch_json_parse_def)
next
  case (Inr p)
  then show ?thesis
    using parse_value_depth [of 64 "text" "fst p" "snd p"] by (auto simp: ch_json_parse_def split: prod.splits)
qed

text \<open>C4: On an object without duplicate keys, every sequence of sets and removals behaves as on a finite
  map, and the lookup returns what the map holds.\<close>

theorem json_object_is_map:
  assumes "distinct (map fst ms)"
  shows "ch_json_object_get (Some (fold json_edit ops (JObject ms))) key = fold map_edit ops (map_of ms) key"
  using json_members.runs_refine [OF assms, of "filter accepted_op ops"]
  by (simp add: json_edits map_edits ch_json_object_get_def)

theorem json_object_is_map_witness:
  "ch_json_object_get
     (Some (fold json_edit [Store ''a'' JNull, Store ''b'' (JBool True), Delete ''a''] (JObject []))) ''b'' =
   Some (JBool True)"
  using json_object_is_map [of "[]" "[Store ''a'' JNull, Store ''b'' (JBool True), Delete ''a'']" "''b''"]
  by simp


end
