(* ===== verification/Event_Ring.thy ===== *)
theory Event_Ring
  imports Json_Laws
begin

text \<open>
  The event ring of \<^verbatim>\<open>src/native/src/events.c\<close>: a circular buffer of the last events with a process-local
  sequence number, the replay operations, and the JSON query with its filters, cursors and limit.
  Every operation runs under the ring's mutex, so each is a function of the ring; only the query takes
  the mutex twice, and it is modelled with the two states it reads.
\<close>

section \<open>The ring\<close>

record ch_event =
  ev_sequence :: nat
  ev_shard_id :: nat
  ev_lamport :: nat
  ev_timestamp_ns :: int
  ev_type :: "string option"
  ev_data_json :: "string option"

record ch_event_ring =
  er_events :: "ch_event list"
  er_head :: nat
  er_size :: nat
  er_capacity :: nat
  er_total :: nat

definition uint64_max :: nat where
  "uint64_max = 2 ^ 64 - 1"

definition ch_event_copy :: "ch_event \<Rightarrow> ch_event" where
  "ch_event_copy e =
     e\<lparr>ev_type := Some (or_empty (ev_type e)),
       ev_data_json := Some (case ev_data_json e of None \<Rightarrow> ''null'' | Some d \<Rightarrow> d)\<rparr>"

definition blank_event :: ch_event where
  "blank_event = \<lparr>ev_sequence = 0, ev_shard_id = 0, ev_lamport = 0, ev_timestamp_ns = 0,
     ev_type = None, ev_data_json = None\<rparr>"

text \<open>\<^verbatim>\<open>sizeof(ch_event)\<close> is 48 on the 64-bit targets.\<close>

definition ch_event_ring_create :: "nat \<Rightarrow> ch_event_ring result" where
  "ch_event_ring_create capacity =
     (if capacity = 0 \<or> size_max div 48 < capacity then Inl CH_ERROR_INVALID_ARGUMENT
      else Inr \<lparr>er_events = replicate capacity blank_event, er_head = 0, er_size = 0,
                er_capacity = capacity, er_total = 0\<rparr>)"

definition ch_event_ring_append :: "ch_event_ring \<Rightarrow> ch_event \<Rightarrow> ch_event_ring" where
  "ch_event_ring_append ring event =
     (let total = (er_total ring + 1) mod 2 ^ 64;
          copy = (ch_event_copy event)\<lparr>ev_sequence := total\<rparr>
      in ring\<lparr>er_total := total,
              er_events := (er_events ring)[er_head ring := copy],
              er_head := (er_head ring + 1) mod er_capacity ring,
              er_size := (if er_size ring < er_capacity ring then er_size ring + 1 else er_size ring)\<rparr>)"

definition oldest_index :: "ch_event_ring \<Rightarrow> nat" where
  "oldest_index ring = (er_head ring + er_capacity ring - er_size ring) mod er_capacity ring"

definition event_at :: "ch_event_ring \<Rightarrow> nat \<Rightarrow> ch_event" where
  "event_at ring offset = er_events ring ! ((oldest_index ring + offset) mod er_capacity ring)"


definition ch_event_ring_snapshot :: "ch_event_ring \<Rightarrow> ch_event list" where
  "ch_event_ring_snapshot ring =
     (if er_size ring = 0 then []
      else map (\<lambda>offset. ch_event_copy (event_at ring offset)) [0..<er_size ring])"

definition ch_event_ring_oldest_lamport :: "ch_event_ring \<Rightarrow> nat" where
  "ch_event_ring_oldest_lamport ring =
     (if 0 < er_size ring then ev_lamport (er_events ring ! oldest_index ring) else 0)"

definition ch_event_ring_length :: "ch_event_ring \<Rightarrow> nat" where
  "ch_event_ring_length ring = er_size ring"

definition ch_event_ring_total :: "ch_event_ring \<Rightarrow> nat" where
  "ch_event_ring_total ring = er_total ring"

section \<open>Query filters\<close>

fun type_patterns_match :: "ch_json_value list \<Rightarrow> string \<Rightarrow> bool" where
  "type_patterns_match [] t = False"
| "type_patterns_match (v # vs) t =
     (case ch_json_string_value (Some v) of
        None \<Rightarrow> False
      | Some p \<Rightarrow>
          if p \<noteq> [] \<and> last p = CHR ''*'' then has_prefix (butlast p) t \<or> type_patterns_match vs t
          else t = p \<or> type_patterns_match vs t)"

definition json_items :: "ch_json_value option \<Rightarrow> ch_json_value list" where
  "json_items value = (case value of Some (JArray items) \<Rightarrow> items | _ \<Rightarrow> [])"

definition event_type_matches :: "ch_json_value option \<Rightarrow> string \<Rightarrow> bool" where
  "event_type_matches types event_type =
     (ch_json_array_size types = 0 \<or> type_patterns_match (json_items types) event_type)"

definition event_connection_matches :: "ch_json_value option \<Rightarrow> string option \<Rightarrow> bool" where
  "event_connection_matches conn_ids data_json =
     (ch_json_array_size conn_ids = 0 \<or>
      (let document = (case data_json of None \<Rightarrow> ''{}'' | Some d \<Rightarrow> d);
           data = (case ch_json_parse (Some document) of Inl _ \<Rightarrow> None | Inr v \<Rightarrow> Some v)
       in case ch_json_string_value (ch_json_object_get data ''conn_id'') of
            None \<Rightarrow> False
          | Some conn_id \<Rightarrow>
              list_ex (\<lambda>v. ch_json_string_value (Some v) = Some conn_id) (json_items conn_ids)))"

text \<open>A cursor is valid when both members are non-negative exact integers.\<close>

definition cursor_fields :: "ch_json_value \<Rightarrow> (nat \<times> nat) option" where
  "cursor_fields cursor =
     (case (ch_json_int64_value (ch_json_object_get (Some cursor) ''shard_id''),
            ch_json_int64_value (ch_json_object_get (Some cursor) ''lamport'')) of
        (Some shard, Some lamport) \<Rightarrow>
          if shard < 0 \<or> lamport < 0 then None else Some (nat shard, nat lamport)
      | _ \<Rightarrow> None)"

fun event_cursor :: "ch_json_value list \<Rightarrow> nat \<Rightarrow> nat option" where
  "event_cursor [] shard_id = None"
| "event_cursor (c # cs) shard_id =
     (case cursor_fields c of
        None \<Rightarrow> event_cursor cs shard_id
      | Some (shard, lamport) \<Rightarrow> if shard = shard_id then Some lamport else event_cursor cs shard_id)"

text \<open>The oldest retained Lamport value of a shard, starting from \<^verbatim>\<open>UINT64_MAX\<close>.\<close>

definition shard_oldest :: "ch_event list \<Rightarrow> nat \<Rightarrow> nat" where
  "shard_oldest events shard =
     foldl (\<lambda>oldest e. if ev_shard_id e = shard \<and> ev_lamport e < oldest then ev_lamport e else oldest)
       uint64_max events"

definition cursor_complete :: "ch_event list \<Rightarrow> ch_json_value \<Rightarrow> bool" where
  "cursor_complete events cursor =
     (case cursor_fields cursor of
        None \<Rightarrow> False
      | Some (shard, lamport) \<Rightarrow>
          (let oldest = shard_oldest events shard in
           \<not> (oldest = uint64_max \<or> 0 < oldest \<and> lamport + 1 < oldest)))"

section \<open>The query\<close>

record event_request =
  rq_after :: "nat option"
  rq_limit :: nat
  rq_types :: "ch_json_value option"
  rq_conn_ids :: "ch_json_value option"
  rq_cursors :: "ch_json_value list"

definition not_array :: "ch_json_value option \<Rightarrow> bool" where
  "not_array v \<longleftrightarrow> v \<noteq> None \<and> ch_json_value_type v \<noteq> CH_JSON_ARRAY"

text \<open>The checks at the head of \<^verbatim>\<open>ch_event_ring_query_json\<close>, in their order.\<close>

definition parse_event_request :: "string option \<Rightarrow> event_request result" where
  "parse_event_request request_json =
     (let document = (case request_json of None \<Rightarrow> ''{}'' | Some d \<Rightarrow> if d = [] then ''{}'' else d) in
      bind_result (ch_json_parse (Some document)) (\<lambda>request.
        if ch_json_value_type (Some request) \<noteq> CH_JSON_OBJECT then Inl CH_ERROR_INVALID_ARGUMENT
        else
          let types = ch_json_object_get (Some request) ''types'';
              conn_ids = ch_json_object_get (Some request) ''conn_ids'';
              cursors = ch_json_object_get (Some request) ''since'';
              after_value = ch_json_object_get (Some request) ''after_sequence'';
              limit_value = ch_json_object_get (Some request) ''limit'';
              after = (case ch_json_int64_value after_value of
                  None \<Rightarrow> None | Some a \<Rightarrow> if 0 \<le> a then Some (nat a) else None);
              limit = (case limit_value of
                  None \<Rightarrow> Some 256
                | Some v \<Rightarrow>
                    (case ch_json_int64_value (Some v) of
                       None \<Rightarrow> None
                     | Some l \<Rightarrow> if l \<le> 0 \<or> 4096 < l then None else Some (nat l)))
          in if not_array types \<or> not_array conn_ids \<or> not_array cursors
             then Inl CH_ERROR_INVALID_ARGUMENT
             else if after_value \<noteq> None \<and> after = None then Inl CH_ERROR_INVALID_ARGUMENT
             else (case limit of
                 None \<Rightarrow> Inl CH_ERROR_INVALID_ARGUMENT
               | Some l \<Rightarrow> Inr \<lparr>rq_after = after, rq_limit = l, rq_types = types,
                   rq_conn_ids = conn_ids, rq_cursors = json_items cursors\<rparr>)))"

definition event_eligible :: "event_request \<Rightarrow> ch_event \<Rightarrow> bool" where
  "event_eligible rq e \<longleftrightarrow>
     (case rq_after rq of None \<Rightarrow> False | Some after \<Rightarrow> after < ev_sequence e) \<or>
     (case event_cursor (rq_cursors rq) (ev_shard_id e) of
        None \<Rightarrow> False | Some cursor \<Rightarrow> cursor < ev_lamport e)"

definition event_matches :: "event_request \<Rightarrow> ch_event \<Rightarrow> bool" where
  "event_matches rq e \<longleftrightarrow>
     event_type_matches (rq_types rq) (or_empty (ev_type e)) \<and>
     event_connection_matches (rq_conn_ids rq) (ev_data_json e)"

record event_reply =
  rp_events :: "ch_event list"
  rp_complete :: bool
  rp_next :: nat

text \<open>The emitting loop: the events written so far, \<^verbatim>\<open>complete\<close>, \<^verbatim>\<open>next_sequence\<close> and
  \<^verbatim>\<open>last_scanned_sequence\<close>.\<close>

fun replay_loop :: "event_request \<Rightarrow> bool \<Rightarrow> nat \<Rightarrow> ch_event list \<Rightarrow> nat \<Rightarrow> ch_event list \<Rightarrow> event_reply" where
  "replay_loop rq is_complete next_sequence out last_scanned [] =
     \<lparr>rp_events = out, rp_complete = is_complete, rp_next = next_sequence\<rparr>"
| "replay_loop rq is_complete next_sequence out last_scanned (e # es) =
     (let scanned = (if rq_after rq \<noteq> None then ev_sequence e else last_scanned) in
      if \<not> event_eligible rq e then replay_loop rq is_complete next_sequence out last_scanned es
      else if \<not> event_matches rq e then replay_loop rq is_complete next_sequence out scanned es
      else if length out = rq_limit rq then
        \<lparr>rp_events = out, rp_complete = False, rp_next = last_scanned\<rparr>
      else replay_loop rq is_complete next_sequence (out @ [e]) scanned es)"

text \<open>The reply from the snapshot and from the total that the query reads under its second lock.\<close>

definition event_replay :: "event_request \<Rightarrow> ch_event list \<Rightarrow> nat \<Rightarrow> event_reply" where
  "event_replay rq events next_sequence =
     (let gap = (case rq_after rq of
            None \<Rightarrow> False
          | Some after \<Rightarrow> events \<noteq> [] \<and> after + 1 < ev_sequence (hd events));
          is_complete = (\<not> gap \<and> list_all (cursor_complete events) (rq_cursors rq))
      in replay_loop rq is_complete next_sequence []
           (case rq_after rq of None \<Rightarrow> 0 | Some after \<Rightarrow> after) events)"

definition event_text :: "ch_event \<Rightarrow> string" where
  "event_text e =
     ''{'' @ json_key ''sequence'' @ dec_nat (ev_sequence e) @ '','' @
     json_key ''shard_id'' @ dec_nat (ev_shard_id e) @ '','' @
     json_key ''lamport'' @ dec_nat (ev_lamport e) @ '','' @
     json_key ''ts_ns'' @ dec_int (ev_timestamp_ns e) @ '','' @
     json_key ''type'' @ string_text (or_empty (ev_type e)) @ '','' @
     json_key ''data'' @ or_empty (ev_data_json e) @ ''}''"

fun events_text :: "bool \<Rightarrow> ch_event list \<Rightarrow> string" where
  "events_text first [] = []"
| "events_text first (e # es) = (if first then [] else '','') @ event_text e @ events_text False es"

definition reply_text :: "event_reply \<Rightarrow> string" where
  "reply_text r =
     ''{'' @ json_key ''events'' @ ''['' @ events_text True (rp_events r) @ ''],'' @
     json_key ''complete'' @ (if rp_complete r then ''true'' else ''false'') @ '','' @
     json_key ''next_sequence'' @ dec_nat (rp_next r) @ ''}''"

text \<open>The query reads the snapshot from one state of the ring and the total from a later one; without
  another thread in between the two are the same.\<close>

definition query_json_between :: "ch_event_ring \<Rightarrow> ch_event_ring \<Rightarrow> string option \<Rightarrow> string result" where
  "query_json_between ring later request_json =
     bind_result (parse_event_request request_json) (\<lambda>rq.
       Inr (reply_text (event_replay rq (ch_event_ring_snapshot ring) (ch_event_ring_total later))))"

definition ch_event_ring_query_json :: "ch_event_ring option \<Rightarrow> string option \<Rightarrow> string result" where
  "ch_event_ring_query_json ring request_json =
     (case ring of
        None \<Rightarrow> Inl CH_ERROR_INVALID_ARGUMENT
      | Some r \<Rightarrow> query_json_between r r request_json)"

section \<open>The ring as a bounded log\<close>

definition ring_inv :: "ch_event_ring \<Rightarrow> bool" where
  "ring_inv r \<longleftrightarrow> 0 < er_capacity r \<and> length (er_events r) = er_capacity r \<and>
     er_head r < er_capacity r \<and> er_size r \<le> er_capacity r"

definition ring_entries :: "ch_event_ring \<Rightarrow> ch_event list" where
  "ring_entries r = map (event_at r) [0..<er_size r]"

definition stamp :: "ch_event_ring \<Rightarrow> ch_event \<Rightarrow> ch_event" where
  "stamp r e = (ch_event_copy e)\<lparr>ev_sequence := (er_total r + 1) mod 2 ^ 64\<rparr>"

lemma length_ring_entries [simp]: "length (ring_entries r) = er_size r"
  by (simp add: ring_entries_def)

lemma event_at_index:
  assumes "ring_inv r"
  shows "event_at r k = er_events r ! ((er_head r + (er_capacity r - er_size r) + k) mod er_capacity r)"
proof -
  have "er_head r + er_capacity r - er_size r = er_head r + (er_capacity r - er_size r)"
    using assms by (simp add: ring_inv_def)
  then show ?thesis
    by (simp add: event_at_def oldest_index_def mod_add_left_eq)
qed

lemma ring_inv_append: "ring_inv r \<Longrightarrow> ring_inv (ch_event_ring_append r e)"
  by (auto simp: ring_inv_def ch_event_ring_append_def Let_def)

lemma capacity_append [simp]: "er_capacity (ch_event_ring_append r e) = er_capacity r"
  by (simp add: ch_event_ring_append_def Let_def)

lemma total_append [simp]: "er_total (ch_event_ring_append r e) = (er_total r + 1) mod 2 ^ 64"
  by (simp add: ch_event_ring_append_def Let_def)

text \<open>Where the slots of the ring after an append lie in the ring before it.\<close>

lemma mod_head_offset:
  assumes "h < c" "0 < d" "d \<le> c"
  shows "(h + (c - d)) mod c \<noteq> h \<or> d = (c::nat)"
proof (cases "h + (c - d) < c")
  case True
  then show ?thesis using assms by auto
next
  case False
  then have "(h + (c - d)) mod c = h + (c - d) - c"
    using assms by (subst mod_if) auto
  with False assms show ?thesis by auto
qed

lemma event_at_append:
  assumes inv: "ring_inv r" and k: "k < er_size (ch_event_ring_append r e)"
  defines "full \<equiv> er_size r = er_capacity r"
  shows "event_at (ch_event_ring_append r e) k =
    (if k + 1 = er_size (ch_event_ring_append r e) then stamp r e
     else event_at r (if full then k + 1 else k))"
proof -
  let ?c = "er_capacity r" and ?h = "er_head r" and ?n = "er_size r"
  define n' where "n' = (if full then ?n else ?n + 1)"
  have size: "er_size (ch_event_ring_append r e) = n'"
    using inv by (auto simp: ch_event_ring_append_def Let_def n'_def full_def ring_inv_def)
  have events: "er_events (ch_event_ring_append r e) = (er_events r)[?h := stamp r e]"
    and head: "er_head (ch_event_ring_append r e) = (?h + 1) mod ?c"
    by (simp_all add: ch_event_ring_append_def Let_def stamp_def)
  have b: "0 < ?c" "?h < ?c" "?n \<le> ?c" "length (er_events r) = ?c" "n' \<le> ?c" "k < n'"
    using inv k size by (auto simp: ring_inv_def n'_def full_def)
  have "((?h + 1) mod ?c + (?c - n') + k) mod ?c = (?h + 1 + (?c - n') + k) mod ?c"
    by (metis add.assoc mod_add_left_eq)
  also have "?h + 1 + (?c - n') + k = ?h + (?c - (n' - (k + 1)))"
    using b by simp
  finally have idx: "((?h + 1) mod ?c + (?c - n') + k) mod ?c = (?h + (?c - (n' - (k + 1)))) mod ?c" .
  have at: "event_at (ch_event_ring_append r e) k =
      (er_events r)[?h := stamp r e] ! ((?h + (?c - (n' - (k + 1)))) mod ?c)"
    using event_at_index [OF ring_inv_append [OF inv], of e k]
    unfolding size events head capacity_append idx .
  show ?thesis
  proof (cases "k + 1 = n'")
    case True
    then show ?thesis
      using at b by (simp add: size)
  next
    case False
    define d where "d = n' - (k + 1)"
    have d: "0 < d" "d < ?c" "(?h + (?c - d)) mod ?c < ?c"
      using False b by (auto simp: d_def)
    then have "(?h + (?c - d)) mod ?c \<noteq> ?h"
      using mod_head_offset [OF b(2), of d] by auto
    then have "event_at (ch_event_ring_append r e) k = er_events r ! ((?h + (?c - d)) mod ?c)"
      using at by (simp add: d_def)
    moreover have "?h + (?c - ?n) + (if full then k + 1 else k) = ?h + (?c - d)"
      using False b by (auto simp: d_def n'_def full_def)
    then have "event_at r (if full then k + 1 else k) = er_events r ! ((?h + (?c - d)) mod ?c)"
      by (simp only: event_at_index [OF inv])
    ultimately show ?thesis
      using False by (simp add: size)
  qed
qed

lemma ring_entries_append:
  assumes "ring_inv r"
  shows "ring_entries (ch_event_ring_append r e) =
    (if er_size r < er_capacity r then ring_entries r else tl (ring_entries r)) @ [stamp r e]"
    (is "?new = ?old @ _")
proof (rule nth_equalityI)
  have size: "er_size (ch_event_ring_append r e) = (if er_size r < er_capacity r then er_size r + 1 else er_size r)"
    by (simp add: ch_event_ring_append_def Let_def)
  show len: "length ?new = length (?old @ [stamp r e])"
    using assms by (auto simp: size ring_inv_def)
  fix k
  assume "k < length ?new"
  then have k: "k < er_size (ch_event_ring_append r e)" by simp
  have "?new ! k = event_at (ch_event_ring_append r e) k"
    using k by (simp add: ring_entries_def)
  also note event_at_append [OF assms k]
  finally show "?new ! k = (?old @ [stamp r e]) ! k"
    using assms k by (auto simp: size nth_append nth_tl ring_entries_def ring_inv_def split: if_splits)
qed

interpretation ring_log: bounded_log ring_inv er_capacity ring_entries stamp
  "\<lambda>e r. ch_event_ring_append r e"
  by unfold_locales (simp_all add: ring_inv_append ring_entries_append, simp_all add: ring_inv_def)

section \<open>What the ring holds after a history of appends\<close>

text \<open>The events as the ring stores them: NULL texts replaced, numbered from 1 in the order of arrival.\<close>

definition stamped :: "ch_event list \<Rightarrow> ch_event list" where
  "stamped es = map (\<lambda>(i, e). (ch_event_copy e)\<lparr>ev_sequence := i\<rparr>) (enumerate 1 es)"

definition ring_history :: "ch_event list \<Rightarrow> ch_event_ring \<Rightarrow> ch_event_ring" where
  "ring_history es r = fold (\<lambda>e r. ch_event_ring_append r e) es r"

lemma ch_event_copy_idem [simp]: "ch_event_copy (ch_event_copy e) = ch_event_copy e"
  by (simp add: ch_event_copy_def)

lemma copy_stamped: "e \<in> set (stamped es) \<Longrightarrow> ch_event_copy e = e"
  by (auto simp: stamped_def ch_event_copy_def)

lemma total_history: "er_total r + length es < 2 ^ 64 \<Longrightarrow> er_total (ring_history es r) = er_total r + length es"
  unfolding ring_history_def by (induction es arbitrary: r) auto

lemma marks_enumerate:
  "er_total r + length es < 2 ^ 64 \<Longrightarrow> ring_log.marks r es =
   map (\<lambda>(i, e). (ch_event_copy e)\<lparr>ev_sequence := i\<rparr>) (enumerate (er_total r + 1) es)"
  by (induction es arbitrary: r) (auto simp: stamp_def)

lemma ring_created:
  assumes "ch_event_ring_create c = Inr r"
  shows "ring_inv r" "er_capacity r = c" "er_total r = 0" "ring_entries r = []"
  using assms by (auto simp: ch_event_ring_create_def ring_inv_def ring_entries_def split: if_splits)

lemma ring_entries_history:
  assumes "ch_event_ring_create c = Inr r" "length es < 2 ^ 64"
  shows "ring_entries (ring_history es r) = lastn c (stamped es)"
  using ring_log.entries_adds [OF ring_created(1) [OF assms(1)], of es] marks_enumerate [of r es]
    ring_created [OF assms(1)] assms(2)
  by (simp add: ring_history_def stamped_def)

lemma snapshot_entries: "ch_event_ring_snapshot r = map ch_event_copy (ring_entries r)"
  by (simp add: ch_event_ring_snapshot_def ring_entries_def)

lemma snapshot_history:
  assumes "ch_event_ring_create c = Inr r" "length es < 2 ^ 64"
  shows "ch_event_ring_snapshot (ring_history es r) = lastn c (stamped es)"
proof -
  have "ch_event_copy e = e" if "e \<in> set (lastn c (stamped es))" for e
    by (rule copy_stamped [OF subsetD [OF set_lastn_subset that]])
  then show ?thesis
    unfolding snapshot_entries ring_entries_history [OF assms] by (rule map_idI)
qed

lemma length_stamped [simp]: "length (stamped es) = length es"
  by (simp add: stamped_def)

lemma stamped_nth: "i < length es \<Longrightarrow> stamped es ! i = (ch_event_copy (es ! i))\<lparr>ev_sequence := i + 1\<rparr>"
  by (simp add: stamped_def nth_enumerate_eq)

lemma sequence_stamped: "map ev_sequence (stamped es) = [1..<length es + 1]"
  by (rule nth_equalityI) (simp_all add: stamped_nth nth_upt del: upt_Suc)


lemma lastn_map: "map f (lastn n xs) = lastn n (map f xs)"
  by (simp add: lastn_def drop_map)

lemma sequence_lastn:
  "sorted_wrt (<) (map ev_sequence (lastn c (stamped es)))"
  "\<forall>e \<in> set (lastn c (stamped es)). 0 < ev_sequence e \<and> ev_sequence e \<le> length es"
proof -
  show "sorted_wrt (<) (map ev_sequence (lastn c (stamped es)))"
    unfolding lastn_map sequence_stamped unfolding lastn_def
    by (simp add: sorted_wrt_drop del: upt_Suc)
  have "0 < ev_sequence e \<and> ev_sequence e \<le> length es" if "e \<in> set (lastn c (stamped es))" for e
  proof -
    have "e \<in> set (stamped es)"
      by (rule subsetD [OF set_lastn_subset that])
    then have "ev_sequence e \<in> set (map ev_sequence (stamped es))"
      by simp
    then show ?thesis
      unfolding sequence_stamped by (auto simp del: upt_Suc)
  qed
  then show "\<forall>e \<in> set (lastn c (stamped es)). 0 < ev_sequence e \<and> ev_sequence e \<le> length es"
    by blast
qed

section \<open>Replay\<close>



section \<open>The query loop\<close>

text \<open>What a page promises: exactly the matching events between the cursor and the next cursor, at most
  the limit, and when the page stops early it is full and the cursor has moved.\<close>

definition page_ok :: "event_request \<Rightarrow> nat \<Rightarrow> nat \<Rightarrow> event_reply \<Rightarrow> ch_event list \<Rightarrow> ch_event list \<Rightarrow> nat \<Rightarrow> bool" where
  "page_ok rq a nxt r out es lst \<longleftrightarrow>
     rp_events r = out @ filter (\<lambda>e. a < ev_sequence e \<and> ev_sequence e \<le> rp_next r \<and> event_matches rq e) es \<and>
     lst \<le> rp_next r \<and> rp_next r \<le> nxt \<and> length (rp_events r) \<le> rq_limit rq \<and>
     (rp_next r < nxt \<longrightarrow> length (rp_events r) = rq_limit rq \<and> a < rp_next r)"

lemma page_ok_skip:
  "page_ok rq a nxt r out es lst' \<Longrightarrow> lst \<le> lst' \<Longrightarrow> \<not> (a < ev_sequence e \<and> event_matches rq e) \<Longrightarrow>
   page_ok rq a nxt r out (e # es) lst"
  unfolding page_ok_def by (elim conjE, intro conjI) auto

lemma page_ok_emit:
  "page_ok rq a nxt r (out @ [e]) es (ev_sequence e) \<Longrightarrow> lst \<le> ev_sequence e \<Longrightarrow> a < ev_sequence e \<Longrightarrow>
   event_matches rq e \<Longrightarrow> page_ok rq a nxt r out (e # es) lst"
  unfolding page_ok_def by (elim conjE, intro conjI) auto

lemma replay_loop_page:
  assumes after: "rq_after rq = Some a" "rq_cursors rq = []" and limit: "0 < rq_limit rq"
    and "sorted_wrt (<) (map ev_sequence es)"
    and "\<forall>e \<in> set es. ev_sequence e \<le> nxt \<and> (a < ev_sequence e \<longrightarrow> lst < ev_sequence e)"
    and "a \<le> lst" "lst \<le> nxt" "length out \<le> rq_limit rq"
    and "length out = rq_limit rq \<longrightarrow> a < lst"
  shows "page_ok rq a nxt (replay_loop rq c nxt out lst es) out es lst"
  using assms(4-)
proof (induction es arbitrary: out lst)
  case Nil
  then show ?case by (simp add: page_ok_def)
next
  case (Cons e es)
  have el: "event_eligible rq e \<longleftrightarrow> a < ev_sequence e"
    by (simp add: event_eligible_def after)
  have later: "\<forall>x \<in> set es. ev_sequence e < ev_sequence x" and sorted: "sorted_wrt (<) (map ev_sequence es)"
    and e: "ev_sequence e \<le> nxt" "a < ev_sequence e \<Longrightarrow> lst < ev_sequence e"
    and es: "\<forall>x \<in> set es. ev_sequence x \<le> nxt \<and> (a < ev_sequence x \<longrightarrow> lst < ev_sequence x)"
    using Cons.prems(1,2) by auto
  consider "\<not> a < ev_sequence e" | "a < ev_sequence e" "\<not> event_matches rq e"
    | "a < ev_sequence e" "event_matches rq e" "length out = rq_limit rq"
    | "a < ev_sequence e" "event_matches rq e" "length out < rq_limit rq"
    using Cons.prems(5) by linarith
  then show ?case
  proof cases
    case 1
    have "page_ok rq a nxt (replay_loop rq c nxt out lst es) out es lst"
      by (rule Cons.IH) (use sorted es Cons.prems in auto)
    then have "page_ok rq a nxt (replay_loop rq c nxt out lst es) out (e # es) lst"
      by (rule page_ok_skip) (use 1 in auto)
    with 1 show ?thesis
      by (simp add: Let_def el)
  next
    case 2
    have "page_ok rq a nxt (replay_loop rq c nxt out (ev_sequence e) es) out es (ev_sequence e)"
      by (rule Cons.IH) (use sorted es later e 2 Cons.prems in auto)
    then have "page_ok rq a nxt (replay_loop rq c nxt out (ev_sequence e) es) out (e # es) lst"
      by (rule page_ok_skip) (use 2 e in auto)
    with 2 show ?thesis
      by (simp add: Let_def el after)
  next
    case 3
    have "filter (\<lambda>x. a < ev_sequence x \<and> ev_sequence x \<le> lst \<and> event_matches rq x) es = []"
      using es by (auto simp: filter_empty_conv)
    then show ?thesis
      using 3 Cons.prems e by (simp add: Let_def el page_ok_def)
  next
    case 4
    have "page_ok rq a nxt (replay_loop rq c nxt (out @ [e]) (ev_sequence e) es) (out @ [e]) es (ev_sequence e)"
      by (rule Cons.IH) (use sorted es later e 4 Cons.prems in auto)
    then have "page_ok rq a nxt (replay_loop rq c nxt (out @ [e]) (ev_sequence e) es) out (e # es) lst"
      by (rule page_ok_emit) (use 4 e in auto)
    with 4 show ?thesis
      by (simp add: Let_def el after)
  qed
qed

lemma event_replay_page:
  assumes "rq_after rq = Some a" "rq_cursors rq = []" "0 < rq_limit rq" "a \<le> nxt"
    and "sorted_wrt (<) (map ev_sequence es)" "\<forall>e \<in> set es. ev_sequence e \<le> nxt"
  shows "page_ok rq a nxt (event_replay rq es nxt) [] es a"
  unfolding event_replay_def Let_def assms(1) option.case
  using assms by (intro replay_loop_page) auto

section \<open>Properties\<close>

text \<open>C6: A ring of capacity \<open>c\<close> refines a log: after any history of fewer than \<open>2 ^ 64\<close> appends, the
  snapshot is the last \<open>c\<close> events in order of arrival, numbered from 1 without gaps, and the reported
  length and total are those of the history.\<close>

theorem ring_keeps_last:
  assumes "ch_event_ring_create c = Inr r" "length es < 2 ^ 64"
  shows "ch_event_ring_snapshot (ring_history es r) = lastn c (stamped es) \<and>
    ch_event_ring_length (ring_history es r) = min c (length es) \<and>
    ch_event_ring_total (ring_history es r) = length es"
proof (intro conjI)
  show "ch_event_ring_snapshot (ring_history es r) = lastn c (stamped es)"
    by (rule snapshot_history [OF assms])
  show "ch_event_ring_length (ring_history es r) = min c (length es)"
    using ring_entries_history [OF assms] length_ring_entries [of "ring_history es r"]
    by (simp add: ch_event_ring_length_def)
  show "ch_event_ring_total (ring_history es r) = length es"
    using total_history [of r es] ring_created(3) [OF assms(1)] assms(2)
    by (simp add: ch_event_ring_total_def)
qed

definition sample_events :: "ch_event list" where
  "sample_events = map (\<lambda>l. blank_event\<lparr>ev_lamport := l, ev_type := Some ''flow.open''\<rparr>) [3, 5, 9]"

definition sample_ring :: ch_event_ring where
  "sample_ring = \<lparr>er_events = replicate 2 blank_event, er_head = 0, er_size = 0, er_capacity = 2, er_total = 0\<rparr>"

lemma sample_ring_created: "ch_event_ring_create 2 = Inr sample_ring"
  by (simp add: ch_event_ring_create_def sample_ring_def size_max_def)

lemma sample_events_ok:
  "length sample_events < 2 ^ 64" "sorted_wrt (<) (map ev_lamport sample_events)"
  "\<forall>e \<in> set sample_events. ev_lamport e \<le> uint64_max"
  by (simp_all add: sample_events_def uint64_max_def)

theorem ring_keeps_last_witness:
  "map ev_lamport (ch_event_ring_snapshot (ring_history sample_events sample_ring)) = [5, 9]"
  using ring_keeps_last [OF sample_ring_created sample_events_ok(1)]
  by (simp add: sample_events_def lastn_def stamped_def ch_event_copy_def)



text \<open>C8: Paging by sequence number neither loses nor repeats events.  A query from cursor \<open>a\<close>, without
  per-shard cursors, answers exactly the retained matching events between \<open>a\<close> and the returned cursor;
  it holds at most the limit, and a page that stops before the newest event is full and moves the
  cursor, so that following the cursors visits every matching event once.\<close>

theorem query_pages:
  assumes "ch_event_ring_create c = Inr r0" "length es < 2 ^ 64"
    and "rq_after rq = Some a" "rq_cursors rq = []" "0 < rq_limit rq" "a \<le> length es"
  defines "r \<equiv> ring_history es r0"
  defines "reply \<equiv> event_replay rq (ch_event_ring_snapshot r) (ch_event_ring_total r)"
  shows "rp_events reply =
      filter (\<lambda>e. a < ev_sequence e \<and> ev_sequence e \<le> rp_next reply \<and> event_matches rq e)
        (ch_event_ring_snapshot r) \<and>
    a \<le> rp_next reply \<and> rp_next reply \<le> ch_event_ring_total r \<and>
    length (rp_events reply) \<le> rq_limit rq \<and>
    (rp_next reply < ch_event_ring_total r \<longrightarrow> length (rp_events reply) = rq_limit rq \<and> a < rp_next reply)"
proof -
  have total: "ch_event_ring_total r = length es"
    using total_history [of r0 es] ring_created(3) [OF assms(1)] assms(2)
    by (simp add: ch_event_ring_total_def r_def)
  have snap: "ch_event_ring_snapshot r = lastn c (stamped es)"
    unfolding r_def by (rule snapshot_history [OF assms(1,2)])
  have "page_ok rq a (length es) reply [] (lastn c (stamped es)) a"
    unfolding reply_def total snap using assms sequence_lastn [of c es]
    by (intro event_replay_page) auto
  then show ?thesis
    unfolding snap total page_ok_def append_Nil .
qed

definition sample_request :: event_request where
  "sample_request = \<lparr>rq_after = Some 1, rq_limit = 4, rq_types = None, rq_conn_ids = None, rq_cursors = []\<rparr>"

lemma sample_request_ok:
  "rq_after sample_request = Some 1" "rq_cursors sample_request = []" "0 < rq_limit sample_request"
  "1 \<le> length sample_events" "2 < rq_limit sample_request" "length sample_events + 1 < 2 ^ 64"
  by (simp_all add: sample_request_def sample_events_def)

theorem query_pages_witness:
  "length (rp_events (event_replay sample_request
     (ch_event_ring_snapshot (ring_history sample_events sample_ring))
     (ch_event_ring_total (ring_history sample_events sample_ring)))) \<le> rq_limit sample_request"
  using query_pages [OF sample_ring_created sample_events_ok(1) sample_request_ok(1-4)] by blast

text \<open>C9: The snapshot and the total are read under two acquisitions of the mutex.  When another thread
  appends an event in between, a query with room for everything returns a cursor that already covers
  the new event, and the event is not in the page: a client that resumes from the cursor never sees it.\<close>

theorem query_race_loses_event:
  fixes e :: ch_event
  assumes "ch_event_ring_create c = Inr r0" "length es + 1 < 2 ^ 64"
    and "rq_after rq = Some a" "rq_cursors rq = []" "c < rq_limit rq" "a \<le> length es"
  defines "r \<equiv> ring_history es r0"
  defines "later \<equiv> ch_event_ring_append r e"
  defines "reply \<equiv> event_replay rq (ch_event_ring_snapshot r) (ch_event_ring_total later)"
  shows "ev_sequence (last (ch_event_ring_snapshot later)) = rp_next reply \<and>
    (\<forall>x \<in> set (rp_events reply). ev_sequence x < rp_next reply)"
proof -
  have total: "ch_event_ring_total later = length es + 1" "er_total r = length es"
    using total_history [of r0 es] ring_created(3) [OF assms(1)] assms(2)
    by (simp_all add: ch_event_ring_total_def later_def r_def)
  have snap: "ch_event_ring_snapshot r = lastn c (stamped es)"
    unfolding r_def using assms(1,2) by (intro snapshot_history) auto
  have "page_ok rq a (length es + 1) reply [] (lastn c (stamped es)) a"
    unfolding reply_def total snap using assms sequence_lastn [of c es]
    by (intro event_replay_page) force+
  then have page: "rp_events reply =
      filter (\<lambda>x. a < ev_sequence x \<and> ev_sequence x \<le> rp_next reply \<and> event_matches rq x) (lastn c (stamped es))"
    "rp_next reply \<le> length es + 1" "rp_next reply < length es + 1 \<Longrightarrow> length (rp_events reply) = rq_limit rq"
    unfolding page_ok_def append_Nil by blast+
  have "length (rp_events reply) \<le> c"
    unfolding page(1) by (rule order.trans [OF length_filter_le]) simp
  with page assms(5) have nxt: "rp_next reply = length es + 1"
    by force
  have "\<forall>x \<in> set (rp_events reply). ev_sequence x < rp_next reply"
    unfolding nxt using sequence_lastn(2) [of c es] by (auto simp: page(1) less_Suc_eq_le)
  moreover have "ring_inv r"
    unfolding r_def ring_history_def by (rule ring_log.invar_adds [OF ring_created(1) [OF assms(1)]])
  then have "last (ch_event_ring_snapshot later) = ch_event_copy (stamp r e)"
    by (simp add: later_def snapshot_entries ring_entries_append)
  then have "ev_sequence (last (ch_event_ring_snapshot later)) = rp_next reply"
    using nxt total assms(2) by (simp add: stamp_def ch_event_copy_def)
  ultimately show ?thesis by blast
qed

theorem query_race_loses_event_witness:
  "ev_sequence (last (ch_event_ring_snapshot
      (ch_event_ring_append (ring_history sample_events sample_ring) blank_event))) =
    rp_next (event_replay sample_request
      (ch_event_ring_snapshot (ring_history sample_events sample_ring))
      (ch_event_ring_total (ch_event_ring_append (ring_history sample_events sample_ring) blank_event)))"
  using query_race_loses_event [OF sample_ring_created sample_request_ok(6,1,2,5,4)] by blast

end
