(* ===== verification/Inet.thy ===== *)
theory Inet
  imports CPrelude "HOL-Library.Word"
begin

text \<open>
  Octets, address families and the two library functions the sources use on textual addresses:
  \<^verbatim>\<open>inet_pton\<close> and \<^verbatim>\<open>inet_ntop\<close> for IPv4 and IPv6.  Addresses are octet lists in network order.
\<close>

type_synonym byte = "8 word"

datatype family = AF_INET | AF_INET6

lemma byte_less [simp]: "unat (b :: byte) < 256"
  using unsigned_less [of b, where 'a = nat] by simp

lemma byte_le [simp]: "unat (b :: byte) \<le> 255"
  using byte_less [of b] by linarith

lemma unat_byte_of_nat [simp]: "n < 256 \<Longrightarrow> unat (word_of_nat n :: byte) = n"
  by (simp add: unat_of_nat take_bit_nat_eq_self)

section \<open>Splitting and joining\<close>

fun split_on :: "char \<Rightarrow> string \<Rightarrow> string list" where
  "split_on c [] = [[]]"
| "split_on c (x # xs) =
     (if x = c then [] # split_on c xs
      else (case split_on c xs of [] \<Rightarrow> [[x]] | y # ys \<Rightarrow> (x # y) # ys))"

fun join_with :: "char \<Rightarrow> string list \<Rightarrow> string" where
  "join_with c [] = []"
| "join_with c [x] = x"
| "join_with c (x # y # ys) = x @ c # join_with c (y # ys)"

lemma split_on_nonempty [simp]: "split_on c s \<noteq> []"
  by (induction s) (auto split: list.splits)

lemma split_on_free: "c \<notin> set s \<Longrightarrow> split_on c s = [s]"
  by (induction s) auto

lemma split_on_append: "c \<notin> set a \<Longrightarrow> split_on c (a @ c # b) = a # split_on c b"
  by (induction a) auto

lemma split_join: "xs \<noteq> [] \<Longrightarrow> \<forall>x \<in> set xs. c \<notin> set x \<Longrightarrow> split_on c (join_with c xs) = xs"
  by (induction c xs rule: join_with.induct) (auto simp: split_on_free split_on_append)

lemma join_split: "join_with c (split_on c s) = s"
proof (induction s)
  case (Cons x xs)
  then show ?case
    by (cases "split_on c xs" rule: list.exhaust [of _ thesis for thesis]; cases "tl (split_on c xs)") auto
qed simp

lemma set_join_with: "set (join_with c xs) \<subseteq> insert c (\<Union>x \<in> set xs. set x)"
  by (induction c xs rule: join_with.induct) auto

lemma length_join_with: "length (join_with c xs) = sum_list (map length xs) + (length xs - 1)"
  by (induction c xs rule: join_with.induct) auto

lemma length_join_bound: "\<forall>x \<in> set xs. length x \<le> k \<Longrightarrow> length (join_with c xs) \<le> length xs * k + (length xs - 1)"
proof -
  have "sum_list (map length xs) \<le> length xs * k" if "\<forall>x \<in> set xs. length x \<le> k"
    using that by (induction xs) auto
  then show "\<forall>x \<in> set xs. length x \<le> k \<Longrightarrow> ?thesis"
    by (simp add: length_join_with)
qed

section \<open>IPv4\<close>

definition octet :: "string \<Rightarrow> nat option" where
  "octet s =
     (if s \<noteq> [] \<and> list_all isdigit s \<and> (hd s = CHR ''0'' \<longrightarrow> length s = 1) \<and> digits_value s \<le> 255
      then Some (digits_value s) else None)"

definition inet_pton4 :: "string \<Rightarrow> byte list option" where
  "inet_pton4 s =
     (case those (map octet (split_on (CHR ''.'') s)) of
        Some ns \<Rightarrow> if length ns = 4 then Some (map word_of_nat ns) else None
      | None \<Rightarrow> None)"

definition inet_ntop4 :: "byte list \<Rightarrow> string" where
  "inet_ntop4 a = join_with (CHR ''.'') (map (\<lambda>b. dec_nat (unat b)) a)"

lemma dec_nat_length: "n < 10 ^ Suc k \<Longrightarrow> length (dec_nat n) \<le> Suc k"
proof (induction k arbitrary: n)
  case 0
  then show ?case
    by (subst dec_nat.simps) simp
next
  case (Suc k)
  then have "n div 10 < 10 ^ Suc k"
    by (simp add: less_mult_imp_div_less mult.commute)
  then show ?case
    using Suc.IH by (subst dec_nat.simps) auto
qed

lemma octet_dec_nat [simp]: "n \<le> 255 \<Longrightarrow> octet (dec_nat n) = Some n"
  using dec_nat_digits [of n] dec_nat_hd_zero [of n]
  by (auto simp: octet_def list_all_iff digit_char_def dec_nat.simps [of 0])

lemma those_map_Some: "(\<And>x. x \<in> set xs \<Longrightarrow> f x = Some (g x)) \<Longrightarrow> those (map f xs) = Some (map g xs)"
  by (induction xs) auto

lemma those_length: "those xs = Some ys \<Longrightarrow> length ys = length xs"
  by (induction xs arbitrary: ys) (auto split: option.splits)

lemma dot_not_in_dec_nat [simp]: "CHR ''.'' \<notin> set (dec_nat n)"
  using dec_nat_digits [of n] by (auto simp: isdigit_def)

lemma inet_pton_ntop4:
  assumes "length a = 4"
  shows "inet_pton4 (inet_ntop4 a) = Some a"
proof -
  have "map (\<lambda>b. dec_nat (unat b)) a \<noteq> []"
    using assms by auto
  then have split: "split_on (CHR ''.'') (inet_ntop4 a) = map (\<lambda>b. dec_nat (unat b)) a"
    unfolding inet_ntop4_def by (rule split_join) auto
  have "those (map octet (map (\<lambda>b. dec_nat (unat b)) a)) = Some (map unat a)"
    unfolding map_map by (rule those_map_Some) simp
  then show ?thesis
    using assms by (simp add: inet_pton4_def split o_def)
qed

lemma inet_pton4_length: "inet_pton4 s = Some a \<Longrightarrow> length a = 4"
  by (auto simp: inet_pton4_def split: option.splits if_splits)

section \<open>IPv6\<close>

definition hex_value :: "char \<Rightarrow> nat option" where
  "hex_value c =
     (let n = code c in
      if 48 \<le> n \<and> n \<le> 57 then Some (n - 48)
      else if 97 \<le> n \<and> n \<le> 102 then Some (n - 87)
      else if 65 \<le> n \<and> n \<le> 70 then Some (n - 55)
      else None)"

text \<open>A group as two octets.\<close>

definition group_octets :: "nat \<Rightarrow> byte list" where
  "group_octets v = [word_of_nat (v div 256), word_of_nat v]"

text \<open>The end of the scan: the last group, and the zeros that stand for a double colon.\<close>

definition pton6_finish :: "byte list \<Rightarrow> nat option \<Rightarrow> nat \<Rightarrow> nat \<Rightarrow> byte list option" where
  "pton6_finish tp colonp seen val =
     (if 0 < seen \<and> 14 < length tp then None
      else
        let tp = (if 0 < seen then tp @ group_octets val else tp)
        in case colonp of
             None \<Rightarrow> if length tp = 16 then Some tp else None
           | Some c \<Rightarrow>
               if length tp = 16 then None
               else Some (take c tp @ replicate (16 - length tp) 0 @ drop c tp))"

text \<open>The scan: octets written, position of the double colon, digits and value of the current group, and
  where the current group starts.\<close>

fun pton6_loop ::
  "byte list \<Rightarrow> nat option \<Rightarrow> nat \<Rightarrow> nat \<Rightarrow> string \<Rightarrow> string \<Rightarrow> byte list option" where
  "pton6_loop tp colonp seen val curtok [] = pton6_finish tp colonp seen val"
| "pton6_loop tp colonp seen val curtok (ch # src) =
     (case hex_value ch of
        Some d \<Rightarrow> if seen = 4 then None else pton6_loop tp colonp (seen + 1) (val * 16 + d) curtok src
      | None \<Rightarrow>
          if ch = CHR '':'' then
            (if seen = 0 then
               (if colonp \<noteq> None then None else pton6_loop tp (Some (length tp)) 0 val src src)
             else if src = [] \<or> 14 < length tp then None
             else pton6_loop (tp @ group_octets val) colonp 0 0 src src)
          else if ch = CHR ''.'' \<and> length tp \<le> 12 then
            (case inet_pton4 curtok of
               None \<Rightarrow> None
             | Some quad \<Rightarrow> pton6_finish (tp @ quad) colonp 0 0)
          else None)"

definition inet_pton6 :: "string \<Rightarrow> byte list option" where
  "inet_pton6 src =
     (case src of
        [] \<Rightarrow> None
      | ch # rest \<Rightarrow>
          if ch = CHR '':'' then
            (if rest \<noteq> [] \<and> hd rest = CHR '':'' then pton6_loop [] None 0 0 rest rest else None)
          else pton6_loop [] None 0 0 src src)"

definition inet_pton :: "family \<Rightarrow> string \<Rightarrow> byte list option" where
  "inet_pton f s = (case f of AF_INET \<Rightarrow> inet_pton4 s | AF_INET6 \<Rightarrow> inet_pton6 s)"

lemma pton6_finish_length:
  "pton6_finish tp colonp seen val = Some a \<Longrightarrow> length tp \<le> 16 \<Longrightarrow> length a = 16"
  by (auto simp: pton6_finish_def Let_def group_octets_def min_def split: option.splits if_splits)

lemma pton6_loop_length:
  "pton6_loop tp colonp seen val curtok src = Some a \<Longrightarrow> length tp \<le> 16 \<Longrightarrow> length a = 16"
  by (induction tp colonp seen val curtok src rule: pton6_loop.induct)
    (auto simp: group_octets_def pton6_finish_length dest: inet_pton4_length
      split: option.splits if_splits intro: pton6_finish_length)

lemma inet_pton6_length: "inet_pton6 s = Some a \<Longrightarrow> length a = 16"
  by (auto simp: inet_pton6_def split: list.splits if_splits simp del: pton6_loop.simps
      intro: pton6_loop_length)

lemma inet_pton_length: "inet_pton f s = Some a \<Longrightarrow> length a = (case f of AF_INET \<Rightarrow> 4 | AF_INET6 \<Rightarrow> 16)"
  by (auto simp: inet_pton_def inet_pton4_length inet_pton6_length split: family.splits)

section \<open>Printing IPv6\<close>

definition nibble_char :: "nat \<Rightarrow> char" where
  "nibble_char d = char_of (if d < 10 then 48 + d else 87 + d)"

fun hex_nat :: "nat \<Rightarrow> string" where
  "hex_nat n = (if n < 16 then [nibble_char n] else hex_nat (n div 16) @ [nibble_char (n mod 16)])"

declare hex_nat.simps [simp del]

fun groups :: "byte list \<Rightarrow> nat list" where
  "groups (a # b # r) = (unat a * 256 + unat b) # groups r"
| "groups _ = []"

text \<open>The longest run of zero groups, the first of several.\<close>

definition longer_run :: "(nat \<times> nat) option \<Rightarrow> (nat \<times> nat) option \<Rightarrow> (nat \<times> nat) option" where
  "longer_run cur best =
     (case cur of
        None \<Rightarrow> best
      | Some (b, l) \<Rightarrow> (case best of None \<Rightarrow> cur | Some (b', l') \<Rightarrow> if l' < l then cur else best))"

fun zero_run :: "nat \<Rightarrow> (nat \<times> nat) option \<Rightarrow> (nat \<times> nat) option \<Rightarrow> nat list \<Rightarrow> (nat \<times> nat) option" where
  "zero_run i cur best [] = longer_run cur best"
| "zero_run i cur best (w # ws) =
     (if w = 0
      then zero_run (i + 1) (Some (case cur of None \<Rightarrow> (i, 1) | Some (b, l) \<Rightarrow> (b, l + 1))) best ws
      else zero_run (i + 1) None (longer_run cur best) ws)"

definition best_run :: "nat list \<Rightarrow> (nat \<times> nat) option" where
  "best_run ws =
     (case zero_run 0 None None ws of
        Some (b, l) \<Rightarrow> if l < 2 then None else Some (b, l)
      | None \<Rightarrow> None)"

definition inet_ntop6 :: "byte list \<Rightarrow> string" where
  "inet_ntop6 a =
     (let ws = groups a in
      case best_run ws of
        None \<Rightarrow> join_with (CHR '':'') (map hex_nat ws)
      | Some (b, l) \<Rightarrow>
          join_with (CHR '':'') (map hex_nat (take b ws)) @ ''::'' @
          (if b = 0 \<and> l = 6 then inet_ntop4 (drop 12 a)
           else if b = 0 \<and> l = 5 \<and> ws ! 5 = 0xffff then ''ffff:'' @ inet_ntop4 (drop 12 a)
           else join_with (CHR '':'') (map hex_nat (drop (b + l) ws))))"

definition inet_ntop :: "family \<Rightarrow> byte list \<Rightarrow> string" where
  "inet_ntop f a = (case f of AF_INET \<Rightarrow> inet_ntop4 a | AF_INET6 \<Rightarrow> inet_ntop6 a)"

subsection \<open>Hexadecimal groups\<close>

lemma hex_value_digit [simp]: "d < 16 \<Longrightarrow> hex_value (nibble_char d) = Some d"
  by (auto simp: hex_value_def nibble_char_def Let_def)

lemma scan_hex:
  assumes "list_all (\<lambda>c. hex_value c \<noteq> None) ds" "seen + length ds \<le> 4"
  shows "pton6_loop tp c seen val tok (ds @ rest) =
    pton6_loop tp c (seen + length ds) (foldl (\<lambda>v d. v * 16 + the (hex_value d)) val ds) tok rest"
  using assms by (induction ds arbitrary: seen val) auto

lemma hex_nat_value: "foldl (\<lambda>v d. v * 16 + the (hex_value d)) 0 (hex_nat n) = n"
proof (induction n rule: hex_nat.induct)
  case (1 n)
  then show ?case
    by (subst hex_nat.simps) auto
qed

lemma hex_nat_digits: "list_all (\<lambda>c. hex_value c \<noteq> None) (hex_nat n)"
proof (induction n rule: hex_nat.induct)
  case (1 n)
  then show ?case
    by (subst hex_nat.simps) auto
qed

lemma hex_nat_nonempty [simp]: "hex_nat n \<noteq> []"
  by (subst hex_nat.simps) simp

lemma hex_nat_length: "n < 16 ^ Suc k \<Longrightarrow> length (hex_nat n) \<le> Suc k"
proof (induction k arbitrary: n)
  case 0
  then show ?case
    by (subst hex_nat.simps) simp
next
  case (Suc k)
  then have "n div 16 < 16 ^ Suc k"
    by (simp add: less_mult_imp_div_less mult.commute)
  then show ?case
    using Suc.IH by (subst hex_nat.simps) auto
qed

lemma scan_group:
  assumes "w < 65536"
  shows "pton6_loop tp c 0 0 tok (hex_nat w @ rest) = pton6_loop tp c (length (hex_nat w)) w tok rest"
proof -
  have "length (hex_nat w) \<le> 4"
    using hex_nat_length [of w 3] assms by simp
  then show ?thesis
    using scan_hex [OF hex_nat_digits, of 0 w tp c 0 tok rest] by (simp add: hex_nat_value)
qed

lemma finish_group:
  "0 < seen \<Longrightarrow> length tp \<le> 14 \<Longrightarrow> pton6_finish tp c seen v = pton6_finish (tp @ group_octets v) c 0 0"
  by (simp add: pton6_finish_def)

lemma length_group [simp]: "length (group_octets v) = 2"
  by (simp add: group_octets_def)

lemma hex_value_colon [simp]: "hex_value (CHR '':'') = None" "hex_value (CHR ''.'') = None"
  by (simp_all add: hex_value_def)

abbreviation octets :: "nat list \<Rightarrow> byte list" where
  "octets ws \<equiv> concat (map group_octets ws)"

lemma length_octets [simp]: "length (octets ws) = 2 * length ws"
  by (induction ws) auto

text \<open>Groups that are followed by a colon, and groups at the end.\<close>

lemma join_hex_Cons: "ws \<noteq> [] \<Longrightarrow>
  join_with (CHR '':'') (map hex_nat (w # ws)) = hex_nat w @ CHR '':'' # join_with (CHR '':'') (map hex_nat ws)"
  by (cases ws) simp_all

lemma join_hex_nonempty [simp]: "ws \<noteq> [] \<Longrightarrow> join_with (CHR '':'') (map hex_nat ws) \<noteq> []"
  by (cases ws; cases "tl ws") simp_all

lemma scan_groups_colon:
  assumes "\<forall>w \<in> set ws. w < 65536" "length tp + 2 * length ws \<le> 16" "ws \<noteq> []" "rest \<noteq> []"
  shows "pton6_loop tp c 0 0 tok (join_with (CHR '':'') (map hex_nat ws) @ CHR '':'' # rest) =
    pton6_loop (tp @ octets ws) c 0 0 rest rest"
  using assms
proof (induction ws arbitrary: tp tok)
  case (Cons w ws)
  show ?case
  proof (cases "ws = []")
    case False
    then show ?thesis
      unfolding join_hex_Cons [OF False] using Cons.prems Cons.IH by (simp add: scan_group)
  qed (use Cons.prems in \<open>simp add: scan_group\<close>)
qed simp

lemma scan_groups:
  assumes "\<forall>w \<in> set ws. w < 65536" "length tp + 2 * length ws \<le> 16"
  shows "pton6_loop tp c 0 0 tok (join_with (CHR '':'') (map hex_nat ws)) = pton6_finish (tp @ octets ws) c 0 0"
  using assms
proof (induction ws arbitrary: tp tok)
  case (Cons w ws)
  show ?case
  proof (cases "ws = []")
    case False
    then show ?thesis
      unfolding join_hex_Cons [OF False] using Cons.prems Cons.IH by (simp add: scan_group)
  qed (use scan_group [of w tp c tok "[]"] Cons.prems in \<open>simp add: finish_group\<close>)
qed simp

lemma scan_quad:
  assumes "length q = 4" "length tp \<le> 12"
  shows "pton6_loop tp c 0 0 (inet_ntop4 q) (inet_ntop4 q) = pton6_finish (tp @ q) c 0 0"
proof -
  obtain b q' where q: "q = b # q'" "length q' = 3"
    using assms(1) by (cases q) auto
  let ?ds = "dec_nat (unat b)"
  have shown: "inet_ntop4 q = ?ds @ CHR ''.'' # inet_ntop4 q'"
    using q by (cases q') (simp_all add: inet_ntop4_def)
  have digits: "list_all (\<lambda>c. hex_value c \<noteq> None) ?ds"
    using dec_nat_digits [of "unat b"] by (auto simp: list_all_iff isdigit_def hex_value_def Let_def)
  have "length ?ds \<le> 3"
    using dec_nat_length [of "unat b" 2] byte_less [of b] by simp
  then have "pton6_loop tp c 0 0 (inet_ntop4 q) (?ds @ CHR ''.'' # inet_ntop4 q') = pton6_finish (tp @ q) c 0 0"
    by (subst scan_hex [OF digits]) (use assms in \<open>simp_all add: inet_pton_ntop4\<close>)
  then show ?thesis
    using shown by simp
qed

subsection \<open>Runs of zeros\<close>

text \<open>What a run answered by the search is, and that the search keeps it.\<close>

definition run_in :: "nat list \<Rightarrow> (nat \<times> nat) option \<Rightarrow> bool" where
  "run_in ws r = (case r of None \<Rightarrow> True | Some (b, l) \<Rightarrow> b + l \<le> length ws \<and> (\<forall>i. b \<le> i \<and> i < b + l \<longrightarrow> ws ! i = 0))"

lemma zero_run_in:
  assumes "run_in (pre @ ws) best" "run_in (pre @ ws) cur" "\<forall>b l. cur = Some (b, l) \<longrightarrow> b + l = length pre"
  shows "run_in (pre @ ws) (zero_run (length pre) cur best ws)"
  using assms
proof (induction ws arbitrary: pre cur best)
  case Nil
  then show ?case
    by (auto simp: longer_run_def split: option.splits)
next
  case (Cons w ws)
  let ?cur = "Some (case cur of None \<Rightarrow> (length pre, 1) | Some (b, l) \<Rightarrow> (b, l + 1))"
  have "run_in (pre @ w # ws) (longer_run cur best)"
    using Cons.prems by (auto simp: longer_run_def split: option.splits)
  moreover have "run_in (pre @ w # ws) ?cur" if "w = 0"
    using that Cons.prems by (auto simp: run_in_def nth_append less_Suc_eq split: option.splits)
  ultimately show ?case
    using Cons.IH [of "pre @ [w]" best ?cur] Cons.IH [of "pre @ [w]" "longer_run cur best" None] Cons.prems
    by (auto simp: run_in_def [of _ None] split: option.splits)
qed

lemma best_run_zeros:
  assumes "best_run ws = Some (b, l)"
  shows "2 \<le> l" "b + l \<le> length ws" "ws = take b ws @ replicate l 0 @ drop (b + l) ws"
proof -
  have z: "zero_run 0 None None ws = Some (b, l)" "2 \<le> l"
    using assms by (auto simp: best_run_def split: option.splits if_splits)
  have "run_in ws (Some (b, l))"
    using zero_run_in [of "[]" ws None None] z by (simp add: run_in_def)
  then have *: "b + l \<le> length ws" "\<forall>i. b \<le> i \<and> i < b + l \<longrightarrow> ws ! i = 0"
    by (auto simp: run_in_def)
  then have "take l (drop b ws) = replicate l 0"
    by (intro nth_equalityI) auto
  then show "ws = take b ws @ replicate l 0 @ drop (b + l) ws"
    by (metis append_take_drop_id drop_drop add.commute)
  show "2 \<le> l" "b + l \<le> length ws"
    using z * by simp_all
qed

subsection \<open>Round trip\<close>

lemma group_octets_pair: "group_octets (unat a * 256 + unat b) = [a, b]"
proof -
  have "(word_of_nat (unat a * 256 + unat b) :: byte) = b"
    by (simp only: word_unat_eq_iff unat_of_nat) simp
  moreover have "(unat a * 256 + unat b) div 256 = unat a"
    by (simp add: div_add1_eq)
  ultimately show ?thesis
    by (simp add: group_octets_def)
qed

lemma groups_octets: "even (length a) \<Longrightarrow> octets (groups a) = a"
  by (induction a rule: groups.induct) (auto simp: group_octets_pair)

lemma groups_bound: "\<forall>w \<in> set (groups a). w < 65536"
proof (induction a rule: groups.induct)
  case (1 a b r)
  moreover have "unat a * 256 + unat b < 65536"
    using byte_less [of a] byte_less [of b] by linarith
  ultimately show ?case
    by simp
qed simp_all

lemma length_groups: "length (groups a) = length a div 2"
  by (induction a rule: groups.induct) auto

lemma finish_colon:
  assumes "length tp < 16" "c \<le> length tp"
  shows "pton6_finish tp (Some c) 0 0 = Some (take c tp @ replicate (16 - length tp) 0 @ drop c tp)"
  using assms by (simp add: pton6_finish_def)

lemma pton6_start_hex:
  "inet_pton6 (hex_nat w @ rest) = pton6_loop [] None 0 0 (hex_nat w @ rest) (hex_nat w @ rest)"
proof -
  obtain d ds where "hex_nat w = d # ds" "hex_value d \<noteq> None"
    using hex_nat_digits [of w] hex_nat_nonempty [of w] by (cases "hex_nat w") auto
  then show ?thesis
    by (auto simp: inet_pton6_def simp del: pton6_loop.simps)
qed

lemma pton6_start_groups:
  assumes "ws \<noteq> []"
  shows "inet_pton6 (join_with (CHR '':'') (map hex_nat ws) @ rest) =
    pton6_loop [] None 0 0 (join_with (CHR '':'') (map hex_nat ws) @ rest)
      (join_with (CHR '':'') (map hex_nat ws) @ rest)"
proof -
  obtain w vs where ws: "ws = w # vs"
    using assms by (cases ws) auto
  show ?thesis
    using pton6_start_hex [of w] by (cases vs) (simp_all add: ws del: pton6_loop.simps)
qed

text \<open>Up to and including a double colon.\<close>

lemma pton6_double_colon:
  assumes "\<forall>w \<in> set ws. w < 65536" "2 * length ws \<le> 16"
  shows "inet_pton6 (join_with (CHR '':'') (map hex_nat ws) @ ''::'' @ rest) =
    pton6_loop (octets ws) (Some (2 * length ws)) 0 0 rest rest"
proof (cases "ws = []")
  case False
  then show ?thesis
    using pton6_start_groups [OF False, of "''::'' @ rest"]
      scan_groups_colon [OF assms(1) _ False, of "[]" "CHR '':'' # rest" None] assms(2)
    by simp
qed (simp add: inet_pton6_def)

lemma octets_zero: "octets (replicate l 0) = replicate (2 * l) 0"
  by (induction l) (simp_all add: group_octets_def)

lemma hex_ffff: "hex_nat 0xffff = ''ffff''"
  by (simp add: hex_nat.simps nibble_char_def char_of_def bit_Suc_0_iff)

lemma scan_mapped:
  assumes "length q = 4"
  shows "pton6_loop [] (Some 0) 0 0 tok (''ffff:'' @ inet_ntop4 q) = pton6_finish (group_octets 0xffff @ q) (Some 0) 0 0"
proof -
  have ffff: "''ffff:'' @ s = hex_nat 0xffff @ CHR '':'' # s" for s
    by (simp add: hex_ffff)
  have "pton6_loop [] (Some 0) 0 0 tok (hex_nat 0xffff @ CHR '':'' # s) =
      pton6_loop (group_octets 0xffff) (Some 0) 0 0 s s" if "s \<noteq> []" for s
    using that scan_group [of "0xffff" "[]" "Some 0" tok "CHR '':'' # s"] by (simp add: hex_ffff)
  moreover have "inet_ntop4 q \<noteq> []"
    using inet_pton_ntop4 [OF assms] by (auto simp: inet_pton4_def octet_def)
  ultimately show ?thesis
    unfolding ffff using scan_quad [OF assms] by simp
qed

lemma inet_pton_ntop6:
  assumes "length a = 16"
  shows "inet_pton6 (inet_ntop6 a) = Some a"
proof (cases "best_run (groups a)")
  case None
  let ?ws = "groups a"
  have len: "length ?ws = 8" and oct: "octets ?ws = a"
    using assms by (simp_all add: length_groups groups_octets)
  then have "?ws \<noteq> []"
    by auto
  then show ?thesis
    using None pton6_start_groups [of ?ws "[]"] scan_groups [OF groups_bound, of "[]" a None] len oct assms
    by (simp add: inet_ntop6_def Let_def pton6_finish_def)
next
  case (Some r)
  obtain b l where run: "best_run (groups a) = Some (b, l)"
    using Some by (cases r) auto
  let ?ws = "groups a" let ?rest = "drop (b + l) ?ws"
  have len: "length ?ws = 8" and oct: "octets ?ws = a"
    using assms by (simp_all add: length_groups groups_octets)
  note z = best_run_zeros [OF run]
  have bnd: "\<forall>w \<in> set (take b ?ws). w < 65536" "\<forall>w \<in> set ?rest. w < 65536"
    using groups_bound [of a] by (meson in_set_takeD in_set_dropD)+
  have a: "a = octets (take b ?ws) @ replicate (2 * l) 0 @ octets ?rest"
    using arg_cong [OF z(3), of octets] oct octets_zero [of l] by simp
  have finish: "pton6_finish (octets (take b ?ws) @ octets ?rest) (Some (2 * b)) 0 0 = Some a"
  proof -
    have "16 - (2 * b + 2 * (8 - (b + l))) = 2 * l"
      using z(2) len by simp
    then show ?thesis
      by (subst finish_colon) (use z(1,2) len a in auto)
  qed
  have tail: "pton6_loop (octets (take b ?ws)) (Some (2 * b)) 0 0 tok (join_with (CHR '':'') (map hex_nat ?rest)) = Some a" for tok
    using scan_groups [OF bnd(2), of "octets (take b ?ws)" "Some (2 * b)" tok] z(1,2) len finish by simp
  have quad: "pton6_loop [] (Some 0) 0 0 (inet_ntop4 (drop 12 a)) (inet_ntop4 (drop 12 a)) = Some a"
    if "b = 0" "l = 6"
  proof -
    have "drop 12 a = octets ?rest"
      using arg_cong [OF a, of "drop 12"] that by simp
    then show ?thesis
      using finish that len scan_quad [of "drop 12 a" "[]" "Some 0"] by simp
  qed
  have mapped: "pton6_loop [] (Some 0) 0 0 tok (''ffff:'' @ inet_ntop4 (drop 12 a)) = Some a"
    if "b = 0" "l = 5" "?ws ! 5 = 0xffff" for tok
  proof -
    have rest: "?rest = 0xffff # drop 6 ?ws"
      using that len Cons_nth_drop_Suc [of 5 ?ws] by simp
    have "drop 12 a = octets (drop 6 ?ws)"
      using arg_cong [OF a, of "drop 12"] that(1,2) rest by simp
    then show ?thesis
      using finish that(1,2) rest len scan_mapped [of "drop 12 a" tok] by simp
  qed
  show ?thesis
    using pton6_double_colon [OF bnd(1)] z(1,2) len tail run quad mapped
    by (auto simp: inet_ntop6_def Let_def simp del: pton6_loop.simps)
qed

lemma inet_pton_ntop: "length a = (case f of AF_INET \<Rightarrow> 4 | AF_INET6 \<Rightarrow> 16) \<Longrightarrow> inet_pton f (inet_ntop f a) = Some a"
  by (simp add: inet_pton_def inet_ntop_def inet_pton_ntop4 inet_pton_ntop6 split: family.splits)

subsection \<open>The printed form\<close>

lemma inet_ntop4_length: "length a = 4 \<Longrightarrow> length (inet_ntop4 a) \<le> 15"
proof -
  assume "length a = 4"
  moreover have "\<forall>x \<in> set (map (\<lambda>b. dec_nat (unat b)) a). length x \<le> 3"
    using dec_nat_length [of _ 2] byte_less by (auto simp: less_trans [OF byte_less])
  ultimately show ?thesis
    using length_join_bound [of "map (\<lambda>b. dec_nat (unat b)) a" 3 "CHR ''.''"] by (simp add: inet_ntop4_def)
qed

lemma inet_ntop4_chars: "set (inet_ntop4 a) \<subseteq> insert (CHR ''.'') {c. isdigit c}"
  using set_join_with [of "CHR ''.''" "map (\<lambda>b. dec_nat (unat b)) a"] dec_nat_digits
  by (fastforce simp: inet_ntop4_def)

lemma join_hex_length: "\<forall>w \<in> set ws. w < 65536 \<Longrightarrow>
  length (join_with (CHR '':'') (map hex_nat ws)) \<le> length ws * 4 + (length ws - 1)"
  using length_join_bound [of "map hex_nat ws" 4 "CHR '':''"] hex_nat_length [of _ 3] by simp

lemma join_hex_chars: "set (join_with (CHR '':'') (map hex_nat ws)) \<subseteq> insert (CHR '':'') {c. hex_value c \<noteq> None}"
  using set_join_with [of "CHR '':''" "map hex_nat ws"] hex_nat_digits by (fastforce simp: list_all_iff)

lemma inet_ntop6_length:
  assumes "length a = 16"
  shows "length (inet_ntop6 a) \<le> 45"
proof (cases "best_run (groups a)")
  case None
  then show ?thesis
    using join_hex_length [OF groups_bound, of a] assms by (simp add: inet_ntop6_def length_groups)
next
  case (Some r)
  then obtain b l where run: "best_run (groups a) = Some (b, l)"
    by (cases r) auto
  note z = best_run_zeros [OF run]
  have bnd: "\<forall>w \<in> set (take b (groups a)). w < 65536" "\<forall>w \<in> set (drop (b + l) (groups a)). w < 65536"
    using groups_bound [of a] by (meson in_set_takeD in_set_dropD)+
  show ?thesis
    using join_hex_length [OF bnd(1)] join_hex_length [OF bnd(2)] z(1,2) assms
      inet_ntop4_length [of "drop 12 a"]
    by (auto simp: inet_ntop6_def run Let_def length_groups)
qed

lemma inet_ntop6_chars: "set (inet_ntop6 a) \<subseteq> {c. c = CHR '':'' \<or> c = CHR ''.'' \<or> hex_value c \<noteq> None}"
  (is "_ \<subseteq> ?S")
proof -
  have "hex_value c \<noteq> None" if "isdigit c" for c
    using that by (auto simp: isdigit_def hex_value_def Let_def)
  then have quad: "set (inet_ntop4 q) \<subseteq> ?S" for q
    using inet_ntop4_chars [of q] by blast
  have hexes: "set (join_with (CHR '':'') (map hex_nat ws)) \<subseteq> ?S" for ws
    using join_hex_chars [of ws] by blast
  have "set ''::'' \<subseteq> ?S" "set ''ffff:'' \<subseteq> ?S"
    by (simp_all add: hex_value_def)
  with quad hexes show ?thesis
    unfolding inet_ntop6_def Let_def
    by (cases "best_run (groups a)") (simp_all only: option.case prod.case set_append Un_subset_iff split: prod.split if_split, blast+)
qed

lemma those_SomeD: "those (map f xs) = Some ys \<Longrightarrow> x \<in> set xs \<Longrightarrow> f x \<noteq> None"
  by (induction xs arbitrary: ys) (auto split: option.splits)

lemma inet_pton4_no_colon: "inet_pton4 s = Some a \<Longrightarrow> CHR '':'' \<notin> set s"
proof
  assume a: "inet_pton4 s = Some a" and colon: "CHR '':'' \<in> set s"
  from colon have "CHR '':'' \<in> set (join_with (CHR ''.'') (split_on (CHR ''.'') s))"
    by (simp add: join_split)
  then obtain part where part: "part \<in> set (split_on (CHR ''.'') s)" "CHR '':'' \<in> set part"
    using set_join_with [of "CHR ''.''" "split_on (CHR ''.'') s"] by auto
  have "octet part \<noteq> None"
    using a part(1) by (auto simp: inet_pton4_def dest: those_SomeD split: option.splits)
  then show False
    using part(2) by (auto simp: octet_def list_all_iff isdigit_def split: if_splits)
qed

end
