(* ===== verification/Ip_Packets.thy ===== *)
theory Ip_Packets
  imports Inet
begin

unbundle bit_operations_syntax

text \<open>
  The byte level of \<^verbatim>\<open>src/native/src/ip_stack.c\<close>: big-endian fields, the Internet checksum, the checksum
  updates of IPv4 and IPv6 TCP packets, the walk over IPv6 extension headers, and the UDP datagrams the
  stack emits.  A packet is the list of its bytes; a pointer into it is an offset.  16- and 32-bit sums
  are natural numbers with the wrap-around of \<^verbatim>\<open>uint32_t\<close> written out.
\<close>

section \<open>Fields\<close>

definition sub_bytes :: "byte list \<Rightarrow> nat \<Rightarrow> nat \<Rightarrow> byte list" where
  "sub_bytes p start len = take len (drop start p)"

definition ch_ip_stack_read_u16 :: "byte list \<Rightarrow> nat \<Rightarrow> nat" where
  "ch_ip_stack_read_u16 p i = unat (p ! i) * 256 + unat (p ! (i + 1))"

definition ch_ip_stack_read_u32 :: "byte list \<Rightarrow> nat \<Rightarrow> nat" where
  "ch_ip_stack_read_u32 p i =
     unat (p ! i) * 16777216 + unat (p ! (i + 1)) * 65536 + unat (p ! (i + 2)) * 256 + unat (p ! (i + 3))"

definition ch_ip_stack_write_u16 :: "byte list \<Rightarrow> nat \<Rightarrow> nat \<Rightarrow> byte list" where
  "ch_ip_stack_write_u16 p i v = p[i := word_of_nat (v div 256), i + 1 := word_of_nat v]"

text \<open>\<^verbatim>\<open>memcpy\<close> into a packet.\<close>

definition put :: "byte list \<Rightarrow> nat \<Rightarrow> byte list \<Rightarrow> byte list" where
  "put p i bs = take i p @ bs @ drop (i + length bs) p"

section \<open>The Internet checksum\<close>

fun ch_ip_stack_checksum_add :: "byte list \<Rightarrow> nat \<Rightarrow> nat" where
  "ch_ip_stack_checksum_add (a # b # bs) acc =
     ch_ip_stack_checksum_add bs ((acc + unat a * 256 + unat b) mod 2 ^ 32)"
| "ch_ip_stack_checksum_add [a] acc = (acc + unat a * 256) mod 2 ^ 32"
| "ch_ip_stack_checksum_add [] acc = acc"

text \<open>The folding loop of \<^verbatim>\<open>ch_ip_stack_checksum_finish\<close>.\<close>

function fold_carry :: "nat \<Rightarrow> nat" where
  "fold_carry acc = (if acc div 65536 \<noteq> 0 then fold_carry (acc mod 65536 + acc div 65536) else acc)"
  by pat_completeness auto
termination
proof (relation "measure id")
  fix acc :: nat
  assume "acc div 65536 \<noteq> 0"
  then have "acc mod 65536 + acc div 65536 < acc"
    using mult_div_mod_eq [of 65536 acc] by linarith
  then show "(acc mod 65536 + acc div 65536, acc) \<in> measure id"
    by simp
qed simp

declare fold_carry.simps [simp del]

definition ch_ip_stack_checksum_finish :: "nat \<Rightarrow> nat" where
  "ch_ip_stack_checksum_finish acc = 65535 - fold_carry acc"

definition ch_ip_stack_checksum :: "byte list \<Rightarrow> nat" where
  "ch_ip_stack_checksum bs = ch_ip_stack_checksum_finish (ch_ip_stack_checksum_add bs 0)"

section \<open>Checksum updates\<close>

definition ipv4_header_length :: "byte list \<Rightarrow> nat" where
  "ipv4_header_length p = unat (p ! 0 AND 0x0f) * 4"

text \<open>The sum over the pseudo header and the transport segment.\<close>

definition pseudo4 :: "nat \<Rightarrow> nat \<Rightarrow> byte list" where
  "pseudo4 protocol len = [0, word_of_nat protocol, word_of_nat (len div 256), word_of_nat len]"

definition pseudo6 :: "nat \<Rightarrow> nat \<Rightarrow> byte list" where
  "pseudo6 protocol len =
     [word_of_nat (len div 16777216), word_of_nat (len div 65536), word_of_nat (len div 256),
      word_of_nat len, 0, 0, 0, word_of_nat protocol]"

definition transport_sum4 :: "byte list \<Rightarrow> nat \<Rightarrow> nat \<Rightarrow> nat" where
  "transport_sum4 p protocol offset =
     ch_ip_stack_checksum_add (drop offset p)
       (ch_ip_stack_checksum_add (pseudo4 protocol (length p - offset))
         (ch_ip_stack_checksum_add (sub_bytes p 12 8) 0))"

definition transport_sum6 :: "byte list \<Rightarrow> nat \<Rightarrow> nat \<Rightarrow> nat" where
  "transport_sum6 p protocol offset =
     ch_ip_stack_checksum_add (drop offset p)
       (ch_ip_stack_checksum_add (pseudo6 protocol (length p - offset))
         (ch_ip_stack_checksum_add (sub_bytes p 8 32) 0))"

definition ipv4_header_checksum :: "byte list \<Rightarrow> nat \<Rightarrow> byte list" where
  "ipv4_header_checksum p header_length =
     (let q = p[10 := 0, 11 := 0] in
      ch_ip_stack_write_u16 q 10 (ch_ip_stack_checksum (take header_length q)))"

definition ch_ip_stack_ipv4_checksums :: "byte list \<Rightarrow> byte list" where
  "ch_ip_stack_ipv4_checksums p =
     (let h = ipv4_header_length p in
      if h < 20 \<or> length p < h then p
      else
        let q = ipv4_header_checksum p h in
        if q ! 9 \<noteq> 6 \<or> length q < h + 20 then q
        else
          let q = q[h + 16 := 0, h + 17 := 0] in
          ch_ip_stack_write_u16 q (h + 16) (ch_ip_stack_checksum_finish (transport_sum4 q 6 h)))"

section \<open>IPv6 extension headers\<close>

definition extension_protocol :: "byte \<Rightarrow> bool" where
  "extension_protocol protocol \<longleftrightarrow> protocol = 0 \<or> protocol = 43 \<or> protocol = 60 \<or> protocol = 51"

definition extension_length :: "byte list \<Rightarrow> byte \<Rightarrow> nat \<Rightarrow> nat" where
  "extension_length p protocol offset =
     (if protocol = 51 then (unat (p ! (offset + 1)) + 2) * 4 else (unat (p ! (offset + 1)) + 1) * 8)"

text \<open>The loop over the extension headers: \<open>left\<close> is 16 minus the headers seen.  The last component is the
  offset of the byte that holds the final next-header value.\<close>

fun extension_walk :: "byte list \<Rightarrow> nat \<Rightarrow> byte \<Rightarrow> nat \<Rightarrow> nat \<Rightarrow> (byte \<times> nat \<times> nat) option" where
  "extension_walk p left protocol offset next_header_offset =
     (if \<not> extension_protocol protocol then Some (protocol, offset, next_header_offset)
      else
        (case left of
           0 \<Rightarrow> None
         | Suc left' \<Rightarrow>
             if length p < offset + 2 then None
             else
               let len = extension_length p protocol offset in
               if len < 8 \<or> length p < offset + len \<or> 512 < offset + len then None
               else extension_walk p left' (p ! offset) (offset + len) offset))"

declare extension_walk.simps [simp del]

definition ch_ip_stack_ipv6_transport :: "byte list \<Rightarrow> (byte \<times> nat) option" where
  "ch_ip_stack_ipv6_transport p =
     (if length p < 40 \<or> drop_bit 4 (p ! 0) \<noteq> 6 \<or> ch_ip_stack_read_u16 p 4 \<noteq> length p - 40 then None
      else
        (case extension_walk p 16 (p ! 6) 40 6 of
           None \<Rightarrow> None
         | Some (protocol, offset, _) \<Rightarrow> if protocol = 44 then None else Some (protocol, offset)))"

definition ch_ip_stack_ipv6_tcp_checksum :: "byte list \<Rightarrow> byte list" where
  "ch_ip_stack_ipv6_tcp_checksum p =
     (case ch_ip_stack_ipv6_transport p of
        None \<Rightarrow> p
      | Some (protocol, h) \<Rightarrow>
          if protocol \<noteq> 6 \<or> length p < h + 20 then p
          else
            let q = p[h + 16 := 0, h + 17 := 0] in
            ch_ip_stack_write_u16 q (h + 16) (ch_ip_stack_checksum_finish (transport_sum6 q 6 h)))"

section \<open>UDP checksums and responses\<close>

definition ch_ip_stack_udp_checksum_ipv4 :: "byte list \<Rightarrow> nat" where
  "ch_ip_stack_udp_checksum_ipv4 p =
     (let h = ipv4_header_length p in
      if h < 20 \<or> length p < h + 8 then 65535
      else ch_ip_stack_checksum_finish (transport_sum4 p 17 h))"

definition ch_ip_stack_udp_checksum_ipv6 :: "byte list \<Rightarrow> nat" where
  "ch_ip_stack_udp_checksum_ipv6 p =
     (case ch_ip_stack_ipv6_transport p of
        None \<Rightarrow> 65535
      | Some (protocol, h) \<Rightarrow>
          if protocol \<noteq> 17 \<or> length p < h + 8 then 65535
          else ch_ip_stack_checksum_finish (transport_sum6 p 17 h))"

definition ch_ip_stack_address_length :: "family \<Rightarrow> nat" where
  "ch_ip_stack_address_length f = (case f of AF_INET6 \<Rightarrow> 16 | AF_INET \<Rightarrow> 4)"

text \<open>The packet that \<^verbatim>\<open>ch_ip_stack_emit_udp_response\<close> builds and hands to the packet writer; \<open>ident\<close>
  is the value of \<^verbatim>\<open>ch_lwip_random\<close>.\<close>

definition udp_response_blank :: "family \<Rightarrow> byte list \<Rightarrow> byte list \<Rightarrow> nat \<Rightarrow> nat \<Rightarrow> byte list" where
  "udp_response_blank f remote_address client_address payload_length ident =
     (case f of
        AF_INET6 \<Rightarrow>
          (let p = replicate (48 + payload_length) (0 :: byte);
               p = p[0 := 0x60];
               p = ch_ip_stack_write_u16 p 4 (8 + payload_length);
               p = p[6 := 17, 7 := 64];
               p = put p 8 remote_address
           in put p 24 client_address)
      | AF_INET \<Rightarrow>
          (let p = replicate (28 + payload_length) (0 :: byte);
               p = p[0 := 0x45];
               p = ch_ip_stack_write_u16 p 2 (28 + payload_length);
               p = ch_ip_stack_write_u16 p 4 (ident mod 65536);
               p = p[6 := 0x40, 8 := 64, 9 := 17];
               p = put p 12 remote_address
           in put p 16 client_address))"

definition ch_ip_stack_emit_udp_response ::
  "nat \<Rightarrow> nat \<Rightarrow> family \<Rightarrow> byte list \<Rightarrow> nat \<Rightarrow> byte list \<Rightarrow> nat \<Rightarrow> byte list \<Rightarrow> byte list result" where
  "ch_ip_stack_emit_udp_response mtu ident f remote_address remote_port client_address client_port payload =
     (let h = (case f of AF_INET6 \<Rightarrow> 40 | AF_INET \<Rightarrow> 20);
          packet_length = h + 8 + length payload
      in if 65535 - 8 < length payload \<or> mtu < packet_length \<or> 65535 < packet_length
         then Inl CH_ERROR_INVALID_ARGUMENT
         else
           let p = udp_response_blank f remote_address client_address (length payload) ident;
               p = ch_ip_stack_write_u16 p h remote_port;
               p = ch_ip_stack_write_u16 p (h + 2) client_port;
               p = ch_ip_stack_write_u16 p (h + 4) (8 + length payload);
               p = put p (h + 8) payload;
               c = (case f of AF_INET6 \<Rightarrow> ch_ip_stack_udp_checksum_ipv6 p
                            | AF_INET \<Rightarrow> ch_ip_stack_udp_checksum_ipv4 p);
               p = ch_ip_stack_write_u16 p (h + 6) (if c = 0 then 65535 else c)
           in Inr (case f of
                AF_INET \<Rightarrow> ch_ip_stack_write_u16 p 10 (ch_ip_stack_checksum (take 20 p))
              | AF_INET6 \<Rightarrow> p))"

section \<open>Laws of the checksum\<close>

fun be_sum :: "byte list \<Rightarrow> nat" where
  "be_sum (a # b # bs) = unat a * 256 + unat b + be_sum bs"
| "be_sum [a] = unat a * 256"
| "be_sum [] = 0"

lemma unat_byte [simp]: "unat (b :: byte) \<le> 255"
  using unsigned_less [of b, where 'a = nat] by simp

lemma checksum_add_be_sum: "s < 2 ^ 32 \<Longrightarrow> ch_ip_stack_checksum_add bs s = (s + be_sum bs) mod 2 ^ 32"
proof (induction bs s rule: ch_ip_stack_checksum_add.induct)
  case (1 a b bs s)
  then show ?case
    by (simp add: mod_add_left_eq add.assoc)
qed auto

lemma be_sum_bound: "be_sum bs \<le> 32768 * (length bs + 1)"
proof (induction bs rule: be_sum.induct)
  case (1 a b bs)
  have "unat a * 256 + unat b \<le> 65535"
    using unat_byte [of a] unat_byte [of b] by linarith
  with 1 show ?case by simp
next
  case (2 a)
  then show ?case
    using unat_byte [of a] by (simp, linarith)
qed simp

text \<open>Folding the carries is reduction modulo 65535 into the range 1 to 65535, except for the sum 0.\<close>

lemma fold_carry_eq: "fold_carry s = (if s = 0 then 0 else (s - 1) mod 65535 + 1)"
proof (induction s rule: fold_carry.induct)
  case (1 s)
  show ?case
  proof (cases "s div 65536 = 0")
    case True
    then have "s < 65536"
      by (simp add: div_eq_0_iff)
    then have "(s - 1) mod 65535 = s - 1"
      by (intro mod_less) simp
    then show ?thesis
      using True by (simp add: fold_carry.simps [of s])
  next
    case False
    define q r where "q = s div 65536" and "r = s mod 65536"
    have q: "q \<noteq> 0"
      using False by (simp add: q_def)
    have "s = 65536 * q + r"
      by (simp add: q_def r_def)
    with q have "s - 1 = 65535 * q + (r + q - 1)"
      by simp
    then have "(s - 1) mod 65535 = (r + q - 1) mod 65535"
      by simp
    moreover have "fold_carry s = fold_carry (r + q)"
      using False by (simp add: fold_carry.simps [of s] q_def r_def)
    moreover have "fold_carry (r + q) = (r + q - 1) mod 65535 + 1"
      using 1 False q by (simp add: q_def r_def)
    moreover have "s \<noteq> 0"
      using False by (cases "s = 0") simp_all
    ultimately show ?thesis
      by simp
  qed
qed

lemma fold_carry_le: "fold_carry s \<le> 65535"
  by (simp add: fold_carry_eq Suc_le_eq)

text \<open>A checksum verifies exactly when the sum is a positive multiple of 65535.\<close>

lemma finish_zero_iff: "ch_ip_stack_checksum_finish s = 0 \<longleftrightarrow> s \<noteq> 0 \<and> s mod 65535 = 0"
proof -
  have "(s - 1) mod 65535 = 65534 \<longleftrightarrow> s mod 65535 = 0" if "0 < s"
    using that mod_Suc [of "s - 1" 65535] by auto
  then show ?thesis
    using fold_carry_le [of s] by (auto simp: ch_ip_stack_checksum_finish_def fold_carry_eq)
qed

lemma finish_less: "ch_ip_stack_checksum_finish s < 65536"
  by (simp add: ch_ip_stack_checksum_finish_def)

lemma add_finish_verifies:
  assumes "c = ch_ip_stack_checksum_finish s \<or> c = 65535 \<and> ch_ip_stack_checksum_finish s = 0"
    and "s \<noteq> 0 \<or> c \<noteq> 0"
  shows "ch_ip_stack_checksum_finish (s + c) = 0"
proof -
  have "(s + (65535 - fold_carry s)) mod 65535 = 0"
  proof (cases "s = 0")
    case False
    have "((s - 1) mod 65535 + 1) mod 65535 = s mod 65535"
      using False mod_add_left_eq [of "s - 1" 65535 1] by simp
    then have "fold_carry s mod 65535 = s mod 65535"
      using False by (simp add: fold_carry_eq)
    then show ?thesis
      using fold_carry_le [of s]
        mod_add_left_eq [of s 65535 "65535 - fold_carry s"]
        mod_add_left_eq [of "fold_carry s" 65535 "65535 - fold_carry s"] by simp
  qed (simp add: fold_carry_eq)
  then have "(s + ch_ip_stack_checksum_finish s) mod 65535 = 0"
    by (simp add: ch_ip_stack_checksum_finish_def)
  moreover have "(s + 65535) mod 65535 = 0" if "ch_ip_stack_checksum_finish s = 0"
    using that by (simp add: finish_zero_iff)
  ultimately show ?thesis
    unfolding finish_zero_iff [of "s + c"] using assms by auto
qed

lemma add_finish: "ch_ip_stack_checksum_finish (s + ch_ip_stack_checksum_finish s) = 0"
  by (rule add_finish_verifies) (auto simp: ch_ip_stack_checksum_finish_def fold_carry_eq)

subsection \<open>Writing fields\<close>

lemma length_write_u16 [simp]: "length (ch_ip_stack_write_u16 p i v) = length p"
  by (simp add: ch_ip_stack_write_u16_def)

lemma take_write_u16: "i + 1 < n \<Longrightarrow> take n (ch_ip_stack_write_u16 p i v) = ch_ip_stack_write_u16 (take n p) i v"
  by (simp add: ch_ip_stack_write_u16_def take_update_swap)

lemma take_write_u16_cancel: "n \<le> i \<Longrightarrow> take n (ch_ip_stack_write_u16 p i v) = take n p"
  by (simp add: ch_ip_stack_write_u16_def)

lemma drop_write_u16: "h \<le> i \<Longrightarrow> drop h (ch_ip_stack_write_u16 p i v) = ch_ip_stack_write_u16 (drop h p) (i - h) v"
  by (simp add: ch_ip_stack_write_u16_def drop_update_swap Suc_diff_le)

lemma drop_write_u16_cancel: "i + 1 < h \<Longrightarrow> drop h (ch_ip_stack_write_u16 p i v) = drop h p"
  by (simp add: ch_ip_stack_write_u16_def)

lemma sub_bytes_write_u16:
  "i + 1 < start \<or> start + len \<le> i \<Longrightarrow> sub_bytes (ch_ip_stack_write_u16 p i v) start len = sub_bytes p start len"
proof (cases "i + 1 < start")
  case False
  moreover assume "i + 1 < start \<or> start + len \<le> i"
  ultimately have "start + len \<le> i" by simp
  then show ?thesis
    by (simp add: sub_bytes_def drop_write_u16 take_write_u16_cancel)
qed (simp add: sub_bytes_def drop_write_u16_cancel)

lemma nth_write_u16: "j \<noteq> i \<Longrightarrow> j \<noteq> i + 1 \<Longrightarrow> ch_ip_stack_write_u16 p i v ! j = p ! j"
  by (simp add: ch_ip_stack_write_u16_def)

lemma read_write_u16:
  assumes "i + 1 < length p" "v < 65536"
  shows "ch_ip_stack_read_u16 (ch_ip_stack_write_u16 p i v) i = v"
proof -
  have "v div 256 < 256" using assms(2) by (simp add: less_mult_imp_div_less)
  then have "unat (word_of_nat (v div 256) :: byte) = v div 256" "unat (word_of_nat v :: byte) = v mod 256"
    by (simp_all add: unat_of_nat)
  with assms(1) show ?thesis
    by (simp add: ch_ip_stack_read_u16_def ch_ip_stack_write_u16_def)
qed

lemma read_write_u16_other:
  "j + 1 < i \<or> i + 1 < j \<Longrightarrow> ch_ip_stack_read_u16 (ch_ip_stack_write_u16 p i v) j = ch_ip_stack_read_u16 p j"
  by (auto simp: ch_ip_stack_read_u16_def nth_write_u16)

lemma read_zeroed: "k = i + 1 \<Longrightarrow> k < length p \<Longrightarrow> ch_ip_stack_read_u16 (p[i := 0, k := 0]) i = 0"
  by (simp add: ch_ip_stack_read_u16_def)

lemma be_sum_update:
  "even i \<Longrightarrow> i + 1 < length p \<Longrightarrow>
   be_sum (p[i := a, i + 1 := b]) + (unat (p ! i) * 256 + unat (p ! (i + 1))) = be_sum p + (unat a * 256 + unat b)"
proof (induction p arbitrary: i rule: be_sum.induct)
  case (1 x y bs)
  show ?case
  proof (cases i)
    case (Suc j)
    then obtain k where k: "i = Suc (Suc k)"
      using 1(2) by (cases j) auto
    then show ?thesis
      using 1(1) [of k] 1(2,3) by simp
  qed simp
qed auto

lemma be_sum_write_u16:
  assumes "even i" "i + 1 < length p" "v < 65536"
  shows "be_sum (ch_ip_stack_write_u16 p i v) + ch_ip_stack_read_u16 p i = be_sum p + v"
proof -
  have "v div 256 < 256" using assms(3) by (simp add: less_mult_imp_div_less)
  then have "unat (word_of_nat (v div 256) :: byte) * 256 + unat (word_of_nat v :: byte) = v"
    by (simp add: unat_of_nat)
  then show ?thesis
    using be_sum_update [OF assms(1,2)]
    by (simp add: ch_ip_stack_write_u16_def ch_ip_stack_read_u16_def)
qed

subsection \<open>Written checksums verify\<close>

text \<open>Filling a zero checksum field with the complement of the sum makes the region verify; with \<^verbatim>\<open>0xffff\<close>
  in place of 0 it still does.\<close>

definition fills :: "nat \<Rightarrow> nat \<Rightarrow> bool" where
  "fills c s \<longleftrightarrow> c = ch_ip_stack_checksum_finish s \<or> c = 65535 \<and> ch_ip_stack_checksum_finish s = 0"

lemma fills_verifies: "fills c s \<Longrightarrow> ch_ip_stack_checksum_finish (s + c) = 0"
  by (rule add_finish_verifies)
    (auto simp: fills_def ch_ip_stack_checksum_finish_def fold_carry_eq split: if_splits)

lemma fills_less: "fills c s \<Longrightarrow> c < 65536"
  using finish_less [of s] by (auto simp: fills_def)

lemma checksum_add_fill:
  assumes "even i" "i + 1 < length p" "ch_ip_stack_read_u16 p i = 0" "c < 65536"
    and "s < 2 ^ 32" "s + be_sum p + c < 2 ^ 32"
  shows "ch_ip_stack_checksum_add (ch_ip_stack_write_u16 p i c) s = ch_ip_stack_checksum_add p s + c"
  using be_sum_write_u16 [OF assms(1,2,4)] assms(3,5,6) by (simp add: checksum_add_be_sum)

lemma header_checksum_verifies:
  assumes "even i" "i + 1 < h" "h \<le> length p" "h \<le> 65535" "ch_ip_stack_read_u16 p i = 0"
  shows "ch_ip_stack_checksum (take h (ch_ip_stack_write_u16 p i (ch_ip_stack_checksum (take h p)))) = 0"
proof -
  let ?c = "ch_ip_stack_checksum (take h p)"
  have "ch_ip_stack_read_u16 (take h p) i = 0"
    using assms by (simp add: ch_ip_stack_read_u16_def)
  moreover have "?c < 65536"
    by (simp add: ch_ip_stack_checksum_def finish_less)
  moreover have "be_sum (take h p) \<le> 32768 * 65536"
    using be_sum_bound [of "take h p"] assms(3,4) by simp
  ultimately have "ch_ip_stack_checksum_add (ch_ip_stack_write_u16 (take h p) i ?c) 0 =
      ch_ip_stack_checksum_add (take h p) 0 + ?c"
    using assms by (intro checksum_add_fill) auto
  then show ?thesis
    using assms add_finish by (simp add: ch_ip_stack_checksum_def take_write_u16)
qed

definition pseudo_sum4 :: "byte list \<Rightarrow> nat \<Rightarrow> nat \<Rightarrow> nat" where
  "pseudo_sum4 p protocol len = be_sum (sub_bytes p 12 8) + be_sum (pseudo4 protocol len)"

definition pseudo_sum6 :: "byte list \<Rightarrow> nat \<Rightarrow> nat \<Rightarrow> nat" where
  "pseudo_sum6 p protocol len = be_sum (sub_bytes p 8 32) + be_sum (pseudo6 protocol len)"

lemma pseudo_sum_bounds: "pseudo_sum4 p protocol len \<le> 2 ^ 20" "pseudo_sum6 p protocol len \<le> 2 ^ 21"
proof -
  have "be_sum (sub_bytes p 12 8) \<le> 32768 * 9" "be_sum (sub_bytes p 8 32) \<le> 32768 * 33"
    using be_sum_bound [of "sub_bytes p 12 8"] be_sum_bound [of "sub_bytes p 8 32"] by (simp_all add: sub_bytes_def)
  moreover have "be_sum (pseudo4 protocol len) \<le> 32768 * 5" "be_sum (pseudo6 protocol len) \<le> 32768 * 9"
    using be_sum_bound [of "pseudo4 protocol len"] be_sum_bound [of "pseudo6 protocol len"]
    by (simp_all add: pseudo4_def pseudo6_def)
  ultimately show "pseudo_sum4 p protocol len \<le> 2 ^ 20" "pseudo_sum6 p protocol len \<le> 2 ^ 21"
    by (simp_all add: pseudo_sum4_def pseudo_sum6_def)
qed

lemma transport_sum_eq:
  assumes "length p \<le> 65535"
  shows "transport_sum4 p protocol h = pseudo_sum4 p protocol (length p - h) + be_sum (drop h p)"
    "transport_sum6 p protocol h = pseudo_sum6 p protocol (length p - h) + be_sum (drop h p)"
    "be_sum (drop h p) \<le> 2 ^ 31"
proof -
  show d: "be_sum (drop h p) \<le> 2 ^ 31"
    using be_sum_bound [of "drop h p"] assms by simp
  show "transport_sum4 p protocol h = pseudo_sum4 p protocol (length p - h) + be_sum (drop h p)"
    using pseudo_sum_bounds(1) [of p protocol "length p - h"] d
    by (simp add: transport_sum4_def pseudo_sum4_def checksum_add_be_sum)
  show "transport_sum6 p protocol h = pseudo_sum6 p protocol (length p - h) + be_sum (drop h p)"
    using pseudo_sum_bounds(2) [of p protocol "length p - h"] d
    by (simp add: transport_sum6_def pseudo_sum6_def checksum_add_be_sum)
qed

lemma be_sum_drop_fill:
  assumes "even j" "h + j + 1 < length p" "ch_ip_stack_read_u16 p (h + j) = 0" "c < 65536"
  shows "be_sum (drop h (ch_ip_stack_write_u16 p (h + j) c)) = be_sum (drop h p) + c"
proof -
  have "ch_ip_stack_read_u16 (drop h p) j = 0"
    using assms by (simp add: ch_ip_stack_read_u16_def add.assoc)
  then show ?thesis
    using be_sum_write_u16 [of j "drop h p" c] assms by (simp add: drop_write_u16)
qed

text \<open>Filling the checksum field of a transport segment at an even offset makes it verify.\<close>

lemma transport_checksum_verifies:
  assumes "length p \<le> 65535" "even j" "h + j + 1 < length p" "ch_ip_stack_read_u16 p (h + j) = 0"
  shows "20 \<le> h \<Longrightarrow> fills c (transport_sum4 p protocol h) \<Longrightarrow>
      ch_ip_stack_checksum_finish (transport_sum4 (ch_ip_stack_write_u16 p (h + j) c) protocol h) = 0"
    "40 \<le> h \<Longrightarrow> fills c (transport_sum6 p protocol h) \<Longrightarrow>
      ch_ip_stack_checksum_finish (transport_sum6 (ch_ip_stack_write_u16 p (h + j) c) protocol h) = 0"
proof -
  let ?q = "ch_ip_stack_write_u16 p (h + j) c"
  have len: "length ?q \<le> 65535" using assms(1) by simp
  {
    assume h: "20 \<le> h" and f: "fills c (transport_sum4 p protocol h)"
    have "pseudo_sum4 ?q protocol (length ?q - h) = pseudo_sum4 p protocol (length p - h)"
      using h by (simp add: pseudo_sum4_def sub_bytes_write_u16)
    then have "transport_sum4 ?q protocol h = transport_sum4 p protocol h + c"
      using be_sum_drop_fill [OF assms(2-4) fills_less [OF f]]
      by (simp add: transport_sum_eq(1) [OF len] transport_sum_eq(1) [OF assms(1)])
    then show "ch_ip_stack_checksum_finish (transport_sum4 ?q protocol h) = 0"
      using fills_verifies [OF f] by simp
  }
  {
    assume h: "40 \<le> h" and f: "fills c (transport_sum6 p protocol h)"
    have "pseudo_sum6 ?q protocol (length ?q - h) = pseudo_sum6 p protocol (length p - h)"
      using h by (simp add: pseudo_sum6_def sub_bytes_write_u16)
    then have "transport_sum6 ?q protocol h = transport_sum6 p protocol h + c"
      using be_sum_drop_fill [OF assms(2-4) fills_less [OF f]]
      by (simp add: transport_sum_eq(2) [OF len] transport_sum_eq(2) [OF assms(1)])
    then show "ch_ip_stack_checksum_finish (transport_sum6 ?q protocol h) = 0"
      using fills_verifies [OF f] by simp
  }
qed

section \<open>Extension headers stay inside the packet\<close>

lemma extension_length_dvd: "4 dvd extension_length p protocol offset"
  by (auto simp: extension_length_def)

lemma extension_walk_bounds:
  "extension_walk p left protocol offset nho = Some (protocol', offset', nho') \<Longrightarrow>
   4 dvd offset \<Longrightarrow> offset \<le> length p \<Longrightarrow> offset \<le> 512 \<Longrightarrow> nho < offset \<Longrightarrow>
   4 dvd offset' \<and> offset \<le> offset' \<and> offset' \<le> length p \<and> offset' \<le> 512 \<and> nho' < offset' \<and>
   \<not> extension_protocol protocol' \<and> (offset' = offset \<longrightarrow> protocol' = protocol \<and> nho' = nho)"
proof (induction p left protocol offset nho rule: extension_walk.induct)
  case (1 p left protocol offset nho)
  show ?case
  proof (cases "extension_protocol protocol")
    case False
    then show ?thesis
      using 1(2-) by (simp add: extension_walk.simps [of p left])
  next
    case True
    define len where "len = extension_length p protocol offset"
    from True 1(2) obtain left' where left: "left = Suc left'"
      and ok: "offset + 2 \<le> length p" "8 \<le> len" "offset + len \<le> length p" "offset + len \<le> 512"
      and walk: "extension_walk p left' (p ! offset) (offset + len) offset = Some (protocol', offset', nho')"
      by (auto simp: extension_walk.simps [of p left] len_def Let_def split: nat.splits if_splits)
    have "4 dvd offset' \<and> offset + len \<le> offset' \<and> offset' \<le> length p \<and> offset' \<le> 512 \<and> nho' < offset' \<and>
        \<not> extension_protocol protocol'"
      using 1(1) [OF _ left _ refl, folded len_def] True ok walk 1(3) extension_length_dvd
      by (simp add: len_def dvd_add)
    with ok show ?thesis by simp
  qed
qed

lemma ipv6_transport_bounds:
  assumes "ch_ip_stack_ipv6_transport p = Some (protocol, offset)"
  shows "4 dvd offset" "40 \<le> offset" "offset \<le> length p" "offset \<le> 512" "\<not> extension_protocol protocol"
    "protocol \<noteq> 44"
proof -
  obtain nho where w: "extension_walk p 16 (p ! 6) 40 6 = Some (protocol, offset, nho)"
    and ok: "40 \<le> length p" "protocol \<noteq> 44"
    using assms by (auto simp: ch_ip_stack_ipv6_transport_def split: if_splits option.splits)
  from extension_walk_bounds [OF w] ok
  show "4 dvd offset" "40 \<le> offset" "offset \<le> length p" "offset \<le> 512" "\<not> extension_protocol protocol"
    "protocol \<noteq> 44"
    by simp_all
qed

section \<open>UDP input\<close>

record udp_datagram =
  ud_source :: "byte list"
  ud_source_port :: nat
  ud_target :: "byte list"
  ud_target_port :: nat
  ud_payload :: "byte list"

text \<open>
  The checks of \<^verbatim>\<open>ch_ip_stack_handle_ipv4_udp\<close> and \<^verbatim>\<open>ch_ip_stack_handle_ipv6_udp\<close> up to the call of
  \<^verbatim>\<open>ch_ip_stack_handle_udp_payload\<close>: \<open>Inr None\<close> is a packet that is not handled here, \<open>Inr (Some d)\<close> the
  datagram handed on.  \<open>local\<close> is the address of the interface.
\<close>

definition ch_ip_stack_handle_ipv4_udp :: "byte list \<Rightarrow> byte list \<Rightarrow> udp_datagram option result" where
  "ch_ip_stack_handle_ipv4_udp local p =
     (if p ! 9 \<noteq> 17 \<or> sub_bytes p 16 4 = local then Inr None
      else
        let h = ipv4_header_length p in
        if h < 20 \<or> length p < h + 8 then Inl CH_ERROR_PARSE
        else if ch_ip_stack_read_u16 p 6 mod 0x4000 \<noteq> 0 then Inl CH_ERROR_UNSUPPORTED
        else
          let udp_length = ch_ip_stack_read_u16 p (h + 4) in
          if udp_length < 8 \<or> h + udp_length \<noteq> length p then Inl CH_ERROR_PARSE
          else if ch_ip_stack_read_u16 p (h + 6) \<noteq> 0 \<and> ch_ip_stack_udp_checksum_ipv4 p \<noteq> 0
          then Inl CH_ERROR_PARSE
          else Inr (Some \<lparr>ud_source = sub_bytes p 12 4, ud_source_port = ch_ip_stack_read_u16 p h,
                 ud_target = sub_bytes p 16 4, ud_target_port = ch_ip_stack_read_u16 p (h + 2),
                 ud_payload = sub_bytes p (h + 8) (udp_length - 8)\<rparr>))"

definition ch_ip_stack_handle_ipv6_udp :: "byte list \<Rightarrow> byte list \<Rightarrow> udp_datagram option result" where
  "ch_ip_stack_handle_ipv6_udp local p =
     (case ch_ip_stack_ipv6_transport p of
        None \<Rightarrow> Inl CH_ERROR_PARSE
      | Some (protocol, h) \<Rightarrow>
          if protocol \<noteq> 17 \<or> sub_bytes p 24 16 = local then Inr None
          else if length p < h + 8 then Inl CH_ERROR_PARSE
          else
            let udp_length = ch_ip_stack_read_u16 p (h + 4) in
            if udp_length < 8 \<or> h + udp_length \<noteq> length p \<or> ch_ip_stack_read_u16 p (h + 6) = 0
            then Inl CH_ERROR_PARSE
            else if ch_ip_stack_udp_checksum_ipv6 p \<noteq> 0 then Inl CH_ERROR_PARSE
            else Inr (Some \<lparr>ud_source = sub_bytes p 8 16, ud_source_port = ch_ip_stack_read_u16 p h,
                   ud_target = sub_bytes p 24 16, ud_target_port = ch_ip_stack_read_u16 p (h + 2),
                   ud_payload = sub_bytes p (h + 8) (udp_length - 8)\<rparr>))"

definition ch_ip_stack_handle_udp_input ::
  "byte list \<Rightarrow> byte list \<Rightarrow> byte list \<Rightarrow> udp_datagram option result" where
  "ch_ip_stack_handle_udp_input local4 local6 p =
     (if drop_bit 4 (p ! 0) = 4 then ch_ip_stack_handle_ipv4_udp local4 p
      else ch_ip_stack_handle_ipv6_udp local6 p)"

section \<open>Properties of the checksum code\<close>

text \<open>C12: Recomputing the checksums of an IPv4 packet makes both verify: the header sums to zero and, when
  the packet carries a complete TCP header, so does the TCP segment with its pseudo header; no byte
  outside the two checksum fields changes.\<close>

theorem ipv4_checksums_verify:
  assumes "20 \<le> ipv4_header_length p" "ipv4_header_length p \<le> length p" "length p \<le> 65535"
  defines "h \<equiv> ipv4_header_length p" and "q \<equiv> ch_ip_stack_ipv4_checksums p"
  shows "length q = length p \<and> ch_ip_stack_checksum (take h q) = 0 \<and>
    (p ! 9 = 6 \<and> h + 20 \<le> length p \<longrightarrow> ch_ip_stack_checksum_finish (transport_sum4 q 6 h) = 0) \<and>
    (\<forall>i. i \<notin> {10, 11, h + 16, h + 17} \<longrightarrow> q ! i = p ! i)"
proof -
  define z where "z = p[10 := 0, 11 := 0]"
  define r where "r = ipv4_header_checksum p h"
  have h: "20 \<le> h" "h \<le> length p" "even h"
    using assms by (auto simp: h_def ipv4_header_length_def)
  have r: "r = ch_ip_stack_write_u16 z 10 (ch_ip_stack_checksum (take h z))"
    by (simp add: r_def ipv4_header_checksum_def z_def Let_def)
  have "ch_ip_stack_read_u16 z 10 = 0"
    unfolding z_def using h by (intro read_zeroed) auto
  then have hr: "ch_ip_stack_checksum (take h r) = 0"
    unfolding r using h assms(3) by (intro header_checksum_verifies) (auto simp: z_def)
  have len: "length r = length p"
    by (simp add: r z_def)
  have same: "r ! i = p ! i" if "i \<notin> {10, 11}" for i
    using that by (simp add: r z_def nth_write_u16)
  show ?thesis
  proof (cases "p ! 9 = 6 \<and> h + 20 \<le> length p")
    case False
    then have "q = r"
      using h same [of 9] len by (auto simp: q_def ch_ip_stack_ipv4_checksums_def h_def r_def Let_def)
    with False hr len same show ?thesis by auto
  next
    case True
    define y where "y = r[h + 16 := 0, h + 17 := 0]"
    have q: "q = ch_ip_stack_write_u16 y (h + 16) (ch_ip_stack_checksum_finish (transport_sum4 y 6 h))"
      using h same [of 9] len True
      by (auto simp: q_def ch_ip_stack_ipv4_checksums_def h_def r_def y_def Let_def)
    have "ch_ip_stack_read_u16 y (h + 16) = 0"
      unfolding y_def using True len by (intro read_zeroed) auto
    then have "ch_ip_stack_checksum_finish (transport_sum4 q 6 h) = 0"
      unfolding q using True len h assms(3)
      by (intro transport_checksum_verifies(1)) (auto simp: y_def fills_def)
    moreover have "take h q = take h r"
      by (simp add: q take_write_u16_cancel y_def)
    moreover have "q ! i = p ! i" if "i \<notin> {10, 11, h + 16, h + 17}" for i
      using that same [of i] by (simp add: q nth_write_u16 y_def)
    moreover have "length q = length p"
      by (simp add: q y_def len)
    ultimately show ?thesis
      using hr by simp
  qed
qed

definition sample_tcp4 :: "byte list" where
  "sample_tcp4 = [0x45, 0, 0, 40, 0, 1, 0x40, 0, 64, 6, 0xaa, 0xbb, 10, 0, 0, 1, 10, 0, 0, 2] @
     [0x1f, 0x90, 0, 80, 0, 0, 0, 1, 0, 0, 0, 0, 0x50, 2, 0xff, 0xff, 0x12, 0x34, 0, 0]"

theorem ipv4_checksums_verify_witness:
  "ch_ip_stack_checksum (take 20 (ch_ip_stack_ipv4_checksums sample_tcp4)) = 0 \<and>
   ch_ip_stack_checksum_finish (transport_sum4 (ch_ip_stack_ipv4_checksums sample_tcp4) 6 20) = 0"
proof -
  have "ipv4_header_length sample_tcp4 = 20" "length sample_tcp4 = 40" "sample_tcp4 ! 9 = 6"
    by (simp_all add: sample_tcp4_def ipv4_header_length_def)
  then show ?thesis
    using ipv4_checksums_verify [of sample_tcp4] by simp
qed

text \<open>Recomputing the TCP checksum of an IPv6 packet behind its extension headers makes the segment
  verify with its pseudo header.\<close>

theorem ipv6_tcp_checksum_verifies:
  assumes "ch_ip_stack_ipv6_transport p = Some (6, h)" "h + 20 \<le> length p" "length p \<le> 65535"
  shows "ch_ip_stack_checksum_finish (transport_sum6 (ch_ip_stack_ipv6_tcp_checksum p) 6 h) = 0"
proof -
  define y where "y = p[h + 16 := 0, h + 17 := 0]"
  have "ch_ip_stack_ipv6_tcp_checksum p =
      ch_ip_stack_write_u16 y (h + 16) (ch_ip_stack_checksum_finish (transport_sum6 y 6 h))"
    using assms by (simp add: ch_ip_stack_ipv6_tcp_checksum_def y_def Let_def)
  moreover have "ch_ip_stack_read_u16 y (h + 16) = 0"
    unfolding y_def using assms(2) by (intro read_zeroed) auto
  ultimately show ?thesis
    using assms ipv6_transport_bounds(2) [OF assms(1)]
    by (auto intro!: transport_checksum_verifies(2) simp: y_def fills_def)
qed

definition sample_tcp6 :: "byte list" where
  "sample_tcp6 = [0x60, 0, 0, 0, 0, 28, 60, 64] @ replicate 15 0 @ [1] @ replicate 15 0 @ [2] @
     [6, 0, 1, 4, 0, 0, 0, 0] @ [0x1f, 0x90, 0, 80, 0, 0, 0, 1, 0, 0, 0, 0, 0x50, 2, 0xff, 0xff, 0x12, 0x34, 0, 0]"

lemma sample_tcp6_transport: "ch_ip_stack_ipv6_transport sample_tcp6 = Some (6, 48)"
  by code_simp

theorem ipv6_tcp_checksum_verifies_witness:
  "ch_ip_stack_checksum_finish (transport_sum6 (ch_ip_stack_ipv6_tcp_checksum sample_tcp6) 6 48) = 0"
  by (rule ipv6_tcp_checksum_verifies [OF sample_tcp6_transport]) (simp_all add: sample_tcp6_def)

text \<open>The walk over the IPv6 extension headers stays inside the packet: a transport offset that is
  found lies behind the fixed header, within the packet and within 512 bytes, on a 4-byte boundary, and
  the protocol there is neither an extension header nor a fragment.\<close>

theorem ipv6_transport_in_bounds:
  assumes "ch_ip_stack_ipv6_transport p = Some (protocol, offset)"
  shows "40 \<le> offset \<and> offset \<le> length p \<and> offset \<le> 512 \<and> 4 dvd offset \<and>
    \<not> extension_protocol protocol \<and> protocol \<noteq> 44"
  using ipv6_transport_bounds [OF assms] by simp

theorem ipv6_transport_in_bounds_witness:
  "40 \<le> (48 :: nat) \<and> (48 :: nat) \<le> length sample_tcp6 \<and> \<not> extension_protocol 6"
  using ipv6_transport_in_bounds [OF sample_tcp6_transport] by simp

section \<open>Emitted datagrams\<close>

lemma length_put [simp]: "i + length bs \<le> length p \<Longrightarrow> length (put p i bs) = length p"
  by (simp add: put_def)

lemma nth_put:
  "i + length bs \<le> length p \<Longrightarrow>
   put p i bs ! j = (if i \<le> j \<and> j < i + length bs then bs ! (j - i) else p ! j)"
  by (auto simp: put_def nth_append)

lemma sub_bytes_put': "length bs = len \<Longrightarrow> i + len \<le> length p \<Longrightarrow> sub_bytes (put p i bs) i len = bs"
  by (auto simp: put_def sub_bytes_def)

lemma sub_bytes_put_other:
  assumes "i + length bs \<le> length p" "j + len \<le> i \<or> i + length bs \<le> j" "j + len \<le> length p"
  shows "sub_bytes (put p i bs) j len = sub_bytes p j len"
  by (rule nth_equalityI) (use assms in \<open>auto simp: sub_bytes_def nth_put\<close>)

lemma read_put:
  "i + length bs \<le> length p \<Longrightarrow> j + 1 < i \<or> i + length bs \<le> j \<Longrightarrow>
   ch_ip_stack_read_u16 (put p i bs) j = ch_ip_stack_read_u16 p j"
  by (auto simp: ch_ip_stack_read_u16_def nth_put)

lemma read_update:
  "j \<noteq> i \<Longrightarrow> j + 1 \<noteq> i \<Longrightarrow> ch_ip_stack_read_u16 (p[i := b]) j = ch_ip_stack_read_u16 p j"
  by (simp add: ch_ip_stack_read_u16_def)

lemma read_replicate: "j + 1 < n \<Longrightarrow> ch_ip_stack_read_u16 (replicate n 0) j = 0"
  by (simp add: ch_ip_stack_read_u16_def)

lemmas packet_reads =
  nth_write_u16 nth_put read_put read_update read_replicate read_write_u16 read_write_u16_other
  sub_bytes_put' sub_bytes_put_other sub_bytes_write_u16

text \<open>The packet before the UDP checksum is filled in.\<close>

definition udp_response_body :: "nat \<Rightarrow> family \<Rightarrow> byte list \<Rightarrow> nat \<Rightarrow> byte list \<Rightarrow> nat \<Rightarrow> byte list \<Rightarrow> byte list" where
  "udp_response_body ident f remote_address remote_port client_address client_port payload =
     (let h = (case f of AF_INET6 \<Rightarrow> 40 | AF_INET \<Rightarrow> 20);
          p = udp_response_blank f remote_address client_address (length payload) ident;
          p = ch_ip_stack_write_u16 p h remote_port;
          p = ch_ip_stack_write_u16 p (h + 2) client_port;
          p = ch_ip_stack_write_u16 p (h + 4) (8 + length payload)
      in put p (h + 8) payload)"

lemma sub_bytes_update: "i < start \<Longrightarrow> sub_bytes (p[i := b]) start len = sub_bytes p start len"
  by (simp add: sub_bytes_def)

lemma udp_body4:
  fixes ident :: nat
  assumes "length remote = 4" "length client = 4" "rp < 65536" "cp < 65536" "length payload \<le> 65507"
  defines "p \<equiv> udp_response_body ident AF_INET remote rp client cp payload"
  shows "length p = 28 + length payload" "p ! 0 = 0x45" "p ! 9 = 17"
    "ch_ip_stack_read_u16 p 2 = 28 + length payload" "ch_ip_stack_read_u16 p 6 = 0x4000"
    "ch_ip_stack_read_u16 p 10 = 0" "sub_bytes p 12 4 = remote" "sub_bytes p 16 4 = client"
    "ch_ip_stack_read_u16 p 20 = rp" "ch_ip_stack_read_u16 p 22 = cp"
    "ch_ip_stack_read_u16 p 24 = 8 + length payload" "ch_ip_stack_read_u16 p 26 = 0"
    "sub_bytes p 28 (length payload) = payload"
proof -
  show "ch_ip_stack_read_u16 p 6 = 0x4000"
    using assms(1-5)
    by (simp add: p_def udp_response_body_def udp_response_blank_def Let_def packet_reads)
      (simp add: ch_ip_stack_read_u16_def nth_write_u16)
qed (use assms(1-5) in \<open>simp_all add: p_def udp_response_body_def udp_response_blank_def Let_def packet_reads\<close>)

lemma udp_body6:
  fixes ident :: nat
  assumes "length remote = 16" "length client = 16" "rp < 65536" "cp < 65536" "length payload \<le> 65487"
  defines "p \<equiv> udp_response_body ident AF_INET6 remote rp client cp payload"
  shows "length p = 48 + length payload" "p ! 0 = 0x60" "p ! 6 = 17"
    "ch_ip_stack_read_u16 p 4 = 8 + length payload"
    "sub_bytes p 8 16 = remote" "sub_bytes p 24 16 = client"
    "ch_ip_stack_read_u16 p 40 = rp" "ch_ip_stack_read_u16 p 42 = cp"
    "ch_ip_stack_read_u16 p 44 = 8 + length payload" "ch_ip_stack_read_u16 p 46 = 0"
    "sub_bytes p 48 (length payload) = payload"
  using assms(1-5)
  by (simp_all add: p_def udp_response_body_def udp_response_blank_def Let_def packet_reads)

definition nonzero_checksum :: "nat \<Rightarrow> nat" where
  "nonzero_checksum c = (if c = 0 then 65535 else c)"

lemma fills_nonzero: "fills (nonzero_checksum (ch_ip_stack_checksum_finish s)) s"
  by (simp add: fills_def nonzero_checksum_def)

lemma nonzero_checksum_less: "nonzero_checksum (ch_ip_stack_checksum_finish s) < 65536"
  using fills_less [OF fills_nonzero] .

lemma nonzero_checksum_pos [simp]: "0 < nonzero_checksum c"
  by (simp add: nonzero_checksum_def)

lemma emit_eq4:
  "ch_ip_stack_emit_udp_response mtu ident AF_INET remote rp client cp payload = Inr q \<Longrightarrow>
   length payload \<le> 65507 \<and>
   (\<exists>b. b = udp_response_body ident AF_INET remote rp client cp payload \<and>
     (\<exists>p. p = ch_ip_stack_write_u16 b 26 (nonzero_checksum (ch_ip_stack_udp_checksum_ipv4 b)) \<and>
       q = ch_ip_stack_write_u16 p 10 (ch_ip_stack_checksum (take 20 p))))"
  by (auto simp: ch_ip_stack_emit_udp_response_def udp_response_body_def nonzero_checksum_def Let_def
      split: if_splits)

lemma emit_eq6:
  "ch_ip_stack_emit_udp_response mtu ident AF_INET6 remote rp client cp payload = Inr q \<Longrightarrow>
   length payload \<le> 65487 \<and>
   (\<exists>b. b = udp_response_body ident AF_INET6 remote rp client cp payload \<and>
     q = ch_ip_stack_write_u16 b 46 (nonzero_checksum (ch_ip_stack_udp_checksum_ipv6 b)))"
  by (auto simp: ch_ip_stack_emit_udp_response_def udp_response_body_def nonzero_checksum_def Let_def
      split: if_splits)

lemma header_length_0x45: "p ! 0 = 0x45 \<Longrightarrow> ipv4_header_length p = 20"
  by (simp add: ipv4_header_length_def)

lemma emit_accepted4:
  assumes "length remote = 4" "length client = 4" "rp < 65536" "cp < 65536" "client \<noteq> local"
    and emit: "ch_ip_stack_emit_udp_response mtu ident AF_INET remote rp client cp payload = Inr q"
  shows "ch_ip_stack_handle_ipv4_udp local q = Inr (Some \<lparr>ud_source = remote, ud_source_port = rp,
      ud_target = client, ud_target_port = cp, ud_payload = payload\<rparr>)"
    "ch_ip_stack_checksum (take 20 q) = 0"
proof -
  from emit_eq4 [OF emit] obtain b p where n: "length payload \<le> 65507"
    and b: "b = udp_response_body ident AF_INET remote rp client cp payload"
    and p: "p = ch_ip_stack_write_u16 b 26 (nonzero_checksum (ch_ip_stack_udp_checksum_ipv4 b))"
    and q: "q = ch_ip_stack_write_u16 p 10 (ch_ip_stack_checksum (take 20 p))"
    by blast
  note B = udp_body4 [OF assms(1-4) n, where ident = ident, folded b]
  have c: "ch_ip_stack_udp_checksum_ipv4 b = ch_ip_stack_checksum_finish (transport_sum4 b 17 20)"
    using B(1,2) by (simp add: ch_ip_stack_udp_checksum_ipv4_def header_length_0x45)
  define c where "c = nonzero_checksum (ch_ip_stack_udp_checksum_ipv4 b)"
  have c16: "c < 65536" and fc: "fills c (transport_sum4 b 17 20)"
    using nonzero_checksum_less fills_nonzero by (simp_all add: c c_def)
  have "ch_ip_stack_checksum_finish (transport_sum4 (ch_ip_stack_write_u16 b (20 + 6) c) 17 20) = 0"
    by (rule transport_checksum_verifies(1)) (use B n fc in auto)
  moreover have "transport_sum4 q 17 20 = transport_sum4 p 17 20"
    by (simp add: q transport_sum4_def drop_write_u16_cancel sub_bytes_write_u16)
  moreover have q0: "q ! 0 = 0x45" "length q = 28 + length payload"
    using B by (simp_all add: q p nth_write_u16)
  ultimately have udp: "ch_ip_stack_udp_checksum_ipv4 q = 0"
    by (simp add: ch_ip_stack_udp_checksum_ipv4_def header_length_0x45 p c_def)
  show "ch_ip_stack_handle_ipv4_udp local q = Inr (Some \<lparr>ud_source = remote, ud_source_port = rp,
      ud_target = client, ud_target_port = cp, ud_payload = payload\<rparr>)"
    using B assms(5) udp q0 c16
    by (simp add: ch_ip_stack_handle_ipv4_udp_def header_length_0x45 Let_def)
      (simp add: q p c_def packet_reads)
  have "ch_ip_stack_read_u16 p 10 = 0"
    using B by (simp add: p packet_reads)
  then show "ch_ip_stack_checksum (take 20 q) = 0"
    unfolding q using B n by (intro header_checksum_verifies) (auto simp: p)
qed

lemma transport6_plain:
  "40 \<le> length p \<Longrightarrow> p ! 0 = 0x60 \<Longrightarrow> ch_ip_stack_read_u16 p 4 = length p - 40 \<Longrightarrow> p ! 6 = 17 \<Longrightarrow>
   ch_ip_stack_ipv6_transport p = Some (17, 40)"
  by (simp add: ch_ip_stack_ipv6_transport_def extension_walk.simps extension_protocol_def)

lemma emit_accepted6:
  assumes "length remote = 16" "length client = 16" "rp < 65536" "cp < 65536" "client \<noteq> local"
    and emit: "ch_ip_stack_emit_udp_response mtu ident AF_INET6 remote rp client cp payload = Inr q"
  shows "ch_ip_stack_handle_ipv6_udp local q = Inr (Some \<lparr>ud_source = remote, ud_source_port = rp,
      ud_target = client, ud_target_port = cp, ud_payload = payload\<rparr>)"
proof -
  from emit_eq6 [OF emit] obtain b where n: "length payload \<le> 65487"
    and b: "b = udp_response_body ident AF_INET6 remote rp client cp payload"
    and q: "q = ch_ip_stack_write_u16 b 46 (nonzero_checksum (ch_ip_stack_udp_checksum_ipv6 b))"
    by blast
  note B = udp_body6 [OF assms(1-4) n, where ident = ident, folded b]
  define c where "c = nonzero_checksum (ch_ip_stack_udp_checksum_ipv6 b)"
  have tb: "ch_ip_stack_ipv6_transport b = Some (17, 40)"
    using B by (intro transport6_plain) auto
  have tq: "ch_ip_stack_ipv6_transport q = Some (17, 40)"
    using B by (intro transport6_plain) (auto simp: q packet_reads)
  have c16: "c < 65536" and fc: "fills c (transport_sum6 b 17 40)"
    using nonzero_checksum_less fills_nonzero B(1)
    by (simp_all add: c_def ch_ip_stack_udp_checksum_ipv6_def tb)
  have "ch_ip_stack_checksum_finish (transport_sum6 (ch_ip_stack_write_u16 b (40 + 6) c) 17 40) = 0"
    by (rule transport_checksum_verifies(2)) (use B n fc in auto)
  then have "ch_ip_stack_udp_checksum_ipv6 q = 0"
    using B(1) by (simp add: ch_ip_stack_udp_checksum_ipv6_def tq) (simp add: q c_def)
  then show ?thesis
    using B assms(5) c16 tq
    by (simp add: ch_ip_stack_handle_ipv6_udp_def Let_def) (simp add: q c_def packet_reads)
qed

lemma emit_accepted:
  assumes "length remote = ch_ip_stack_address_length f" "length client = ch_ip_stack_address_length f"
    and "rp < 65536" "cp < 65536" "client \<noteq> local4" "client \<noteq> local6"
    and "ch_ip_stack_emit_udp_response mtu ident f remote rp client cp payload = Inr q"
  shows "ch_ip_stack_handle_udp_input local4 local6 q = Inr (Some \<lparr>ud_source = remote,
      ud_source_port = rp, ud_target = client, ud_target_port = cp, ud_payload = payload\<rparr>) \<and>
    (f = AF_INET \<longrightarrow> ch_ip_stack_checksum (take 20 q) = 0)"
proof (cases f)
  case AF_INET
  have "q ! 0 = 0x45"
    using emit_eq4 [of mtu ident remote rp client cp payload q] assms AF_INET
      udp_body4(2) [of remote client rp cp payload ident]
    by (auto simp: ch_ip_stack_address_length_def nth_write_u16)
  then show ?thesis
    using assms AF_INET emit_accepted4 [of remote client rp cp local4 mtu ident payload q]
    by (simp add: ch_ip_stack_address_length_def ch_ip_stack_handle_udp_input_def)
next
  case AF_INET6
  have "q ! 0 = 0x60"
    using emit_eq6 [of mtu ident remote rp client cp payload q] assms AF_INET6
      udp_body6(2) [of remote client rp cp payload ident]
    by (auto simp: ch_ip_stack_address_length_def nth_write_u16)
  then show ?thesis
    using assms AF_INET6 emit_accepted6 [of remote client rp cp local6 mtu ident payload q]
    by (simp add: ch_ip_stack_address_length_def ch_ip_stack_handle_udp_input_def)
qed

text \<open>C13: Every UDP datagram the stack emits is one its own input path accepts: parsed back, it gives the
  same addresses, ports and payload, its UDP checksum verifies, and on IPv4 so does the header.\<close>

theorem udp_response_round_trip:
  assumes "length remote = ch_ip_stack_address_length f" "length client = ch_ip_stack_address_length f"
    and "rp < 65536" "cp < 65536" "client \<noteq> local4" "client \<noteq> local6"
    and "ch_ip_stack_emit_udp_response mtu ident f remote rp client cp payload = Inr q"
  shows "ch_ip_stack_handle_udp_input local4 local6 q = Inr (Some \<lparr>ud_source = remote,
      ud_source_port = rp, ud_target = client, ud_target_port = cp, ud_payload = payload\<rparr>) \<and>
    (f = AF_INET \<longrightarrow> ch_ip_stack_checksum (take 20 q) = 0)"
  using assms by (rule emit_accepted)

theorem udp_response_round_trip_witness:
  "\<exists>q. ch_ip_stack_emit_udp_response 1500 7 AF_INET [8, 8, 8, 8] 53 [10, 0, 0, 2] 4000 [1, 2, 3] = Inr q \<and>
     ch_ip_stack_handle_udp_input [10, 0, 0, 1] [] q = Inr (Some \<lparr>ud_source = [8, 8, 8, 8],
       ud_source_port = 53, ud_target = [10, 0, 0, 2], ud_target_port = 4000, ud_payload = [1, 2, 3]\<rparr>)"
proof -
  obtain q where q: "ch_ip_stack_emit_udp_response 1500 7 AF_INET [8, 8, 8, 8] 53 [10, 0, 0, 2] 4000 [1, 2, 3] = Inr q"
    by (simp add: ch_ip_stack_emit_udp_response_def Let_def)
  with udp_response_round_trip [OF _ _ _ _ _ _ q, of "[10, 0, 0, 1]" "[]"] show ?thesis
    by (simp add: ch_ip_stack_address_length_def)
qed

end
