(* ===== verification/Ip_Fragments.thy ===== *)
theory Ip_Fragments
  imports Ip_Packets
begin

text \<open>
  Fragment reassembly of \<^verbatim>\<open>src/native/src/ip_stack.c\<close>: the table of partial datagrams, the coverage bitmap,
  storing a fragment, the time-out sweep, and the front end that recognises IPv4 and IPv6 fragments.
  The payload buffer of a flow comes from \<^verbatim>\<open>malloc\<close>: its initial contents are a parameter (\<open>junk\<close>) of the
  operation that creates the flow.  \<open>now\<close> is the value of \<^verbatim>\<open>sys_now\<close>.
\<close>

unbundle bit_operations_syntax

section \<open>State\<close>

record fragment_flow =
  ff_family :: family
  ff_source :: "byte list"
  ff_target :: "byte list"
  ff_ident :: nat
  ff_protocol :: byte
  ff_header :: "byte list"
  ff_next_header_offset :: nat
  ff_data :: "nat \<Rightarrow> byte"
  ff_coverage :: "nat \<Rightarrow> byte"
  ff_total :: nat
  ff_total_known :: bool
  ff_covered :: nat
  ff_have_first :: bool
  ff_dead :: bool
  ff_last_activity :: "32 word"

record fragment_table =
  ft_flows :: "fragment_flow list"
  ft_count :: nat

text \<open>The arguments of \<^verbatim>\<open>ch_ip_stack_fragment_store\<close>.\<close>

record fragment =
  fg_family :: family
  fg_source :: "byte list"
  fg_target :: "byte list"
  fg_ident :: nat
  fg_protocol :: byte
  fg_header :: "byte list"
  fg_next_header_offset :: nat
  fg_offset :: nat
  fg_bytes :: "byte list"
  fg_more :: bool

definition fg_end :: "fragment \<Rightarrow> nat" where
  "fg_end fg = fg_offset fg + length (fg_bytes fg)"

section \<open>Coverage\<close>

definition ch_ip_stack_fragment_covered :: "(nat \<Rightarrow> byte) \<Rightarrow> nat \<Rightarrow> bool" where
  "ch_ip_stack_fragment_covered coverage i \<longleftrightarrow> coverage (i div 8) AND push_bit (i mod 8) 1 \<noteq> 0"

definition ch_ip_stack_fragment_mark :: "(nat \<Rightarrow> byte) \<Rightarrow> nat \<Rightarrow> (nat \<Rightarrow> byte)" where
  "ch_ip_stack_fragment_mark coverage i =
     coverage(i div 8 := coverage (i div 8) OR push_bit (i mod 8) 1)"

section \<open>The table\<close>

definition flow_matches :: "fragment \<Rightarrow> fragment_flow \<Rightarrow> bool" where
  "flow_matches fg f \<longleftrightarrow> \<not> ff_dead f \<and> ff_family f = fg_family fg \<and> ff_ident f = fg_ident fg \<and>
     ff_protocol f = fg_protocol fg \<and> ff_source f = fg_source fg \<and> ff_target f = fg_target fg"

fun ch_ip_stack_fragment_find :: "fragment \<Rightarrow> fragment_flow list \<Rightarrow> nat option" where
  "ch_ip_stack_fragment_find fg [] = None"
| "ch_ip_stack_fragment_find fg (f # fs) =
     (if flow_matches fg f then Some 0
      else (case ch_ip_stack_fragment_find fg fs of None \<Rightarrow> None | Some i \<Rightarrow> Some (Suc i)))"

definition ch_ip_stack_fragment_sweep :: "fragment_table \<Rightarrow> fragment_table" where
  "ch_ip_stack_fragment_sweep t =
     t\<lparr>ft_flows := filter (\<lambda>f. \<not> ff_dead f) (ft_flows t),
       ft_count := ft_count t - length (filter ff_dead (ft_flows t))\<rparr>"

definition new_flow :: "(nat \<Rightarrow> byte) \<Rightarrow> 32 word \<Rightarrow> fragment \<Rightarrow> fragment_flow" where
  "new_flow junk now fg =
     \<lparr>ff_family = fg_family fg, ff_source = fg_source fg, ff_target = fg_target fg,
      ff_ident = fg_ident fg, ff_protocol = fg_protocol fg, ff_header = [],
      ff_next_header_offset = 0, ff_data = junk, ff_coverage = (\<lambda>_. 0), ff_total = 0,
      ff_total_known = False, ff_covered = 0, ff_have_first = False, ff_dead = False,
      ff_last_activity = now\<rparr>"

definition ch_ip_stack_fragment_create ::
  "(nat \<Rightarrow> byte) \<Rightarrow> 32 word \<Rightarrow> fragment \<Rightarrow> fragment_table \<Rightarrow> fragment_table result" where
  "ch_ip_stack_fragment_create junk now fg t =
     (if 64 \<le> ft_count t then Inl CH_ERROR_INVALID_STATE
      else Inr (t\<lparr>ft_flows := new_flow junk now fg # ft_flows t, ft_count := ft_count t + 1\<rparr>))"

section \<open>Storing a fragment\<close>

text \<open>The packet written for a complete datagram.\<close>

definition reassembled :: "family \<Rightarrow> byte list \<Rightarrow> nat \<Rightarrow> byte \<Rightarrow> byte list \<Rightarrow> byte list result" where
  "reassembled family header next_header_offset protocol payload =
     (let p = header @ payload in
      case family of
        AF_INET \<Rightarrow>
          (let p = ch_ip_stack_write_u16 p 2 (length header + length payload);
               p = ch_ip_stack_write_u16 p 6 (if bit (p ! 6) 6 then 0x4000 else 0);
               p = p[10 := 0, 11 := 0]
           in Inr (ch_ip_stack_write_u16 p 10 (ch_ip_stack_checksum (take (length header) p))))
      | AF_INET6 \<Rightarrow>
          if length header \<le> next_header_offset then Inl CH_ERROR_INTERNAL
          else Inr (ch_ip_stack_write_u16 (p[next_header_offset := protocol]) 4
                     (length header + length payload - 40)))"

definition answer_packet :: "byte list result \<Rightarrow> byte list option result" where
  "answer_packet r = bind_result r (\<lambda>p. Inr (Some p))"

text \<open>The body of \<^verbatim>\<open>ch_ip_stack_fragment_store\<close> once the flow is known: the flow after it, and what it
  answers (\<open>Inr None\<close> while fragments are missing).\<close>

definition fragment_accept ::
  "32 word \<Rightarrow> fragment \<Rightarrow> fragment_flow \<Rightarrow> fragment_flow \<times> byte list option result" where
  "fragment_accept now fg f =
     (if ff_total_known f \<and> ff_total f < fg_end fg \<or>
         \<not> fg_more fg \<and> ff_total_known f \<and> fg_end fg \<noteq> ff_total f
      then (f\<lparr>ff_dead := True\<rparr>, Inl CH_ERROR_PARSE)
      else if list_ex (ch_ip_stack_fragment_covered (ff_coverage f)) [fg_offset fg..<fg_end fg]
      then (f\<lparr>ff_dead := True\<rparr>, Inl CH_ERROR_PARSE)
      else
        let f = f\<lparr>ff_data := (\<lambda>i. if fg_offset fg \<le> i \<and> i < fg_end fg
                                   then fg_bytes fg ! (i - fg_offset fg) else ff_data f i),
                  ff_coverage := foldl ch_ip_stack_fragment_mark (ff_coverage f) [fg_offset fg..<fg_end fg],
                  ff_covered := ff_covered f + length (fg_bytes fg),
                  ff_last_activity := now\<rparr>
        in if fg_offset fg = 0 \<and> 512 < length (fg_header fg)
           then (f\<lparr>ff_dead := True\<rparr>, Inl CH_ERROR_PARSE)
           else
             let f = (if fg_offset fg = 0
                      then f\<lparr>ff_header := fg_header fg, ff_next_header_offset := fg_next_header_offset fg,
                             ff_have_first := True\<rparr>
                      else f)
             in if \<not> fg_more fg \<and> fg_end fg < ff_covered f
                then (f\<lparr>ff_dead := True\<rparr>, Inl CH_ERROR_PARSE)
                else
                  let f = (if \<not> fg_more fg then f\<lparr>ff_total := fg_end fg, ff_total_known := True\<rparr> else f)
                  in if \<not> ff_have_first f \<or> \<not> ff_total_known f \<or> ff_covered f \<noteq> ff_total f
                     then (f, Inr None)
                     else if 65535 < length (ff_header f) + ff_total f
                     then (f\<lparr>ff_dead := True\<rparr>, Inl CH_ERROR_PARSE)
                     else (f\<lparr>ff_dead := True\<rparr>,
                           answer_packet (reassembled (fg_family fg) (ff_header f)
                             (ff_next_header_offset f) (ff_protocol f) (map (ff_data f) [0..<ff_total f]))))"

definition ch_ip_stack_fragment_store ::
  "(nat \<Rightarrow> byte) \<Rightarrow> 32 word \<Rightarrow> fragment \<Rightarrow> fragment_table \<Rightarrow> fragment_table \<times> byte list option result" where
  "ch_ip_stack_fragment_store junk now fg t =
     (if 65535 < fg_offset fg \<or> 65535 - fg_offset fg < length (fg_bytes fg) \<or>
         fg_more fg \<and> (fg_bytes fg = [] \<or> length (fg_bytes fg) mod 8 \<noteq> 0)
      then (t, Inl CH_ERROR_PARSE)
      else
        (case (case ch_ip_stack_fragment_find fg (ft_flows t) of
                 Some i \<Rightarrow> Inr (t, i)
               | None \<Rightarrow> bind_result (ch_ip_stack_fragment_create junk now fg t) (\<lambda>t. Inr (t, 0)))
         of Inl e \<Rightarrow> (t, Inl e)
          | Inr (t, i) \<Rightarrow>
              (let (f, answer) = fragment_accept now fg (ft_flows t ! i);
                   t = t\<lparr>ft_flows := (ft_flows t)[i := f]\<rparr>
               in (if ff_dead f then ch_ip_stack_fragment_sweep t else t, answer))))"

text \<open>The fragment part of \<^verbatim>\<open>ch_ip_stack_tick\<close>.\<close>

definition fragment_tick :: "32 word \<Rightarrow> fragment_table \<Rightarrow> fragment_table" where
  "fragment_tick now t =
     ch_ip_stack_fragment_sweep
       (t\<lparr>ft_flows := map (\<lambda>f. if 30000 \<le> now - ff_last_activity f then f\<lparr>ff_dead := True\<rparr> else f)
            (ft_flows t)\<rparr>)"

section \<open>Packets from the tunnel\<close>

definition ch_ip_stack_prepare_input_packet ::
  "(nat \<Rightarrow> byte) \<Rightarrow> 32 word \<Rightarrow> byte list \<Rightarrow> fragment_table \<Rightarrow> fragment_table \<times> byte list option result" where
  "ch_ip_stack_prepare_input_packet junk now p t =
     (if drop_bit 4 (p ! 0) = 4 then
        (let h = ipv4_header_length p in
         if h < 20 \<or> length p < h \<or> ch_ip_stack_read_u16 p 2 \<noteq> length p \<or>
            ch_ip_stack_checksum (take h p) \<noteq> 0
         then (t, Inl CH_ERROR_PARSE)
         else
           let field = ch_ip_stack_read_u16 p 6;
               offset = field mod 0x2000 * 8;
               more = (field div 0x2000 mod 2 \<noteq> 0)
           in if offset = 0 \<and> \<not> more then (t, Inr (Some p))
              else ch_ip_stack_fragment_store junk now
                \<lparr>fg_family = AF_INET, fg_source = sub_bytes p 12 4, fg_target = sub_bytes p 16 4,
                 fg_ident = ch_ip_stack_read_u16 p 4, fg_protocol = p ! 9, fg_header = take h p,
                 fg_next_header_offset = 0, fg_offset = offset, fg_bytes = drop h p, fg_more = more\<rparr> t)
      else if length p < 40 \<or> ch_ip_stack_read_u16 p 4 \<noteq> length p - 40 then (t, Inl CH_ERROR_PARSE)
      else
        (case extension_walk p 16 (p ! 6) 40 6 of
           None \<Rightarrow> (t, Inl CH_ERROR_PARSE)
         | Some (next_header, cursor, next_header_offset) \<Rightarrow>
             if next_header \<noteq> 44 then (t, Inr (Some p))
             else if length p < cursor + 8 \<or> p ! (cursor + 1) \<noteq> 0 then (t, Inl CH_ERROR_PARSE)
             else
               let field = ch_ip_stack_read_u16 p (cursor + 2) in
               if field div 2 mod 4 \<noteq> 0 then (t, Inl CH_ERROR_PARSE)
               else ch_ip_stack_fragment_store junk now
                 \<lparr>fg_family = AF_INET6, fg_source = sub_bytes p 8 16, fg_target = sub_bytes p 24 16,
                  fg_ident = ch_ip_stack_read_u32 p (cursor + 4), fg_protocol = p ! cursor,
                  fg_header = take cursor p, fg_next_header_offset = next_header_offset,
                  fg_offset = field div 8 * 8, fg_bytes = drop (cursor + 8) p,
                  fg_more = (field mod 2 \<noteq> 0)\<rparr> t))"

section \<open>The bitmap is a set of offsets\<close>

lemma and_push_bit_1: "k < 8 \<Longrightarrow> (b AND push_bit k 1 \<noteq> (0 :: byte)) \<longleftrightarrow> bit b k"
  using bit_eq_iff [of "b AND push_bit k 1" 0] by (auto simp: bit_and_iff bit_exp_iff)

lemma covered_bit: "ch_ip_stack_fragment_covered c i \<longleftrightarrow> bit (c (i div 8)) (i mod 8)"
  unfolding ch_ip_stack_fragment_covered_def by (rule and_push_bit_1) simp

lemma covered_mark: "ch_ip_stack_fragment_covered (ch_ip_stack_fragment_mark c i) j \<longleftrightarrow>
  j = i \<or> ch_ip_stack_fragment_covered c j"
proof (cases "j div 8 = i div 8")
  case False
  then show ?thesis
    by (auto simp: covered_bit ch_ip_stack_fragment_mark_def)
next
  case True
  have "j mod 8 = i mod 8 \<longleftrightarrow> j = i"
    using True by (metis mult_div_mod_eq)
  moreover have "j mod 8 < 8" by simp
  ultimately show ?thesis
    using True
    by (simp add: covered_bit ch_ip_stack_fragment_mark_def bit_or_iff bit_exp_iff) auto
qed

definition covered_set :: "fragment_flow \<Rightarrow> nat set" where
  "covered_set f = {i. ch_ip_stack_fragment_covered (ff_coverage f) i}"

lemma covered_marks:
  "{i. ch_ip_stack_fragment_covered (foldl ch_ip_stack_fragment_mark c xs) i} =
   {i. ch_ip_stack_fragment_covered c i} \<union> set xs"
  by (induction xs arbitrary: c) (auto simp: covered_mark)

definition fg_range :: "fragment \<Rightarrow> nat set" where
  "fg_range fg = {fg_offset fg..<fg_end fg}"

lemma card_fg_range [simp]: "card (fg_range fg) = length (fg_bytes fg)" "finite (fg_range fg)"
  by (simp_all add: fg_range_def fg_end_def)

lemma list_ex_covered:
  "list_ex (ch_ip_stack_fragment_covered (ff_coverage f)) [fg_offset fg..<fg_end fg] \<longleftrightarrow>
   covered_set f \<inter> fg_range fg \<noteq> {}"
  by (auto simp: list_ex_iff covered_set_def fg_range_def)

section \<open>The table keeps its count\<close>

definition table_ok :: "fragment_table \<Rightarrow> bool" where
  "table_ok t \<longleftrightarrow> ft_count t = length (ft_flows t) \<and> ft_count t \<le> 64 \<and> (\<forall>f \<in> set (ft_flows t). \<not> ff_dead f)"

lemma sweep_ok:
  "ft_count t = length (ft_flows t) \<Longrightarrow> ft_count t \<le> 64 \<Longrightarrow> table_ok (ch_ip_stack_fragment_sweep t)"
  using sum_length_filter_compl [of ff_dead "ft_flows t"]
  by (auto simp: table_ok_def ch_ip_stack_fragment_sweep_def)

lemma find_Some:
  "ch_ip_stack_fragment_find fg fs = Some i \<Longrightarrow> i < length fs \<and> flow_matches fg (fs ! i)"
  by (induction fs arbitrary: i) (auto split: if_splits option.splits)

lemma find_None: "ch_ip_stack_fragment_find fg fs = None \<longleftrightarrow> (\<forall>f \<in> set fs. \<not> flow_matches fg f)"
  by (induction fs) (auto split: option.splits)

lemma store_table_ok:
  assumes "table_ok t"
  shows "table_ok (fst (ch_ip_stack_fragment_store junk now fg t))"
proof -
  have upd: "table_ok (if ff_dead f then ch_ip_stack_fragment_sweep (s\<lparr>ft_flows := (ft_flows s)[i := f]\<rparr>)
      else s\<lparr>ft_flows := (ft_flows s)[i := f]\<rparr>)" if "table_ok s" for s f i
  proof (cases "ff_dead f")
    case True
    have "table_ok (ch_ip_stack_fragment_sweep (s\<lparr>ft_flows := (ft_flows s)[i := f]\<rparr>))"
      using that by (intro sweep_ok) (auto simp: table_ok_def)
    with True show ?thesis by simp
  next
    case False
    with that show ?thesis
      by (auto simp: table_ok_def dest!: set_update_subset_insert [THEN subsetD])
  qed
  let ?t = "t\<lparr>ft_flows := new_flow junk now fg # ft_flows t, ft_count := ft_count t + 1\<rparr>"
  have new: "table_ok ?t" if "\<not> 64 \<le> ft_count t"
    using assms that by (simp add: table_ok_def new_flow_def)
  obtain f a where fa: "fragment_accept now fg (new_flow junk now fg) = (f, a)"
    by fastforce
  show ?thesis
  proof (cases "ch_ip_stack_fragment_find fg (ft_flows t)")
    case None
    then show ?thesis
      using assms upd [OF new, where i = 0 and f = f] fa
      by (auto simp: ch_ip_stack_fragment_store_def ch_ip_stack_fragment_create_def Let_def)
  next
    case (Some i)
    obtain g b where "fragment_accept now fg (ft_flows t ! i) = (g, b)"
      by fastforce
    with Some show ?thesis
      using assms upd [OF assms, where i = i and f = g]
      by (auto simp: ch_ip_stack_fragment_store_def Let_def)
  qed
qed

lemma tick_table_ok: "table_ok t \<Longrightarrow> table_ok (fragment_tick now t)"
  unfolding fragment_tick_def by (rule sweep_ok) (auto simp: table_ok_def)

lemma prepare_table_ok: "table_ok t \<Longrightarrow> table_ok (fst (ch_ip_stack_prepare_input_packet junk now p t))"
  using store_table_ok
  by (auto simp: ch_ip_stack_prepare_input_packet_def Let_def split: option.split)

section \<open>Reassembly of a datagram\<close>

text \<open>
  \<open>fragmentation H nho P frs\<close>: the fragments are slices of the payload \<open>P\<close> that cover it without overlap; all
  carry the same key, only the one that ends the payload has \<^verbatim>\<open>more\<close> clear, the others hold a positive
  multiple of 8 bytes, and the one at offset 0 brings the header \<open>H\<close>.
\<close>

definition same_key :: "fragment \<Rightarrow> fragment \<Rightarrow> bool" where
  "same_key a b \<longleftrightarrow> fg_family a = fg_family b \<and> fg_source a = fg_source b \<and> fg_target a = fg_target b \<and>
     fg_ident a = fg_ident b \<and> fg_protocol a = fg_protocol b"

definition slice_of :: "byte list \<Rightarrow> nat \<Rightarrow> byte list \<Rightarrow> fragment \<Rightarrow> bool" where
  "slice_of H nho P fg \<longleftrightarrow>
     fg_end fg \<le> length P \<and> fg_bytes fg = sub_bytes P (fg_offset fg) (length (fg_bytes fg)) \<and>
     fg_bytes fg \<noteq> [] \<and> (fg_more fg \<longleftrightarrow> fg_end fg \<noteq> length P) \<and>
     (fg_more fg \<longrightarrow> length (fg_bytes fg) mod 8 = 0) \<and>
     (fg_offset fg = 0 \<longrightarrow> fg_header fg = H \<and> fg_next_header_offset fg = nho)"

definition fragmentation :: "fragment \<Rightarrow> byte list \<Rightarrow> nat \<Rightarrow> byte list \<Rightarrow> fragment list \<Rightarrow> bool" where
  "fragmentation k H nho P frs \<longleftrightarrow>
     (\<forall>fg \<in> set frs. same_key k fg \<and> slice_of H nho P fg) \<and>
     sorted_wrt (\<lambda>a b. fg_range a \<inter> fg_range b = {}) frs \<and>
     (\<Union>fg \<in> set frs. fg_range fg) = {..<length P}"

text \<open>The flow after a fragment has been merged without a conflict.\<close>

definition merged :: "32 word \<Rightarrow> fragment \<Rightarrow> fragment_flow \<Rightarrow> fragment_flow" where
  "merged now fg f =
     f\<lparr>ff_data := (\<lambda>i. if fg_offset fg \<le> i \<and> i < fg_end fg
                        then fg_bytes fg ! (i - fg_offset fg) else ff_data f i),
       ff_coverage := foldl ch_ip_stack_fragment_mark (ff_coverage f) [fg_offset fg..<fg_end fg],
       ff_covered := ff_covered f + length (fg_bytes fg),
       ff_last_activity := now,
       ff_header := (if fg_offset fg = 0 then fg_header fg else ff_header f),
       ff_next_header_offset := (if fg_offset fg = 0 then fg_next_header_offset fg else ff_next_header_offset f),
       ff_have_first := (fg_offset fg = 0 \<or> ff_have_first f),
       ff_total := (if fg_more fg then ff_total f else fg_end fg),
       ff_total_known := (\<not> fg_more fg \<or> ff_total_known f)\<rparr>"

lemma fragment_accept_merged:
  assumes "ff_total_known f \<Longrightarrow> fg_end fg \<le> ff_total f"
    and "ff_total_known f \<Longrightarrow> \<not> fg_more fg \<Longrightarrow> fg_end fg = ff_total f"
    and "covered_set f \<inter> fg_range fg = {}"
    and "fg_offset fg = 0 \<Longrightarrow> length (fg_header fg) \<le> 512"
    and "\<not> fg_more fg \<Longrightarrow> ff_covered f + length (fg_bytes fg) \<le> fg_end fg"
  shows "fragment_accept now fg f =
    (let f = merged now fg f in
     if \<not> ff_have_first f \<or> \<not> ff_total_known f \<or> ff_covered f \<noteq> ff_total f then (f, Inr None)
     else if 65535 < length (ff_header f) + ff_total f then (f\<lparr>ff_dead := True\<rparr>, Inl CH_ERROR_PARSE)
     else (f\<lparr>ff_dead := True\<rparr>,
           answer_packet (reassembled (fg_family fg) (ff_header f) (ff_next_header_offset f)
             (ff_protocol f) (map (ff_data f) [0..<ff_total f]))))"
proof -
  have 1: "\<not> (ff_total_known f \<and> ff_total f < fg_end fg \<or>
      \<not> fg_more fg \<and> ff_total_known f \<and> fg_end fg \<noteq> ff_total f)"
    using assms(1,2) by fastforce
  have 2: "\<not> list_ex (ch_ip_stack_fragment_covered (ff_coverage f)) [fg_offset fg..<fg_end fg]"
    using assms(3) by (simp add: list_ex_covered)
  have 3: "\<not> (fg_offset fg = 0 \<and> 512 < length (fg_header fg))"
    using assms(4) by linarith
  have 4: "\<not> (\<not> fg_more fg \<and> fg_end fg < ff_covered f + length (fg_bytes fg))"
    using assms(5) by fastforce
  show ?thesis
    unfolding fragment_accept_def if_not_P [OF 1] if_not_P [OF 2] Let_def if_not_P [OF 3]
    using 4 by (cases "fg_offset fg = 0"; cases "fg_more fg") (auto simp: merged_def)
qed

text \<open>The flow that holds the fragments \<open>pre\<close> of a datagram.\<close>

definition holds_prefix :: "fragment \<Rightarrow> byte list \<Rightarrow> nat \<Rightarrow> byte list \<Rightarrow> fragment list \<Rightarrow> fragment_flow \<Rightarrow> bool" where
  "holds_prefix k H nho P pre f \<longleftrightarrow>
     flow_matches k f \<and>
     covered_set f = (\<Union>fg \<in> set pre. fg_range fg) \<and>
     (\<forall>i \<in> covered_set f. ff_data f i = P ! i) \<and>
     ff_covered f = sum_list (map (\<lambda>fg. length (fg_bytes fg)) pre) \<and>
     (ff_total_known f \<longleftrightarrow> (\<exists>fg \<in> set pre. \<not> fg_more fg)) \<and> (ff_total_known f \<longrightarrow> ff_total f = length P) \<and>
     (ff_have_first f \<longleftrightarrow> (\<exists>fg \<in> set pre. fg_offset fg = 0)) \<and>
     (ff_have_first f \<longrightarrow> ff_header f = H \<and> ff_next_header_offset f = nho)"

lemma holds_prefix_new: "holds_prefix fg H nho P [] (new_flow junk now fg)"
  by (auto simp: holds_prefix_def flow_matches_def new_flow_def covered_set_def covered_bit)

lemma slice_byte:
  assumes "slice_of H nho P fg" "i \<in> fg_range fg"
  shows "fg_bytes fg ! (i - fg_offset fg) = P ! i"
proof -
  have "i - fg_offset fg < length (fg_bytes fg)" "fg_offset fg \<le> i" "fg_end fg \<le> length P"
    using assms by (auto simp: fg_range_def fg_end_def slice_of_def)
  moreover have "fg_bytes fg = sub_bytes P (fg_offset fg) (length (fg_bytes fg))"
    using assms(1) by (simp add: slice_of_def)
  ultimately show ?thesis
    by (metis (no_types, lifting) add_diff_inverse_nat drop_drop fg_end_def not_less nth_drop nth_take
        order.trans sub_bytes_def le_add1)
qed

lemma covered_set_merged: "covered_set (merged now fg f) = covered_set f \<union> fg_range fg"
  by (simp add: covered_set_def merged_def covered_marks fg_range_def)

lemma covered_set_new: "covered_set (new_flow junk now fg) = {}"
  by (simp add: covered_set_def new_flow_def covered_bit)

lemma holds_prefix_merged:
  assumes "holds_prefix k H nho P pre f" "slice_of H nho P fg" "same_key k fg"
    and "covered_set f \<inter> fg_range fg = {}"
  shows "holds_prefix k H nho P (pre @ [fg]) (merged now fg f)"
proof -
  note cov = covered_set_merged [of now fg f]
  have "ff_data (merged now fg f) i = P ! i" if "i \<in> covered_set (merged now fg f)" for i
  proof (cases "i \<in> fg_range fg")
    case True
    then show ?thesis
      using slice_byte [OF assms(2) True] by (simp add: merged_def fg_range_def)
  next
    case False
    then show ?thesis
      using that assms(1) cov by (auto simp: merged_def fg_range_def holds_prefix_def)
  qed
  with assms cov show ?thesis
    by (auto simp: holds_prefix_def flow_matches_def same_key_def merged_def slice_of_def)
qed

lemma disjoint_ranges_card:
  "sorted_wrt (\<lambda>a b. fg_range a \<inter> fg_range b = {}) frs \<Longrightarrow>
   card (\<Union>fg \<in> set frs. fg_range fg) = sum_list (map (\<lambda>fg. length (fg_bytes fg)) frs)"
proof (induction frs)
  case (Cons fg frs)
  have "fg_range fg \<inter> (\<Union>x \<in> set frs. fg_range x) = {}"
    using Cons.prems by auto
  then show ?case
    using Cons by (simp add: card_Un_disjoint)
qed simp

lemma fragmentation_sum:
  "fragmentation k H nho P frs \<Longrightarrow> sum_list (map (\<lambda>fg. length (fg_bytes fg)) frs) = length P"
  using disjoint_ranges_card [of frs] by (simp add: fragmentation_def)

lemma fragmentation_first_last:
  assumes "fragmentation k H nho P frs" "frs \<noteq> []"
  shows "\<exists>fg \<in> set frs. fg_offset fg = 0" "\<exists>fg \<in> set frs. \<not> fg_more fg"
proof -
  have cover: "(\<Union>fg \<in> set frs. fg_range fg) = {..<length P}"
    and all: "\<forall>fg \<in> set frs. slice_of H nho P fg"
    using assms(1) by (simp_all add: fragmentation_def)
  have "hd frs \<in> set frs"
    using assms(2) by simp
  then have pos: "0 < length P"
    using all by (fastforce simp: slice_of_def fg_end_def)
  then have "0 \<in> (\<Union>fg \<in> set frs. fg_range fg)" "length P - 1 \<in> (\<Union>fg \<in> set frs. fg_range fg)"
    unfolding cover by auto
  then show "\<exists>fg \<in> set frs. fg_offset fg = 0" "\<exists>fg \<in> set frs. \<not> fg_more fg"
    using all pos by (force simp: fg_range_def slice_of_def)+
qed

lemma same_key_matches: "same_key k fg \<Longrightarrow> flow_matches fg f \<longleftrightarrow> flow_matches k f"
  by (auto simp: same_key_def flow_matches_def)

text \<open>The first check of the store, and its two ways to find the flow.\<close>

definition fits :: "fragment \<Rightarrow> bool" where
  "fits fg \<longleftrightarrow> \<not> (65535 < fg_offset fg \<or> 65535 - fg_offset fg < length (fg_bytes fg) \<or>
     fg_more fg \<and> (fg_bytes fg = [] \<or> length (fg_bytes fg) mod 8 \<noteq> 0))"

lemma slice_fits: "slice_of H nho P fg \<Longrightarrow> length P \<le> 65535 \<Longrightarrow> fits fg"
  by (auto simp: fits_def slice_of_def fg_end_def)

lemma store_found:
  assumes "fits fg" "ft_flows t = f # old" "flow_matches fg f"
  shows "ch_ip_stack_fragment_store junk now fg t =
    (let (g, answer) = fragment_accept now fg f; t = t\<lparr>ft_flows := g # old\<rparr>
     in (if ff_dead g then ch_ip_stack_fragment_sweep t else t, answer))"
proof -
  have "ch_ip_stack_fragment_find fg (ft_flows t) = Some 0"
    using assms by simp
  then show ?thesis
    unfolding ch_ip_stack_fragment_store_def if_not_P [OF assms(1) [unfolded fits_def]] by (simp add: assms(2))
qed

lemma store_new:
  assumes "fits fg" "ft_count t < 64" "\<forall>f \<in> set (ft_flows t). \<not> flow_matches fg f"
  shows "ch_ip_stack_fragment_store junk now fg t =
    ch_ip_stack_fragment_store junk now fg
      (t\<lparr>ft_flows := new_flow junk now fg # ft_flows t, ft_count := ft_count t + 1\<rparr>)"
proof -
  have "ch_ip_stack_fragment_find fg (ft_flows t) = None" "flow_matches fg (new_flow junk now fg)"
    using assms(3) by (simp_all add: find_None flow_matches_def new_flow_def)
  then show ?thesis
    unfolding ch_ip_stack_fragment_store_def if_not_P [OF assms(1) [unfolded fits_def]]
    using assms(2) by (simp add: ch_ip_stack_fragment_create_def)
qed

text \<open>One fragment of a datagram whose flow is at the head of the table.\<close>

lemma store_step:
  assumes frag: "fragmentation k H nho P (pre @ fg # post)" and holds: "holds_prefix k H nho P pre f"
    and size: "length H \<le> 512" "length H + length P \<le> 65535"
    and t: "ft_flows t = f # old" "\<forall>g \<in> set old. \<not> ff_dead g"
  shows "ch_ip_stack_fragment_store junk now fg t =
    (if post \<noteq> [] then (t\<lparr>ft_flows := merged now fg f # old\<rparr>, Inr None)
     else (t\<lparr>ft_flows := old, ft_count := ft_count t - 1\<rparr>,
           answer_packet (reassembled (fg_family k) H nho (fg_protocol k) P)))"
proof -
  let ?frs = "pre @ fg # post" and ?m = "merged now fg f"
  let ?len = "\<lambda>frs. sum_list (map (\<lambda>fg. length (fg_bytes fg)) frs)"
  have key: "same_key k fg" and sl: "slice_of H nho P fg"
    using frag by (simp_all add: fragmentation_def)
  have total: "?len ?frs = length P"
    by (rule fragmentation_sum [OF frag])
  have disj: "covered_set f \<inter> fg_range fg = {}"
    using frag holds by (fastforce simp: fragmentation_def holds_prefix_def sorted_wrt_append)
  have M: "holds_prefix k H nho P (pre @ [fg]) ?m"
    by (rule holds_prefix_merged [OF holds sl key disj])
  have fin: "\<not> fg_more fg \<Longrightarrow> fg_end fg = length P" and fe: "fg_end fg \<le> length P"
    using sl by (auto simp: slice_of_def)
  have known: "ff_total_known f \<Longrightarrow> ff_total f = length P"
    and covered: "ff_covered f = ?len pre"
    using holds by (simp_all add: holds_prefix_def)
  have acc: "fragment_accept now fg f =
    (let f = merged now fg f in
     if \<not> ff_have_first f \<or> \<not> ff_total_known f \<or> ff_covered f \<noteq> ff_total f then (f, Inr None)
     else if 65535 < length (ff_header f) + ff_total f then (f\<lparr>ff_dead := True\<rparr>, Inl CH_ERROR_PARSE)
     else (f\<lparr>ff_dead := True\<rparr>,
           answer_packet (reassembled (fg_family fg) (ff_header f) (ff_next_header_offset f)
             (ff_protocol f) (map (ff_data f) [0..<ff_total f]))))"
    by (rule fragment_accept_merged)
      (use known fin fe disj size sl covered total in \<open>auto simp: slice_of_def\<close>)
  have "flow_matches fg f"
    using holds same_key_matches [OF key] by (simp add: holds_prefix_def)
  note store = store_found [OF slice_fits [OF sl add_leD2 [OF size(2)]] t(1) this, of junk now]
  have m: "ff_covered ?m = ?len (pre @ [fg])" "ff_total_known ?m \<Longrightarrow> ff_total ?m = length P" "\<not> ff_dead ?m"
    using M by (simp_all add: holds_prefix_def flow_matches_def)
  show ?thesis
  proof (cases "post = []")
    case False
    then obtain x where x: "x \<in> set post" "0 < length (fg_bytes x)"
      using frag by (cases post) (auto simp: fragmentation_def slice_of_def)
    have "length (fg_bytes x) \<le> ?len post"
      using x(1) by (intro member_le_sum_list) auto
    with x(2) have "0 < ?len post"
      by linarith
    then have "ff_covered ?m \<noteq> length P"
      using total m(1) by simp
    then have "fragment_accept now fg f = (?m, Inr None)"
      using m(2) by (auto simp: acc Let_def)
    with False m(3) show ?thesis
      by (simp add: store)
  next
    case True
    have all: "\<exists>x \<in> set (pre @ [fg]). fg_offset x = 0" "\<exists>x \<in> set (pre @ [fg]). \<not> fg_more x"
      using fragmentation_first_last [OF frag] True by auto
    then have full: "ff_have_first ?m" "ff_total_known ?m" "ff_header ?m = H" "ff_next_header_offset ?m = nho"
      using M by (simp_all add: holds_prefix_def)
    have "covered_set ?m = {..<length P}"
      using M frag True by (auto simp: holds_prefix_def fragmentation_def)
    then have data: "map (ff_data ?m) [0..<length P] = P"
      using M by (intro nth_equalityI) (auto simp: holds_prefix_def)
    have "fg_family fg = fg_family k" "ff_protocol ?m = fg_protocol k"
      using key M by (simp_all add: same_key_def holds_prefix_def flow_matches_def)
    then have "fragment_accept now fg f =
        (?m\<lparr>ff_dead := True\<rparr>, answer_packet (reassembled (fg_family k) H nho (fg_protocol k) P))"
      using full m total True size data by (simp add: acc Let_def)
    with True t(2) show ?thesis
      by (simp add: store ch_ip_stack_fragment_sweep_def filter_id_conv filter_False)
  qed
qed

text \<open>Storing a sequence of fragments, each with the time it arrives.\<close>

fun store_all ::
  "(nat \<Rightarrow> byte) \<Rightarrow> (32 word \<times> fragment) list \<Rightarrow> fragment_table \<Rightarrow> fragment_table \<times> byte list option result list" where
  "store_all junk [] t = (t, [])"
| "store_all junk ((now, fg) # xs) t =
     (let (t, a) = ch_ip_stack_fragment_store junk now fg t; (t, as) = store_all junk xs t in (t, a # as))"

lemma store_all_rest:
  assumes "length H \<le> 512" "length H + length P \<le> 65535" "\<forall>g \<in> set old. \<not> ff_dead g"
    and "fragmentation k H nho P (pre @ map snd xs)" "holds_prefix k H nho P pre f" "xs \<noteq> []"
    and "ft_flows t = f # old"
  shows "store_all junk xs t =
    (t\<lparr>ft_flows := old, ft_count := ft_count t - 1\<rparr>,
     replicate (length xs - 1) (Inr None) @
       [answer_packet (reassembled (fg_family k) H nho (fg_protocol k) P)])"
  using assms(4-)
proof (induction xs arbitrary: pre f t)
  case (Cons x xs)
  obtain now fg where x: "x = (now, fg)" by fastforce
  note step = store_step [OF _ Cons.prems(2) assms(1,2) Cons.prems(4) assms(3), of fg "map snd xs" junk now]
  show ?case
  proof (cases "xs = []")
    case True
    then show ?thesis
      using step Cons.prems(1) by (simp add: x)
  next
    case False
    have frag: "fragmentation k H nho P (pre @ fg # map snd xs)"
      using Cons.prems(1) by (simp add: x)
    then have "slice_of H nho P fg" "same_key k fg"
      by (simp_all add: fragmentation_def)
    moreover have "covered_set f \<inter> fg_range fg = {}"
      using frag Cons.prems(2) by (fastforce simp: fragmentation_def holds_prefix_def sorted_wrt_append)
    ultimately have "holds_prefix k H nho P (pre @ [fg]) (merged now fg f)"
      using Cons.prems(2) by (intro holds_prefix_merged)
    then have "store_all junk xs (t\<lparr>ft_flows := merged now fg f # old\<rparr>) =
        (t\<lparr>ft_flows := old, ft_count := ft_count t - 1\<rparr>,
         replicate (length xs - 1) (Inr None) @
           [answer_packet (reassembled (fg_family k) H nho (fg_protocol k) P)])"
      using Cons.IH [of "pre @ [fg]" "merged now fg f" "t\<lparr>ft_flows := merged now fg f # old\<rparr>"]
        frag False by simp
    then show ?thesis
      using step [OF frag] False by (cases "length xs") (simp_all add: x)
  qed
qed simp

text \<open>C10: Reassembly is correct in every order of arrival.  If the fragments of a datagram cover its payload
  without overlap and all fit, then storing them one after the other, in any order and at any times,
  answers nothing until the last one and then exactly the original header and payload with the length,
  fragment and checksum fields rewritten; the table is left as it was before the datagram.\<close>

theorem reassembly_correct:
  assumes "fragmentation k H nho P (map snd xs)" "xs \<noteq> []" "length H \<le> 512" "length H + length P \<le> 65535"
    and "table_ok t" "ft_count t < 64" "\<forall>f \<in> set (ft_flows t). \<not> flow_matches k f"
  shows "store_all junk xs t =
    (t, replicate (length xs - 1) (Inr None) @
          [answer_packet (reassembled (fg_family k) H nho (fg_protocol k) P)])"
proof -
  obtain now fg ys where xs: "xs = (now, fg) # ys"
    using assms(2) by (cases xs) auto
  have key: "same_key k fg" and sl: "slice_of H nho P fg"
    using assms(1) by (simp_all add: xs fragmentation_def)
  let ?f = "new_flow junk now fg"
  let ?t = "t\<lparr>ft_flows := ?f # ft_flows t, ft_count := ft_count t + 1\<rparr>"
  have hp: "holds_prefix k H nho P [] ?f"
    using holds_prefix_new [of fg H nho P junk now] same_key_matches [OF key]
    by (auto simp: holds_prefix_def)
  have "ch_ip_stack_fragment_store junk now fg t = ch_ip_stack_fragment_store junk now fg ?t"
    using assms(6,7) same_key_matches [OF key] by (intro store_new slice_fits [OF sl]) (use assms(4) in auto)
  then have "store_all junk xs t = store_all junk xs ?t"
    by (simp add: xs)
  also have "\<dots> = (t, replicate (length xs - 1) (Inr None) @
          [answer_packet (reassembled (fg_family k) H nho (fg_protocol k) P)])"
    using store_all_rest [OF assms(3,4), of "ft_flows t" k nho "[]" xs ?f ?t junk] hp assms(1,2,5)
    by (simp add: table_ok_def)
  finally show ?thesis .
qed

definition sample_key :: fragment where
  "sample_key = \<lparr>fg_family = AF_INET, fg_source = [10, 0, 0, 2], fg_target = [1, 1, 1, 1], fg_ident = 7,
     fg_protocol = 17, fg_header = [0x45, 0, 0, 28, 0, 7, 0x20, 0, 64, 17, 0, 0, 10, 0, 0, 2, 1, 1, 1, 1],
     fg_next_header_offset = 0, fg_offset = 0, fg_bytes = [], fg_more = True\<rparr>"

definition sample_piece :: "nat \<Rightarrow> byte list \<Rightarrow> bool \<Rightarrow> fragment" where
  "sample_piece i bs m = sample_key\<lparr>fg_offset := i, fg_bytes := bs, fg_more := m\<rparr>"

definition sample_arrivals :: "(32 word \<times> fragment) list" where
  "sample_arrivals = [(5, sample_piece 8 (replicate 8 2) True), (9, sample_piece 16 [3, 3, 3] False),
     (11, sample_piece 0 (replicate 8 1) True)]"

definition empty_table :: fragment_table where
  "empty_table = \<lparr>ft_flows = [], ft_count = 0\<rparr>"

lemma table_ok_empty: "table_ok empty_table"
  by (simp add: empty_table_def table_ok_def)

lemma sample_fragmentation:
  "fragmentation sample_key (fg_header sample_key) 0 (replicate 8 1 @ replicate 8 2 @ [3, 3, 3])
     (map snd sample_arrivals)"
proof -
  have "sub_bytes (replicate 8 1 @ replicate 8 2 @ [3, 3, 3]) 0 8 = replicate 8 1"
    "sub_bytes (replicate 8 1 @ replicate 8 2 @ [3, 3, 3]) 8 8 = replicate 8 2"
    "sub_bytes (replicate 8 1 @ replicate 8 2 @ [3, 3, 3]) 16 (Suc (Suc (Suc 0))) = [3, 3, 3]"
    by (simp_all add: sub_bytes_def)
  moreover have "{8..<16} \<union> ({16..<19} \<union> {0..<8}) = {..<19 :: nat}"
    by auto
  ultimately show ?thesis
    by (simp add: fragmentation_def sample_arrivals_def sample_piece_def same_key_def slice_of_def
        fg_range_def fg_end_def sample_key_def)
qed

theorem reassembly_correct_witness:
  "store_all (\<lambda>_. 0) sample_arrivals empty_table =
    (empty_table, [Inr None, Inr None, answer_packet (reassembled AF_INET (fg_header sample_key) 0 17
       (replicate 8 1 @ replicate 8 2 @ [3, 3, 3]))])"
  using reassembly_correct [OF sample_fragmentation, of empty_table "\<lambda>_. 0"]
  by (simp add: sample_arrivals_def empty_table_def table_ok_def sample_key_def numeral_2_eq_2)

text \<open>The table of partial datagrams never holds more than 64 flows, its count is the number of its
  flows and none of them is dead, whatever packets arrive and whenever the timer runs.\<close>

theorem fragment_table_bounded:
  assumes "table_ok t"
  shows "table_ok (fst (ch_ip_stack_prepare_input_packet junk now p t)) \<and> table_ok (fragment_tick now t)"
  using prepare_table_ok [OF assms] tick_table_ok [OF assms] by blast

theorem fragment_table_bounded_witness:
  "table_ok (fst (ch_ip_stack_prepare_input_packet (\<lambda>_. 0) 0 (fg_header sample_key) empty_table))"
  using fragment_table_bounded [OF table_ok_empty] by blast

section \<open>A hole in the payload\<close>

lemma reassembled_payload:
  assumes "reassembled AF_INET H nho pr P = Inr p" "20 \<le> length H"
  shows "drop (length H) p = P"
  using assms by (auto simp: reassembled_def Let_def ch_ip_stack_write_u16_def)

text \<open>C11: The check for completeness compares only the number of stored bytes with the length announced by the
  final fragment.  A fragment beyond that length that arrives before the final one is counted: then a
  datagram is emitted with a gap, and the gap holds whatever \<^verbatim>\<open>malloc\<close> left in the buffer.\<close>

theorem reassembly_with_hole:
  assumes "fg_family k = AF_INET" "20 \<le> length (fg_header k)" "length (fg_header k) \<le> 512"
    and "length xs = 8" "length ys = 8" "length zs = 8"
  defines "a \<equiv> k\<lparr>fg_offset := 1000, fg_bytes := xs, fg_more := True\<rparr>"
    and "b \<equiv> k\<lparr>fg_offset := 16, fg_bytes := ys, fg_more := False\<rparr>"
    and "c \<equiv> k\<lparr>fg_offset := 0, fg_bytes := zs, fg_more := True\<rparr>"
  shows "\<exists>t p. store_all junk [(n1, a), (n2, b), (n3, c)] empty_table = (t, [Inr None, Inr None, Inr (Some p)]) \<and>
    sub_bytes p (length (fg_header k)) 24 = zs @ map junk [8..<16] @ ys"
proof -
  let ?f0 = "new_flow junk n1 a"
  let ?f1 = "merged n1 a ?f0" let ?f2 = "merged n2 b ?f1" let ?f3 = "merged n3 c ?f2"
  have fit: "fits a" "fits b" "fits c"
    using assms by (auto simp: fits_def)
  have cov: "covered_set ?f0 = {}" "covered_set ?f1 = {1000..<1008}" "covered_set ?f2 = {1000..<1008} \<union> {16..<24}"
    using assms(4,5)
    by (simp_all add: covered_set_merged covered_set_new a_def b_def fg_end_def fg_range_def)
  have A: "fragment_accept n1 a ?f0 = (?f1, Inr None)"
    by (subst fragment_accept_merged)
      (use assms(4) cov in \<open>auto simp: Let_def merged_def new_flow_def a_def fg_end_def fg_range_def\<close>)
  have B: "fragment_accept n2 b ?f1 = (?f2, Inr None)"
    by (subst fragment_accept_merged)
      (use assms(4,5) cov in \<open>auto simp: Let_def merged_def new_flow_def a_def b_def fg_end_def fg_range_def\<close>)
  have "map (ff_data ?f3) [0..<24] = zs @ map junk [8..<16] @ ys"
    using assms(4-6)
    by (intro nth_equalityI)
      (auto simp: merged_def new_flow_def a_def b_def c_def fg_end_def nth_append simp del: upt_rec_numeral)
  then have C: "fragment_accept n3 c ?f2 = (?f3\<lparr>ff_dead := True\<rparr>,
      answer_packet (reassembled AF_INET (fg_header k) (fg_next_header_offset k) (fg_protocol k)
        (zs @ map junk [8..<16] @ ys)))"
    by (subst fragment_accept_merged)
      (use assms cov in \<open>auto simp: Let_def merged_def new_flow_def a_def b_def c_def fg_end_def fg_range_def\<close>)
  have m: "flow_matches a ?f0" "flow_matches b ?f1" "flow_matches c ?f2"
    by (simp_all add: flow_matches_def merged_def new_flow_def a_def b_def c_def)
  have nd: "\<not> ff_dead ?f1" "\<not> ff_dead ?f2"
    by (simp_all add: merged_def new_flow_def)
  obtain t p where "store_all junk [(n1, a), (n2, b), (n3, c)] empty_table = (t, [Inr None, Inr None, Inr (Some p)])"
    and "reassembled AF_INET (fg_header k) (fg_next_header_offset k) (fg_protocol k)
        (zs @ map junk [8..<16] @ ys) = Inr p"
    using store_new [OF fit(1), of empty_table junk n1] m nd
    by (simp add: empty_table_def store_found [OF fit(1)] store_found [OF fit(2)] store_found [OF fit(3)] A B C
        reassembled_def answer_packet_def Let_def)
  moreover have "sub_bytes p (length (fg_header k)) 24 = zs @ map junk [8..<16] @ ys"
    if "reassembled AF_INET (fg_header k) (fg_next_header_offset k) (fg_protocol k)
        (zs @ map junk [8..<16] @ ys) = Inr p" for p
    using reassembled_payload [OF that assms(2)] assms(5,6) by (simp add: sub_bytes_def)
  ultimately show ?thesis by blast
qed

theorem reassembly_with_hole_witness:
  "\<exists>t p. store_all (\<lambda>_. 0xAA) [(1, sample_piece 1000 (replicate 8 1) True),
        (2, sample_piece 16 (replicate 8 2) False), (3, sample_piece 0 (replicate 8 3) True)] empty_table =
      (t, [Inr None, Inr None, Inr (Some p)]) \<and>
    sub_bytes p 20 24 = replicate 8 3 @ replicate 8 0xAA @ replicate 8 2"
proof -
  have k: "fg_family sample_key = AF_INET" "length (fg_header sample_key) = 20"
    by (simp_all add: sample_key_def)
  have m: "map (\<lambda>_. 0xAA) [8..<16] = replicate 8 (0xAA :: byte)"
    by code_simp
  show ?thesis
    using reassembly_with_hole [of sample_key "replicate 8 1" "replicate 8 2" "replicate 8 3" "\<lambda>_. 0xAA" 1 2 3]
    unfolding k m sample_piece_def by (simp only: length_replicate)
qed

end
