(* ===== verification/Rules.thy ===== *)
theory Rules
  imports Inet Interfaces "HOL-Library.Monad_Syntax"
begin

text \<open>
  The routing rule engine, \<^verbatim>\<open>src/native/src/rules.c\<close>: normalisation of matcher lists, CIDR blocks, compilation
  of rules and rule sets with their errors, splitting of targets, and the decision by the first rule that
  matches.  A string list is the list of its items, each possibly \<^verbatim>\<open>NULL\<close>; allocation succeeds; the two
  readings of the monotonic clock around a decision are arguments.
\<close>

unbundle bit_operations_syntax

section \<open>Data\<close>

type_synonym ch_string_list = "string option list"

record ch_rule_spec =
  rs_name :: "string option"
  rs_action :: "string option"
  rs_rule_sets :: ch_string_list
  rs_domains :: ch_string_list
  rs_domain_suffixes :: ch_string_list
  rs_domain_keywords :: ch_string_list
  rs_cidrs :: ch_string_list
  rs_source_cidrs :: ch_string_list
  rs_ports :: "int list"
  rs_networks :: ch_string_list
  rs_processes :: ch_string_list

record ch_rule_set_spec =
  ss_name :: "string option"
  ss_domains :: ch_string_list
  ss_domain_suffixes :: ch_string_list
  ss_domain_keywords :: ch_string_list
  ss_cidrs :: ch_string_list

record ch_rule_match_context =
  mc_network :: "string option"
  mc_target :: "string option"
  mc_source :: "string option"
  mc_process_name :: "string option"
  mc_process_path :: "string option"

record ch_cidr =
  cidr_family :: family
  cidr_address :: "byte list"
  cidr_prefix_length :: nat
  cidr_text :: string

record ch_compiled_rule_set =
  cs_name :: string
  cs_domains :: "string list"
  cs_suffixes :: "string list"
  cs_keywords :: "string list"
  cs_cidrs :: "ch_cidr list"

record ch_compiled_rule =
  cr_name :: string
  cr_action :: string
  cr_chain_name :: "string option"
  cr_group_name :: "string option"
  cr_domains :: "string list"
  cr_suffixes :: "string list"
  cr_keywords :: "string list"
  cr_cidrs :: "ch_cidr list"
  cr_source_cidrs :: "ch_cidr list"
  cr_ports :: "int list"
  cr_networks :: "string list"
  cr_processes :: "string list"
  cr_rule_sets :: "ch_compiled_rule_set list"

record ch_rule_engine =
  re_default_chain :: string
  re_rules :: "ch_compiled_rule list"
  re_needs_process :: bool

record ch_rule_decision =
  rd_rule_name :: string
  rd_rule_number :: nat
  rd_action :: string
  rd_chain_name :: string
  rd_group_name :: string
  rd_target :: string
  rd_host :: string
  rd_port :: string
  rd_network :: string
  rd_source :: string
  rd_is_default :: bool
  rd_elapsed_ns :: nat
  rd_matcher_kind :: string
  rd_matcher_value :: string
  rd_summary :: string

section \<open>Matcher lists\<close>

definition ch_trimmed_copy :: "string option \<Rightarrow> string" where
  "ch_trimmed_copy value = trim (or_empty value)"

definition ch_trimmed_lower :: "string option \<Rightarrow> bool \<Rightarrow> string" where
  "ch_trimmed_lower value strip_dot =
     (let t = trim (or_empty value) in
      lower (if strip_dot \<and> t \<noteq> [] \<and> hd t = CHR ''.'' then tl t else t))"

definition ch_owned_strings_contains :: "string list \<Rightarrow> string \<Rightarrow> bool" where
  "ch_owned_strings_contains strings v = list_ex (\<lambda>s. s = v) strings"

fun compile_strings :: "bool \<Rightarrow> string list \<Rightarrow> ch_string_list \<Rightarrow> string list" where
  "compile_strings strip_dot out [] = out"
| "compile_strings strip_dot out (x # xs) =
     (let n = ch_trimmed_lower x strip_dot in
      if n = [] \<or> ch_owned_strings_contains out n then compile_strings strip_dot out xs
      else compile_strings strip_dot (out @ [n]) xs)"

definition ch_owned_strings_compile :: "ch_string_list \<Rightarrow> bool \<Rightarrow> string list" where
  "ch_owned_strings_compile input strip_dot = compile_strings strip_dot [] input"

definition ch_name_known :: "ch_string_list \<Rightarrow> string \<Rightarrow> bool" where
  "ch_name_known names name = list_ex (\<lambda>n. n = Some name) names"

section \<open>CIDR blocks\<close>

definition compile_cidr :: "string option \<Rightarrow> ch_cidr result" where
  "compile_cidr raw =
     (let copy = ch_trimmed_lower (Some (or_empty raw)) False in
      case strrchr copy (CHR ''/'') of
        None \<Rightarrow> Inl CH_ERROR_PARSE
      | Some (host, suffix) \<Rightarrow>
          if host = [] \<or> suffix = [] then Inl CH_ERROR_PARSE
          else
            let prefix = strtol suffix;
                parsed = (case inet_pton AF_INET host of
                    Some a \<Rightarrow> Some (AF_INET, a, 32)
                  | None \<Rightarrow> (case inet_pton AF_INET6 host of
                        Some a \<Rightarrow> Some (AF_INET6, a, 128)
                      | None \<Rightarrow> None))
            in case parsed of
                 None \<Rightarrow> Inl CH_ERROR_PARSE
               | Some (f, a, limit) \<Rightarrow>
                   if st_range prefix \<or> st_value prefix < 0 \<or> limit < st_value prefix \<or>
                      \<not> st_converted prefix \<or> st_rest prefix \<noteq> []
                   then Inl CH_ERROR_PARSE
                   else Inr \<lparr>cidr_family = f, cidr_address = a,
                             cidr_prefix_length = nat (st_value prefix), cidr_text = copy\<rparr>)"

fun ch_cidr_list_compile :: "ch_string_list \<Rightarrow> ch_cidr list result" where
  "ch_cidr_list_compile [] = Inr []"
| "ch_cidr_list_compile (x # xs) =
     bind_result (compile_cidr x) (\<lambda>c. bind_result (ch_cidr_list_compile xs) (\<lambda>cs. Inr (c # cs)))"

definition ch_cidr_contains :: "ch_cidr \<Rightarrow> byte list \<Rightarrow> bool" where
  "ch_cidr_contains cidr address =
     (let whole = cidr_prefix_length cidr div 8;
          remainder = cidr_prefix_length cidr mod 8
      in if 0 < whole \<and> take whole (cidr_address cidr) \<noteq> take whole address then False
         else if remainder = 0 then True
         else
           let mask = push_bit (8 - remainder) 0xff
           in cidr_address cidr ! whole AND mask = address ! whole AND mask)"

fun find_cidr :: "ch_cidr list \<Rightarrow> family \<Rightarrow> byte list \<Rightarrow> string option" where
  "find_cidr [] f a = None"
| "find_cidr (c # cs) f a =
     (if cidr_family c = f \<and> ch_cidr_contains c a then Some (cidr_text c) else find_cidr cs f a)"

definition ch_match_cidrs :: "ch_cidr list \<Rightarrow> string \<Rightarrow> string option" where
  "ch_match_cidrs cidrs raw_host =
     (if 48 \<le> length raw_host then None
      else
        let host = (if raw_host \<noteq> [] \<and> hd raw_host = CHR ''['' \<and> 1 < length raw_host \<and>
                       last raw_host = CHR '']''
                    then butlast (tl raw_host) else raw_host)
        in case inet_pton AF_INET host of
             Some a \<Rightarrow> find_cidr cidrs AF_INET a
           | None \<Rightarrow> (case inet_pton AF_INET6 host of
                 Some a \<Rightarrow> find_cidr cidrs AF_INET6 a
               | None \<Rightarrow> None))"

section \<open>Compilation\<close>

definition ch_compile_rule_set :: "ch_rule_set_spec \<Rightarrow> ch_compiled_rule_set result" where
  "ch_compile_rule_set input =
     bind_result (ch_cidr_list_compile (ss_cidrs input)) (\<lambda>cidrs.
       Inr \<lparr>cs_name = or_empty (ss_name input),
            cs_domains = ch_owned_strings_compile (ss_domains input) False,
            cs_suffixes = ch_owned_strings_compile (ss_domain_suffixes input) True,
            cs_keywords = ch_owned_strings_compile (ss_domain_keywords input) False,
            cs_cidrs = cidrs\<rparr>)"

text \<open>The action, the chain and the group of a rule.\<close>

definition ch_parse_action ::
  "string option \<Rightarrow> ch_string_list \<Rightarrow> ch_string_list \<Rightarrow> (string \<times> string option \<times> string option) result" where
  "ch_parse_action raw known_chains known_groups =
     (let trimmed = ch_trimmed_copy raw;
          normalized = (case strchr (ch_trimmed_lower raw False) (CHR '':'') of
              None \<Rightarrow> ch_trimmed_lower raw False | Some (a, _) \<Rightarrow> a);
          target = (case strchr trimmed (CHR '':'') of None \<Rightarrow> None | Some (_, b) \<Rightarrow> Some (trim b))
      in if normalized = ''direct'' \<or> normalized = ''block'' \<or> normalized = ''reject'' then
           (if target \<noteq> None then Inl CH_ERROR_PARSE else Inr (normalized, None, None))
         else if normalized = ''chain'' \<and> target \<noteq> None \<and> target \<noteq> Some [] then
           (if ch_name_known known_chains (the target) then Inr (''chain'', target, None)
            else Inl CH_ERROR_NOT_FOUND)
         else if normalized = ''group'' \<and> target \<noteq> None \<and> target \<noteq> Some [] then
           (if ch_name_known known_groups (the target) then Inr (''group'', None, target)
            else Inl CH_ERROR_NOT_FOUND)
         else Inl CH_ERROR_PARSE)"

definition ch_find_rule_set :: "ch_rule_set_spec list \<Rightarrow> string \<Rightarrow> ch_rule_set_spec option" where
  "ch_find_rule_set sets name = find (\<lambda>s. ss_name s = Some name) sets"

fun compile_rule_sets ::
  "ch_rule_set_spec list \<Rightarrow> ch_compiled_rule_set list \<Rightarrow> ch_string_list \<Rightarrow> ch_compiled_rule_set list result" where
  "compile_rule_sets known out [] = Inr out"
| "compile_rule_sets known out (x # xs) =
     (let name = ch_trimmed_copy x in
      if name = [] \<or> list_ex (\<lambda>s. cs_name s = name) out then compile_rule_sets known out xs
      else
        case ch_find_rule_set known name of
          None \<Rightarrow> Inl CH_ERROR_NOT_FOUND
        | Some spec \<Rightarrow>
            bind_result (ch_compile_rule_set spec) (\<lambda>s. compile_rule_sets known (out @ [s]) xs))"

definition ch_compile_rule ::
  "ch_rule_spec \<Rightarrow> ch_string_list \<Rightarrow> ch_string_list \<Rightarrow> ch_rule_set_spec list \<Rightarrow> ch_compiled_rule result" where
  "ch_compile_rule input known_chains known_groups known_rule_sets =
     (let name = ch_trimmed_copy (rs_name input) in
      bind_result (ch_parse_action (rs_action input) known_chains known_groups) (\<lambda>(action, chain, group).
        if rs_rule_sets input \<noteq> [] \<and>
           (rs_domains input \<noteq> [] \<or> rs_domain_suffixes input \<noteq> [] \<or> rs_domain_keywords input \<noteq> [] \<or>
            rs_cidrs input \<noteq> [])
        then Inl CH_ERROR_INVALID_ARGUMENT
        else
          bind_result (ch_cidr_list_compile (rs_cidrs input)) (\<lambda>cidrs.
          bind_result (ch_cidr_list_compile (rs_source_cidrs input)) (\<lambda>source_cidrs.
          bind_result (compile_rule_sets known_rule_sets [] (rs_rule_sets input)) (\<lambda>sets.
            Inr \<lparr>cr_name = (if name = [] then ''unnamed'' else name),
                 cr_action = action, cr_chain_name = chain, cr_group_name = group,
                 cr_domains = ch_owned_strings_compile (rs_domains input) False,
                 cr_suffixes = ch_owned_strings_compile (rs_domain_suffixes input) True,
                 cr_keywords = ch_owned_strings_compile (rs_domain_keywords input) False,
                 cr_cidrs = cidrs, cr_source_cidrs = source_cidrs, cr_ports = rs_ports input,
                 cr_networks = ch_owned_strings_compile (rs_networks input) False,
                 cr_processes = ch_owned_strings_compile (rs_processes input) False,
                 cr_rule_sets = sets\<rparr>)))))"

fun compile_rules ::
  "ch_rule_spec list \<Rightarrow> ch_string_list \<Rightarrow> ch_string_list \<Rightarrow> ch_rule_set_spec list \<Rightarrow> ch_rule_engine \<Rightarrow>
   ch_rule_engine result" where
  "compile_rules [] known_chains known_groups known_rule_sets engine = Inr engine"
| "compile_rules (x # xs) known_chains known_groups known_rule_sets engine =
     bind_result (ch_compile_rule x known_chains known_groups known_rule_sets) (\<lambda>r.
       compile_rules xs known_chains known_groups known_rule_sets
         (engine\<lparr>re_rules := re_rules engine @ [r],
                 re_needs_process := re_needs_process engine \<or> cr_processes r \<noteq> []\<rparr>))"

definition ch_rule_engine_compile ::
  "ch_rule_spec list \<Rightarrow> string option \<Rightarrow> ch_string_list \<Rightarrow> ch_string_list \<Rightarrow> ch_rule_set_spec list \<Rightarrow>
   ch_rule_engine result" where
  "ch_rule_engine_compile rules default_chain known_chains known_groups known_rule_sets =
     (let normalized_default = ch_trimmed_copy default_chain in
      if normalized_default = [] then Inl CH_ERROR_INVALID_ARGUMENT
      else if \<not> ch_name_known known_chains normalized_default then Inl CH_ERROR_NOT_FOUND
      else compile_rules rules known_chains known_groups known_rule_sets
        \<lparr>re_default_chain = normalized_default, re_rules = [], re_needs_process = False\<rparr>)"

definition ch_rule_engine_needs_process :: "ch_rule_engine option \<Rightarrow> bool" where
  "ch_rule_engine_needs_process engine = (case engine of None \<Rightarrow> False | Some e \<Rightarrow> re_needs_process e)"

section \<open>Targets\<close>

definition ch_normalize_host :: "string \<Rightarrow> string" where
  "ch_normalize_host host =
     (let h = trim host;
          h = (if 2 \<le> length h \<and> hd h = CHR ''['' \<and> last h = CHR '']'' then butlast (tl h) else h);
          h = (if h \<noteq> [] \<and> last h = CHR ''.'' then butlast h else h)
      in lower h)"

text \<open>The part before the separator colon and the part behind it.\<close>

definition target_separator :: "string \<Rightarrow> (string \<times> string) option" where
  "target_separator host =
     (if host \<noteq> [] \<and> hd host = CHR ''['' then
        (case strrchr host (CHR '']'') of
           None \<Rightarrow> None
         | Some (a, b) \<Rightarrow>
             if b \<noteq> [] \<and> hd b = CHR '':'' \<and> tl b \<noteq> [] then Some (a @ '']'', tl b) else None)
      else strrchr host (CHR '':''))"

definition ch_split_target :: "string option \<Rightarrow> string \<times> string" where
  "ch_split_target target =
     (let host = trim (or_empty target);
          (host, port) = (case target_separator host of
              None \<Rightarrow> (host, [])
            | Some (a, b) \<Rightarrow> if b \<noteq> [] \<and> strtol_full b \<noteq> None then (a, b) else (host, []))
      in (ch_normalize_host host, port))"

section \<open>Matching\<close>

definition suffix_matches :: "string \<Rightarrow> string \<Rightarrow> bool" where
  "suffix_matches host suffix \<longleftrightarrow>
     host = suffix \<or>
     length suffix < length host \<and> host ! (length host - length suffix - 1) = CHR ''.'' \<and>
     drop (length host - length suffix) host = suffix"

definition ch_domain_match ::
  "string list \<Rightarrow> string list \<Rightarrow> string list \<Rightarrow> string \<Rightarrow> (string \<times> string) option" where
  "ch_domain_match domains suffixes keywords host =
     (if ch_owned_strings_contains domains host then Some (''domain'', host)
      else case find (suffix_matches host) suffixes of
             Some suffix \<Rightarrow> Some (''domain_suffix'', suffix)
           | None \<Rightarrow> (case find (strstr host) keywords of
                 Some keyword \<Rightarrow> Some (''domain_keyword'', keyword)
               | None \<Rightarrow> None))"

definition ch_process_match :: "string list \<Rightarrow> string option \<Rightarrow> string option \<Rightarrow> string option" where
  "ch_process_match patterns name path =
     (let normalized_name = ch_trimmed_lower name False;
          normalized_path = ch_trimmed_lower path False;
          base = (case strrchr normalized_path (CHR ''/'') of None \<Rightarrow> normalized_path | Some (_, b) \<Rightarrow> b)
      in find (\<lambda>p. p = normalized_name \<or> normalized_path \<noteq> [] \<and> p = normalized_path \<or>
                 base \<noteq> [] \<and> p = base) patterns)"

text \<open>A match is its kind and value; \<^verbatim>\<open>NULL\<close> kind is \<open>None\<close>.  The first matcher that is noted stays.\<close>

type_synonym ch_match = "(string \<times> string) option"

definition note_match :: "ch_match \<Rightarrow> string \<Rightarrow> string \<Rightarrow> ch_match" where
  "note_match m kind v = (case m of None \<Rightarrow> Some (kind, v) | Some _ \<Rightarrow> m)"

definition match_network :: "ch_compiled_rule \<Rightarrow> string \<Rightarrow> ch_match option" where
  "match_network r network =
     (if cr_networks r = [] then Some None
      else if ch_owned_strings_contains (cr_networks r) network then Some (Some (''network'', network))
      else None)"

definition match_port :: "ch_compiled_rule \<Rightarrow> string \<Rightarrow> ch_match \<Rightarrow> ch_match option" where
  "match_port r port m =
     (if cr_ports r = [] then Some m
      else
        let number = strtol port in
        if \<not> st_converted number \<or> st_rest number \<noteq> [] then None
        else if list_ex (\<lambda>p. p = st_value number) (cr_ports r) then Some (note_match m ''port'' port)
        else None)"

definition match_source :: "ch_compiled_rule \<Rightarrow> ch_rule_match_context \<Rightarrow> ch_match \<Rightarrow> ch_match option" where
  "match_source r c m =
     (if cr_source_cidrs r = [] then Some m
      else case ch_match_cidrs (cr_source_cidrs r) (fst (ch_split_target (mc_source c))) of
             None \<Rightarrow> None
           | Some cidr \<Rightarrow> Some (note_match m ''source_cidr'' cidr))"

definition match_process :: "ch_compiled_rule \<Rightarrow> ch_rule_match_context \<Rightarrow> ch_match \<Rightarrow> ch_match option" where
  "match_process r c m =
     (if cr_processes r = [] then Some m
      else case ch_process_match (cr_processes r) (mc_process_name c) (mc_process_path c) of
             None \<Rightarrow> None
           | Some process \<Rightarrow> Some (note_match m ''process'' process))"

definition match_domain :: "ch_compiled_rule \<Rightarrow> string \<Rightarrow> ch_match \<Rightarrow> ch_match option" where
  "match_domain r host m =
     (if cr_domains r = [] \<and> cr_suffixes r = [] \<and> cr_keywords r = [] then Some m
      else case ch_domain_match (cr_domains r) (cr_suffixes r) (cr_keywords r) host of
             None \<Rightarrow> None
           | Some (kind, v) \<Rightarrow> Some (note_match m kind v))"

definition match_cidr :: "ch_compiled_rule \<Rightarrow> string \<Rightarrow> ch_match \<Rightarrow> ch_match option" where
  "match_cidr r host m =
     (if cr_cidrs r = [] then Some m
      else case ch_match_cidrs (cr_cidrs r) host of
             None \<Rightarrow> None
           | Some cidr \<Rightarrow> Some (note_match m ''cidr'' cidr))"

definition match_set :: "ch_compiled_rule_set \<Rightarrow> string \<Rightarrow> (string \<times> string) option" where
  "match_set s host =
     (case ch_domain_match (cs_domains s) (cs_suffixes s) (cs_keywords s) host of
        Some (kind, v) \<Rightarrow> Some (''rule_set_'' @ kind, snprintf 512 (cs_name s @ '':'' @ v))
      | None \<Rightarrow>
          (case ch_match_cidrs (cs_cidrs s) host of
             Some cidr \<Rightarrow> Some (''rule_set_cidr'', snprintf 512 (cs_name s @ '':'' @ cidr))
           | None \<Rightarrow> None))"

fun find_set :: "ch_compiled_rule_set list \<Rightarrow> string \<Rightarrow> (string \<times> string) option" where
  "find_set [] host = None"
| "find_set (s # ss) host = (case match_set s host of Some m \<Rightarrow> Some m | None \<Rightarrow> find_set ss host)"

definition match_rule_set :: "ch_compiled_rule \<Rightarrow> string \<Rightarrow> ch_match \<Rightarrow> ch_match option" where
  "match_rule_set r host m =
     (if cr_rule_sets r = [] then Some m
      else case find_set (cr_rule_sets r) host of None \<Rightarrow> None | Some km \<Rightarrow> Some (Some km))"

definition ch_rule_matches ::
  "ch_compiled_rule \<Rightarrow> ch_rule_match_context \<Rightarrow> string \<Rightarrow> string \<Rightarrow> string \<Rightarrow> (string \<times> string) option" where
  "ch_rule_matches r c network host port =
     do {
       m \<leftarrow> match_network r network;
       m \<leftarrow> match_port r port m;
       m \<leftarrow> match_source r c m;
       m \<leftarrow> match_process r c m;
       m \<leftarrow> match_domain r host m;
       m \<leftarrow> match_cidr r host m;
       m \<leftarrow> match_rule_set r host m;
       Some (case m of None \<Rightarrow> (''all_traffic'', ''*'') | Some km \<Rightarrow> km)
     }"

section \<open>Decisions\<close>

fun select_rule ::
  "nat \<Rightarrow> ch_compiled_rule list \<Rightarrow> ch_rule_match_context \<Rightarrow> string \<Rightarrow> string \<Rightarrow> string \<Rightarrow>
   (nat \<times> ch_compiled_rule \<times> string \<times> string) option" where
  "select_rule i [] c network host port = None"
| "select_rule i (r # rs) c network host port =
     (case ch_rule_matches r c network host port of
        Some km \<Rightarrow> Some (i, r, km)
      | None \<Rightarrow> select_rule (i + 1) rs c network host port)"

definition elapsed_between :: "nat \<Rightarrow> nat \<Rightarrow> nat" where
  "elapsed_between started finished =
     min (if started \<le> finished then finished - started else 0) (2 ^ 63 - 1)"

definition ch_rule_engine_decide ::
  "nat \<Rightarrow> nat \<Rightarrow> ch_rule_engine \<Rightarrow> ch_rule_match_context \<Rightarrow> ch_rule_decision result" where
  "ch_rule_engine_decide started finished engine c =
     (case mc_target c of
        None \<Rightarrow> Inl CH_ERROR_INVALID_ARGUMENT
      | Some target \<Rightarrow>
          (let network = ch_trimmed_lower (mc_network c) False;
               (host, port) = ch_split_target (Some target);
               d = \<lparr>rd_rule_name = [], rd_rule_number = length (re_rules engine) + 1,
                    rd_action = ''chain'', rd_chain_name = re_default_chain engine, rd_group_name = [],
                    rd_target = target, rd_host = host, rd_port = port, rd_network = network,
                    rd_source = or_empty (mc_source c), rd_is_default = True,
                    rd_elapsed_ns = elapsed_between started finished,
                    rd_matcher_kind = [], rd_matcher_value = [],
                    rd_summary = snprintf 768 ''No rule matched; used the default chain.''\<rparr>
           in case select_rule 0 (re_rules engine) c network host port of
                None \<Rightarrow> Inr d
              | Some (i, r, kind, v) \<Rightarrow>
                  Inr (d\<lparr>rd_rule_name := cr_name r, rd_rule_number := i + 1, rd_action := cr_action r,
                         rd_chain_name := or_empty (cr_chain_name r), rd_group_name := or_empty (cr_group_name r),
                         rd_is_default := False, rd_matcher_kind := kind, rd_matcher_value := v,
                         rd_summary := snprintf 768
                           (''Rule \"'' @ cr_name r @ ''\" matched '' @ kind @
                            (if v = [] then ''.'' else '' \"'' @ v @ ''\".''))\<rparr>)))"


section \<open>CIDR blocks as bit prefixes\<close>

text \<open>The bits of an address, most significant first.\<close>

definition byte_bits :: "byte \<Rightarrow> bool list" where
  "byte_bits b = map (bit b) [7, 6, 5, 4, 3, 2, 1, 0]"

definition address_bits :: "byte list \<Rightarrow> bool list" where
  "address_bits a = concat (map byte_bits a)"

lemma length_byte_bits [simp]: "length (byte_bits b) = 8"
  by (simp add: byte_bits_def)

lemma length_address_bits [simp]: "length (address_bits a) = 8 * length a"
  by (induction a) (simp_all add: address_bits_def)

lemma address_bits_simps [simp]: "address_bits [] = []" "address_bits (b # a) = byte_bits b @ address_bits a"
  by (simp_all add: address_bits_def)

lemma byte_bits_inject [simp]: "byte_bits a = byte_bits b \<longleftrightarrow> a = b"
proof
  assume "byte_bits a = byte_bits b"
  then have "bit a n = bit b n" if "n < 8" for n
    using that by (auto simp: byte_bits_def numeral_eq_Suc less_Suc_eq)
  then show "a = b"
    by (intro bit_eqI) (simp add: bit_imp_le_length)
qed simp

lemma address_bits_inject: "length a = length b \<Longrightarrow> address_bits a = address_bits b \<longleftrightarrow> a = b"
  by (induction a b rule: list_induct2) auto

lemma mask_bits:
  assumes "0 < r" "r < 8"
  shows "(a :: byte) AND push_bit (8 - r) 0xff = b AND push_bit (8 - r) 0xff \<longleftrightarrow>
    take r (byte_bits a) = take r (byte_bits b)"
proof -
  have "push_bit (8 - r) (0xff :: byte) = push_bit (8 - r) (mask 8)"
    by (simp add: mask_eq_exp_minus_1)
  then have m: "bit (push_bit (8 - r) 0xff :: byte) n \<longleftrightarrow> 8 - r \<le> n \<and> n < 8" for n
    using assms by (auto simp: bit_push_bit_iff bit_mask_iff simp del: push_bit_numeral)
  have "a AND push_bit (8 - r) 0xff = b AND push_bit (8 - r) 0xff \<longleftrightarrow>
      (\<forall>n \<in> {8 - r..<8}. bit a n = bit b n)"
    unfolding bit_eq_iff [of "a AND _"] by (auto simp: bit_and_iff m)
  also have "{8 - r..<8} = set (take r [7, 6, 5, 4, 3, 2, 1, 0])"
    using assms by (auto simp: numeral_eq_Suc less_Suc_eq)
  also have "(\<forall>n \<in> set (take r [7, 6, 5, 4, 3, 2, 1, 0]). bit a n = bit b n) \<longleftrightarrow>
      take r (byte_bits a) = take r (byte_bits b)"
    by (simp only: byte_bits_def take_map map_eq_conv)
  finally show ?thesis .
qed

lemma take_address_bits:
  "p < 8 * length a \<Longrightarrow>
   take p (address_bits a) = address_bits (take (p div 8) a) @ take (p mod 8) (byte_bits (a ! (p div 8)))"
proof (induction a arbitrary: p)
  case (Cons b a)
  show ?case
  proof (cases "p < 8")
    case False
    then obtain q where q: "p = q + 8"
      by (metis add.commute le_add_diff_inverse not_less)
    then have "p div 8 = Suc (q div 8)"
      by simp
    with q show ?thesis
      using Cons by simp
  qed simp
qed simp

lemma cidr_contains_iff:
  assumes "length (cidr_address c) = length a" "cidr_prefix_length c \<le> 8 * length a"
  shows "ch_cidr_contains c a \<longleftrightarrow>
    take (cidr_prefix_length c) (address_bits (cidr_address c)) = take (cidr_prefix_length c) (address_bits a)"
proof (cases "cidr_prefix_length c < 8 * length a")
  case True
  let ?p = "cidr_prefix_length c"
  have whole: "address_bits (take (?p div 8) (cidr_address c)) = address_bits (take (?p div 8) a) \<longleftrightarrow>
      take (?p div 8) (cidr_address c) = take (?p div 8) a"
    by (rule address_bits_inject) (simp add: assms(1))
  have "take ?p (address_bits (cidr_address c)) = take ?p (address_bits a) \<longleftrightarrow>
      take (?p div 8) (cidr_address c) = take (?p div 8) a \<and>
      take (?p mod 8) (byte_bits (cidr_address c ! (?p div 8))) = take (?p mod 8) (byte_bits (a ! (?p div 8)))"
    using True assms(1) whole by (subst (1 2) take_address_bits) (auto simp: append_eq_append_conv)
  then show ?thesis
    using mask_bits [of "?p mod 8"] by (auto simp: ch_cidr_contains_def Let_def)
next
  case False
  then have "cidr_prefix_length c = 8 * length a"
    using assms(2) by simp
  then show ?thesis
    using assms(1) address_bits_inject [OF assms(1)] by (auto simp: ch_cidr_contains_def Let_def)
qed

section \<open>What compilation promises\<close>

definition cidr_ok :: "ch_cidr \<Rightarrow> bool" where
  "cidr_ok c \<longleftrightarrow>
     length (cidr_address c) = (case cidr_family c of AF_INET \<Rightarrow> 4 | AF_INET6 \<Rightarrow> 16) \<and>
     cidr_prefix_length c \<le> 8 * length (cidr_address c)"

lemma compile_cidr_ok: "compile_cidr raw = Inr c \<Longrightarrow> cidr_ok c"
  by (auto simp: compile_cidr_def cidr_ok_def Let_def dest!: inet_pton_length
      split: option.splits prod.splits if_splits)

lemma cidr_list_ok: "ch_cidr_list_compile xs = Inr cs \<Longrightarrow> \<forall>c \<in> set cs. cidr_ok c"
  by (induction xs arbitrary: cs) (auto simp: bind_result_Inr_iff compile_cidr_ok)

lemma find_cidr_find:
  "find_cidr cs f a = map_option cidr_text (find (\<lambda>c. cidr_family c = f \<and> ch_cidr_contains c a) cs)"
  by (induction cs) auto

lemma compile_strings_distinct: "distinct out \<Longrightarrow> distinct (compile_strings d out xs)"
  by (induction d out xs rule: compile_strings.induct)
    (auto simp: Let_def ch_owned_strings_contains_def list_ex_iff)

lemma set_compile_strings:
  "set (compile_strings d out xs) = set out \<union> ((\<lambda>x. ch_trimmed_lower x d) ` set xs - {[]})"
  by (induction d out xs rule: compile_strings.induct)
    (auto simp: Let_def ch_owned_strings_contains_def list_ex_iff)

lemma set_owned_strings: "set (ch_owned_strings_compile xs d) = (\<lambda>x. ch_trimmed_lower x d) ` set xs - {[]}"
  by (simp add: ch_owned_strings_compile_def set_compile_strings)

text \<open>The routes a rule may name.\<close>

definition route_ok :: "ch_string_list \<Rightarrow> ch_string_list \<Rightarrow> string \<Rightarrow> string option \<Rightarrow> string option \<Rightarrow> bool" where
  "route_ok kc kg action chain grp \<longleftrightarrow>
     action \<in> {''direct'', ''block'', ''reject''} \<and> chain = None \<and> grp = None \<or>
     action = ''chain'' \<and> chain \<in> set kc \<and> chain \<noteq> None \<and> grp = None \<or>
     action = ''group'' \<and> grp \<in> set kg \<and> grp \<noteq> None \<and> chain = None"

lemma name_known_iff: "ch_name_known names n \<longleftrightarrow> Some n \<in> set names"
  by (auto simp: ch_name_known_def list_ex_iff)

lemma parse_action_route:
  "ch_parse_action raw kc kg = Inr (action, chain, grp) \<Longrightarrow> route_ok kc kg action chain grp"
  by (auto simp: ch_parse_action_def route_ok_def Let_def name_known_iff split: if_splits)

definition rule_ok :: "ch_string_list \<Rightarrow> ch_string_list \<Rightarrow> ch_compiled_rule \<Rightarrow> bool" where
  "rule_ok kc kg r \<longleftrightarrow>
     route_ok kc kg (cr_action r) (cr_chain_name r) (cr_group_name r) \<and>
     (\<forall>c \<in> set (cr_cidrs r). cidr_ok c) \<and> (\<forall>c \<in> set (cr_source_cidrs r). cidr_ok c) \<and>
     (\<forall>s \<in> set (cr_rule_sets r). \<forall>c \<in> set (cs_cidrs s). cidr_ok c) \<and> cr_name r \<noteq> []"

lemma compile_rule_set_ok: "ch_compile_rule_set x = Inr s \<Longrightarrow> \<forall>c \<in> set (cs_cidrs s). cidr_ok c"
  by (auto simp: ch_compile_rule_set_def bind_result_Inr_iff dest: cidr_list_ok)

lemma compile_rule_sets_ok:
  "compile_rule_sets known out xs = Inr ss \<Longrightarrow> \<forall>s \<in> set out. \<forall>c \<in> set (cs_cidrs s). cidr_ok c \<Longrightarrow>
   \<forall>s \<in> set ss. \<forall>c \<in> set (cs_cidrs s). cidr_ok c"
proof (induction known out xs rule: compile_rule_sets.induct)
  case (2 known out x xs)
  then show ?case
    by (fastforce simp: Let_def bind_result_Inr_iff dest: compile_rule_set_ok split: if_splits option.splits)
qed simp

lemma compile_rule_ok:
  assumes "ch_compile_rule x kc kg sets = Inr r"
  shows "rule_ok kc kg r"
  using assms parse_action_route
  by (fastforce simp: ch_compile_rule_def Let_def rule_ok_def bind_result_Inr_iff
      dest: cidr_list_ok compile_rule_sets_ok split: if_splits prod.splits)

definition engine_ok :: "ch_string_list \<Rightarrow> ch_string_list \<Rightarrow> ch_rule_engine \<Rightarrow> bool" where
  "engine_ok kc kg e \<longleftrightarrow>
     Some (re_default_chain e) \<in> set kc \<and> (\<forall>r \<in> set (re_rules e). rule_ok kc kg r) \<and>
     (re_needs_process e \<longleftrightarrow> (\<exists>r \<in> set (re_rules e). cr_processes r \<noteq> []))"

lemma compile_rules_ok:
  "compile_rules xs kc kg sets e = Inr e' \<Longrightarrow> engine_ok kc kg e \<Longrightarrow> engine_ok kc kg e'"
proof (induction xs arbitrary: e)
  case (Cons x xs)
  then obtain r where r: "ch_compile_rule x kc kg sets = Inr r"
    and e': "compile_rules xs kc kg sets
      (e\<lparr>re_rules := re_rules e @ [r], re_needs_process := re_needs_process e \<or> cr_processes r \<noteq> []\<rparr>) = Inr e'"
    by (auto simp: bind_result_Inr_iff)
  have "engine_ok kc kg
      (e\<lparr>re_rules := re_rules e @ [r], re_needs_process := re_needs_process e \<or> cr_processes r \<noteq> []\<rparr>)"
    using Cons.prems(2) compile_rule_ok [OF r] by (auto simp: engine_ok_def)
  then show ?case
    using Cons.IH e' by blast
qed simp

lemma engine_compile_ok:
  "ch_rule_engine_compile rules default_chain kc kg sets = Inr e \<Longrightarrow> engine_ok kc kg e"
  by (auto simp: ch_rule_engine_compile_def Let_def engine_ok_def name_known_iff
      split: if_splits dest!: compile_rules_ok [where kc = kc and kg = kg])

section \<open>The first rule that matches\<close>

text \<open>The request the matchers see: context, normalised network, host and port.\<close>

definition rule_query :: "ch_rule_match_context \<Rightarrow> ch_rule_match_context \<times> string \<times> string \<times> string" where
  "rule_query c = (c, ch_trimmed_lower (mc_network c) False, ch_split_target (Some (the (mc_target c))))"

fun query_matches :: "ch_compiled_rule \<Rightarrow> ch_rule_match_context \<times> string \<times> string \<times> string \<Rightarrow> (string \<times> string) option" where
  "query_matches r (c, network, host, port) = ch_rule_matches r c network host port"

fun query_select ::
  "ch_compiled_rule list \<Rightarrow> ch_rule_match_context \<times> string \<times> string \<times> string \<Rightarrow>
   (nat \<times> ch_compiled_rule \<times> string \<times> string) option" where
  "query_select rs (c, network, host, port) = select_rule 0 rs c network host port"

definition rule_applies :: "ch_compiled_rule \<Rightarrow> ch_rule_match_context \<Rightarrow> bool" where
  "rule_applies r c \<longleftrightarrow> query_matches r (rule_query c) \<noteq> None"

lemma select_rule_shift:
  "select_rule (i + k) rs c n h p = map_option (\<lambda>(j, x). (j + k, x)) (select_rule i rs c n h p)"
proof (induction rs arbitrary: i)
  case (Cons r rs)
  then show ?case
    using Cons.IH [of "i + 1"] by (auto split: option.splits)
qed simp

interpretation rule_list: first_match "\<lambda>r q. query_matches r q \<noteq> None" Some "\<lambda>_. None"
  "\<lambda>rs q. map_option (\<lambda>(i, r, km). r) (query_select rs q)"
proof
  fix r rs and q :: "ch_rule_match_context \<times> string \<times> string \<times> string"
  obtain c n h p where q: "q = (c, n, h, p)"
    by (cases q) auto
  show "map_option (\<lambda>(i, r, km). r) (query_select [] q) = None"
    by (simp add: q)
  show "map_option (\<lambda>(i, r, km). r) (query_select (r # rs) q) =
      (if query_matches r q \<noteq> None then Some r else map_option (\<lambda>(i, r, km). r) (query_select rs q))"
    using select_rule_shift [of 0 1 rs c n h p]
    by (cases "select_rule 0 rs c n h p") (auto simp: q split: option.splits)
qed

lemma select_rule_nth:
  "select_rule i rs c n h p = Some (j, r, km) \<Longrightarrow> i \<le> j \<and> j - i < length rs \<and> rs ! (j - i) = r \<and>
     ch_rule_matches r c n h p = Some km"
proof (induction rs arbitrary: i)
  case (Cons x xs)
  then show ?case
    by (cases "ch_rule_matches x c n h p") (fastforce simp: Suc_diff_Suc nth_Cons')+
qed simp

lemma query_select_nth:
  "query_select rs q = Some (i, r, km) \<Longrightarrow> i < length rs \<and> rs ! i = r \<and> query_matches r q = Some km"
  using select_rule_nth [of 0 rs _ _ _ _ i r km] by (cases q) simp

lemma query_select_find:
  "map_option (\<lambda>(i, r, km). r) (query_select rs (rule_query c)) = find (\<lambda>r. rule_applies r c) rs"
  unfolding rule_applies_def using rule_list.decide_find [of rs "rule_query c"] by (simp split: option.splits)

text \<open>A decision in terms of the selection.\<close>

definition decision_for ::
  "ch_rule_engine \<Rightarrow> (nat \<times> ch_compiled_rule \<times> string \<times> string) option \<Rightarrow> ch_rule_decision \<Rightarrow> bool" where
  "decision_for e s d =
     (case s of
        None \<Rightarrow> rd_is_default d \<and> rd_action d = ''chain'' \<and> rd_chain_name d = re_default_chain e \<and>
          rd_group_name d = [] \<and> rd_rule_number d = length (re_rules e) + 1
      | Some (i, r, kind, v) \<Rightarrow> \<not> rd_is_default d \<and> rd_rule_name d = cr_name r \<and> rd_action d = cr_action r \<and>
          rd_chain_name d = or_empty (cr_chain_name r) \<and> rd_group_name d = or_empty (cr_group_name r) \<and>
          rd_rule_number d = i + 1)"

lemma decide_select:
  assumes "mc_target c = Some target"
  shows "\<exists>d. ch_rule_engine_decide t1 t2 e c = Inr d \<and>
    decision_for e (query_select (re_rules e) (rule_query c)) d"
proof -
  obtain h p where hp: "ch_split_target (Some target) = (h, p)"
    by (cases "ch_split_target (Some target)")
  show ?thesis
    using assms hp
    by (cases "query_select (re_rules e) (rule_query c)")
      (auto simp: ch_rule_engine_decide_def rule_query_def Let_def decision_for_def)
qed

section \<open>What a rule matches\<close>

definition host_address :: "string \<Rightarrow> (family \<times> byte list) option" where
  "host_address host =
     (if 48 \<le> length host then None
      else
        let h = (if host \<noteq> [] \<and> hd host = CHR ''['' \<and> 1 < length host \<and> last host = CHR '']''
                 then butlast (tl host) else host)
        in case inet_pton AF_INET h of
             Some a \<Rightarrow> Some (AF_INET, a)
           | None \<Rightarrow> map_option (Pair AF_INET6) (inet_pton AF_INET6 h))"

text \<open>An address lies in a block when the families agree and the first bits are equal.\<close>

definition in_block :: "family \<Rightarrow> byte list \<Rightarrow> ch_cidr \<Rightarrow> bool" where
  "in_block f a c \<longleftrightarrow> cidr_family c = f \<and>
     take (cidr_prefix_length c) (address_bits (cidr_address c)) = take (cidr_prefix_length c) (address_bits a)"

definition host_in :: "ch_cidr list \<Rightarrow> string \<Rightarrow> bool" where
  "host_in cs host \<longleftrightarrow> (\<exists>f a. host_address host = Some (f, a) \<and> (\<exists>c \<in> set cs. in_block f a c))"

definition host_named :: "string list \<Rightarrow> string list \<Rightarrow> string list \<Rightarrow> string \<Rightarrow> bool" where
  "host_named domains suffixes keywords host \<longleftrightarrow>
     host \<in> set domains \<or> (\<exists>s \<in> set suffixes. host = s \<or> (\<exists>x. host = x @ ''.'' @ s)) \<or>
     (\<exists>k \<in> set keywords. \<exists>a b. host = a @ k @ b)"

definition process_names :: "ch_rule_match_context \<Rightarrow> string set" where
  "process_names c =
     (let path = ch_trimmed_lower (mc_process_path c) False;
          base = (case strrchr path (CHR ''/'') of None \<Rightarrow> path | Some (_, b) \<Rightarrow> b)
      in insert (ch_trimmed_lower (mc_process_name c) False) ({path, base} - {[]}))"

definition rule_covers :: "ch_compiled_rule \<Rightarrow> ch_rule_match_context \<Rightarrow> bool" where
  "rule_covers r c \<longleftrightarrow>
     (let (_, network, host, port) = rule_query c in
      (cr_networks r = [] \<or> network \<in> set (cr_networks r)) \<and>
      (cr_ports r = [] \<or> st_converted (strtol port) \<and> st_rest (strtol port) = [] \<and>
                         st_value (strtol port) \<in> set (cr_ports r)) \<and>
      (cr_source_cidrs r = [] \<or> host_in (cr_source_cidrs r) (fst (ch_split_target (mc_source c)))) \<and>
      (cr_processes r = [] \<or> set (cr_processes r) \<inter> process_names c \<noteq> {}) \<and>
      (cr_domains r = [] \<and> cr_suffixes r = [] \<and> cr_keywords r = [] \<or>
       host_named (cr_domains r) (cr_suffixes r) (cr_keywords r) host) \<and>
      (cr_cidrs r = [] \<or> host_in (cr_cidrs r) host) \<and>
      (cr_rule_sets r = [] \<or>
       (\<exists>s \<in> set (cr_rule_sets r). host_named (cs_domains s) (cs_suffixes s) (cs_keywords s) host \<or>
                                   host_in (cs_cidrs s) host)))"

lemma suffix_matches_iff: "suffix_matches host s \<longleftrightarrow> host = s \<or> (\<exists>x. host = x @ ''.'' @ s)"
proof
  assume m: "suffix_matches host s"
  show "host = s \<or> (\<exists>x. host = x @ ''.'' @ s)"
  proof (cases "host = s")
    case False
    let ?n = "length host - length s - 1"
    have "length s < length host" "host ! ?n = CHR ''.''" "drop (Suc ?n) host = s"
      using m False by (auto simp: suffix_matches_def Suc_diff_Suc)
    then have "host = take ?n host @ ''.'' @ s"
      using id_take_nth_drop [of ?n host] by simp
    then show ?thesis
      by blast
  qed simp
qed (auto simp: suffix_matches_def nth_append)

lemma domain_match_iff: "ch_domain_match d s k host \<noteq> None \<longleftrightarrow> host_named d s k host"
proof -
  have "ch_domain_match d s k host \<noteq> None \<longleftrightarrow>
      host \<in> set d \<or> find (suffix_matches host) s \<noteq> None \<or> find (strstr host) k \<noteq> None"
    by (auto simp: ch_domain_match_def ch_owned_strings_contains_def list_ex_iff split: option.splits)
  then show ?thesis
    unfolding find_some_iff_ex Bex_def host_named_def by (simp only: suffix_matches_iff strstr_iff)
qed

lemma process_match_iff: "ch_process_match ps (mc_process_name c) (mc_process_path c) \<noteq> None \<longleftrightarrow>
  set ps \<inter> process_names c \<noteq> {}"
  unfolding ch_process_match_def process_names_def find_some_iff_ex Let_def by blast

lemma match_cidrs_iff:
  assumes "\<forall>c \<in> set cs. cidr_ok c"
  shows "ch_match_cidrs cs host \<noteq> None \<longleftrightarrow> host_in cs host"
proof -
  have found: "find_cidr cs f a \<noteq> None \<longleftrightarrow> (\<exists>c \<in> set cs. in_block f a c)" if "inet_pton f h = Some a" for f a h
  proof -
    have "(cidr_family c = f \<and> ch_cidr_contains c a) = in_block f a c" if "c \<in> set cs" for c
    proof (cases "cidr_family c = f")
      case True
      then have "length (cidr_address c) = length a" "cidr_prefix_length c \<le> 8 * length a"
        using assms that inet_pton_length [OF \<open>inet_pton f h = Some a\<close>] by (auto simp: cidr_ok_def)
      with True show ?thesis
        by (simp add: in_block_def cidr_contains_iff)
    qed (simp add: in_block_def)
    then have "(\<exists>c \<in> set cs. cidr_family c = f \<and> ch_cidr_contains c a) \<longleftrightarrow> (\<exists>c \<in> set cs. in_block f a c)"
      by blast
    then show ?thesis
      unfolding find_cidr_find by (simp only: option.map_disc_iff find_some_iff_ex)
  qed
  have *: "ch_match_cidrs cs host = (case host_address host of None \<Rightarrow> None | Some (f, a) \<Rightarrow> find_cidr cs f a)"
    by (simp add: ch_match_cidrs_def host_address_def Let_def split: option.splits)
  moreover have "\<exists>h. inet_pton f h = Some a" if "host_address host = Some (f, a)" for f a
    using that by (auto simp: host_address_def Let_def split: option.splits if_splits)
  ultimately have "ch_match_cidrs cs host \<noteq> None \<longleftrightarrow> (\<exists>c \<in> set cs. in_block f a c)"
    if "host_address host = Some (f, a)" for f a
    using that found by (simp only: option.case prod.case) blast
  then show ?thesis
    using * by (cases "host_address host") (simp_all add: host_in_def split_paired_all)
qed

lemma find_set_iff:
  assumes "\<forall>s \<in> set ss. \<forall>c \<in> set (cs_cidrs s). cidr_ok c"
  shows "find_set ss host \<noteq> None \<longleftrightarrow>
    (\<exists>s \<in> set ss. host_named (cs_domains s) (cs_suffixes s) (cs_keywords s) host \<or> host_in (cs_cidrs s) host)"
  using assms
proof (induction ss)
  case (Cons s ss)
  have "match_set s host \<noteq> None \<longleftrightarrow>
      ch_domain_match (cs_domains s) (cs_suffixes s) (cs_keywords s) host \<noteq> None \<or>
      ch_match_cidrs (cs_cidrs s) host \<noteq> None"
    by (auto simp: match_set_def split: option.splits)
  then have "match_set s host \<noteq> None \<longleftrightarrow>
      host_named (cs_domains s) (cs_suffixes s) (cs_keywords s) host \<or> host_in (cs_cidrs s) host"
    using Cons.prems match_cidrs_iff [of "cs_cidrs s" host] by (simp add: domain_match_iff del: not_None_eq)
  with Cons show ?case
    by (cases "match_set s host") auto
qed simp

text \<open>Whether a stage passes does not depend on the matcher noted so far.\<close>

lemma bind_stage:
  assumes "x \<noteq> None \<longleftrightarrow> Q" "\<And>m. f m \<noteq> None \<longleftrightarrow> P"
  shows "Option.bind x f \<noteq> None \<longleftrightarrow> Q \<and> P"
  using assms by (cases x) auto

lemma match_network_iff: "match_network r network \<noteq> None \<longleftrightarrow> cr_networks r = [] \<or> network \<in> set (cr_networks r)"
  by (simp add: match_network_def ch_owned_strings_contains_def list_ex_iff)

lemma match_port_iff:
  "match_port r port m \<noteq> None \<longleftrightarrow>
     cr_ports r = [] \<or> st_converted (strtol port) \<and> st_rest (strtol port) = [] \<and>
                       st_value (strtol port) \<in> set (cr_ports r)"
  by (auto simp: match_port_def list_ex_iff Let_def)

lemma match_source_iff:
  "match_source r c m \<noteq> None \<longleftrightarrow>
     cr_source_cidrs r = [] \<or> ch_match_cidrs (cr_source_cidrs r) (fst (ch_split_target (mc_source c))) \<noteq> None"
  by (simp add: match_source_def split: option.splits)

lemma match_process_iff:
  "match_process r c m \<noteq> None \<longleftrightarrow>
     cr_processes r = [] \<or> ch_process_match (cr_processes r) (mc_process_name c) (mc_process_path c) \<noteq> None"
  by (simp add: match_process_def split: option.splits)

lemma match_domain_iff:
  "match_domain r host m \<noteq> None \<longleftrightarrow>
     cr_domains r = [] \<and> cr_suffixes r = [] \<and> cr_keywords r = [] \<or>
     ch_domain_match (cr_domains r) (cr_suffixes r) (cr_keywords r) host \<noteq> None"
  by (simp add: match_domain_def split: option.splits)

lemma match_cidr_iff: "match_cidr r host m \<noteq> None \<longleftrightarrow> cr_cidrs r = [] \<or> ch_match_cidrs (cr_cidrs r) host \<noteq> None"
  by (simp add: match_cidr_def split: option.splits)

lemma match_rule_set_iff:
  "match_rule_set r host m \<noteq> None \<longleftrightarrow> cr_rule_sets r = [] \<or> find_set (cr_rule_sets r) host \<noteq> None"
  by (simp add: match_rule_set_def split: option.splits)

lemma rule_matches_stages:
  "ch_rule_matches r c network host port \<noteq> None \<longleftrightarrow>
     (cr_networks r = [] \<or> network \<in> set (cr_networks r)) \<and>
     (cr_ports r = [] \<or> st_converted (strtol port) \<and> st_rest (strtol port) = [] \<and>
                        st_value (strtol port) \<in> set (cr_ports r)) \<and>
     (cr_source_cidrs r = [] \<or> ch_match_cidrs (cr_source_cidrs r) (fst (ch_split_target (mc_source c))) \<noteq> None) \<and>
     (cr_processes r = [] \<or> ch_process_match (cr_processes r) (mc_process_name c) (mc_process_path c) \<noteq> None) \<and>
     (cr_domains r = [] \<and> cr_suffixes r = [] \<and> cr_keywords r = [] \<or>
      ch_domain_match (cr_domains r) (cr_suffixes r) (cr_keywords r) host \<noteq> None) \<and>
     (cr_cidrs r = [] \<or> ch_match_cidrs (cr_cidrs r) host \<noteq> None) \<and>
     (cr_rule_sets r = [] \<or> find_set (cr_rule_sets r) host \<noteq> None) \<and> True"
  unfolding ch_rule_matches_def
  by (intro bind_stage match_network_iff match_port_iff match_source_iff match_process_iff match_domain_iff
      match_cidr_iff match_rule_set_iff) simp

lemma rule_covers_iff:
  assumes "rule_ok kc kg r"
  shows "rule_applies r c \<longleftrightarrow> rule_covers r c"
proof -
  obtain host port where hp: "ch_split_target (Some (the (mc_target c))) = (host, port)"
    by (cases "ch_split_target (Some (the (mc_target c)))")
  have ok: "\<forall>c \<in> set (cr_cidrs r). cidr_ok c" "\<forall>c \<in> set (cr_source_cidrs r). cidr_ok c"
    "\<forall>s \<in> set (cr_rule_sets r). \<forall>c \<in> set (cs_cidrs s). cidr_ok c"
    using assms by (simp_all add: rule_ok_def)
  show ?thesis
    unfolding rule_applies_def rule_covers_def rule_query_def hp query_matches.simps rule_matches_stages
      domain_match_iff process_match_iff match_cidrs_iff [OF ok(1)] match_cidrs_iff [OF ok(2)] find_set_iff [OF ok(3)]
    by (simp only: prod.case Let_def simp_thms)
qed

section \<open>Properties\<close>

text \<open>A small configuration for the instances below.\<close>

definition sample_rule :: ch_rule_spec where
  "sample_rule = \<lparr>rs_name = Some ''lan'', rs_action = Some '' Chain: office '', rs_rule_sets = [], rs_domains = [],
     rs_domain_suffixes = [], rs_domain_keywords = [], rs_cidrs = [Some ''10.128.0.0/9''], rs_source_cidrs = [],
     rs_ports = [443], rs_networks = [], rs_processes = []\<rparr>"

definition sample_engine :: "ch_rule_engine result" where
  "sample_engine = ch_rule_engine_compile [sample_rule] (Some ''home'') [Some ''home'', Some ''office''] [] []"

definition sample_context :: "string \<Rightarrow> ch_rule_match_context" where
  "sample_context target = \<lparr>mc_network = Some ''TCP'', mc_target = Some target, mc_source = None,
     mc_process_name = Some ''curl'', mc_process_path = None\<rparr>"

definition sample_compiled :: ch_compiled_rule where
  "sample_compiled = \<lparr>cr_name = ''lan'', cr_action = ''chain'', cr_chain_name = Some ''office'', cr_group_name = None,
     cr_domains = [], cr_suffixes = [], cr_keywords = [],
     cr_cidrs = [\<lparr>cidr_family = AF_INET, cidr_address = [10, 128, 0, 0], cidr_prefix_length = 9,
                  cidr_text = ''10.128.0.0/9''\<rparr>],
     cr_source_cidrs = [], cr_ports = [443], cr_networks = [], cr_processes = [], cr_rule_sets = []\<rparr>"

lemma sample_compile:
  "ch_compile_rule sample_rule [Some ''home'', Some ''office''] [] [] = Inr sample_compiled"
  by code_simp

lemma sample_engine_compile:
  "sample_engine = Inr \<lparr>re_default_chain = ''home'', re_rules = [sample_compiled], re_needs_process = False\<rparr>"
  by (simp add: sample_engine_def ch_rule_engine_compile_def sample_compile) code_simp

lemma sample_applies:
  "rule_applies sample_compiled (sample_context ''10.200.1.2:443'')"
  "\<not> rule_applies sample_compiled (sample_context ''10.1.1.2:443'')"
  by code_simp+

lemma sample_decision:
  "map_sum id rd_action (ch_rule_engine_decide 0 5 (projr sample_engine) (sample_context ''10.200.1.2:443'')) =
   Inr ''chain''"
proof -
  have "select_rule 0 [sample_compiled] (sample_context ''10.200.1.2:443'') ''tcp'' ''10.200.1.2'' ''443'' =
      Some (0, sample_compiled, ''port'', ''443'')"
    "ch_split_target (Some ''10.200.1.2:443'') = (''10.200.1.2'', ''443'')"
    "ch_trimmed_lower (Some ''TCP'') False = ''tcp''" "cr_action sample_compiled = ''chain''"
    by code_simp+
  then show ?thesis
    by (simp add: sample_engine_compile ch_rule_engine_decide_def sample_context_def Let_def)
qed

text \<open>C14: A compiled rule matches a request exactly when every kind of matcher it has accepts: the network, the
  port, the source address, the process, the destination name (equal, below a suffix at a label boundary, or
  containing a keyword), the destination block and the rule sets.  Membership in a block means that the
  first bits of the two addresses agree, so the masked comparison of the code is correct for every prefix
  length it accepts.\<close>

theorem rule_matches_spec:
  assumes "ch_compile_rule x kc kg sets = Inr r"
  shows "rule_applies r c \<longleftrightarrow> rule_covers r c"
  using compile_rule_ok [OF assms] by (rule rule_covers_iff)

theorem rule_matches_spec_witness:
  "rule_covers sample_compiled (sample_context ''10.200.1.2:443'') \<and>
   \<not> rule_covers sample_compiled (sample_context ''10.1.1.2:443'')"
  using rule_matches_spec [OF sample_compile] sample_applies by blast

text \<open>C15: A decision is that of the first rule that applies, with its number, name and route; when no rule
  applies it is the default chain with the number one past the last rule.  With a target the engine always
  decides.\<close>

theorem decide_first_match:
  assumes "mc_target c = Some target"
  shows "\<exists>d. ch_rule_engine_decide t1 t2 e c = Inr d \<and>
    (case find (\<lambda>r. rule_applies r c) (re_rules e) of
       None \<Rightarrow> rd_is_default d \<and> rd_action d = ''chain'' \<and> rd_chain_name d = re_default_chain e \<and>
         rd_rule_number d = length (re_rules e) + 1
     | Some r \<Rightarrow> \<not> rd_is_default d \<and> rd_rule_name d = cr_name r \<and> rd_action d = cr_action r \<and>
         rd_chain_name d = or_empty (cr_chain_name r) \<and> rd_group_name d = or_empty (cr_group_name r) \<and>
         0 < rd_rule_number d \<and> rd_rule_number d \<le> length (re_rules e) \<and> re_rules e ! (rd_rule_number d - 1) = r)"
proof -
  obtain d where d: "ch_rule_engine_decide t1 t2 e c = Inr d"
    "decision_for e (query_select (re_rules e) (rule_query c)) d"
    using decide_select [OF assms] by blast
  note found = query_select_find [of "re_rules e" c]
  show ?thesis
  proof (cases "query_select (re_rules e) (rule_query c)")
    case None
    then show ?thesis
      using d found by (auto simp: decision_for_def)
  next
    case (Some s)
    obtain i r kind v where s: "s = (i, r, kind, v)"
      by (cases s) auto
    then show ?thesis
      using d query_select_nth [OF Some [unfolded s]] found [symmetric] Some
      by (intro exI [of _ d]) (simp add: decision_for_def)
  qed
qed

theorem decide_first_match_witness:
  "\<exists>d. ch_rule_engine_decide 0 5 (projr sample_engine) (sample_context ''10.200.1.2:443'') = Inr d \<and>
     rd_chain_name d = ''office'' \<and> \<not> rd_is_default d"
proof -
  have target: "mc_target (sample_context ''10.200.1.2:443'') = Some ''10.200.1.2:443''"
    by (simp add: sample_context_def)
  show ?thesis
    using decide_first_match [OF target, of 0 5 "projr sample_engine"] sample_applies(1)
    by (auto simp: sample_engine_compile) (simp add: sample_compiled_def)
qed

text \<open>C16: Decisions of a compiled engine only name routes that exist: the action is one of the five, a chain
  action carries a chain known at compilation and a group action a known policy group; the default chain
  is known too.\<close>

theorem decide_known_route:
  assumes "ch_rule_engine_compile rules default_chain kc kg sets = Inr e"
    and "ch_rule_engine_decide t1 t2 e c = Inr d"
  shows "rd_action d \<in> {''direct'', ''block'', ''reject''} \<and> rd_chain_name d = [] \<and> rd_group_name d = [] \<or>
    rd_action d = ''chain'' \<and> Some (rd_chain_name d) \<in> set kc \<and> rd_group_name d = [] \<or>
    rd_action d = ''group'' \<and> Some (rd_group_name d) \<in> set kg \<and> rd_chain_name d = []"
proof -
  have ok: "engine_ok kc kg e"
    using assms(1) by (rule engine_compile_ok)
  obtain target where "mc_target c = Some target"
    using assms(2) by (auto simp: ch_rule_engine_decide_def split: option.splits)
  then have d: "decision_for e (query_select (re_rules e) (rule_query c)) d"
    using decide_select [of c target t1 t2 e] assms(2) by auto
  show ?thesis
  proof (cases "query_select (re_rules e) (rule_query c)")
    case None
    then show ?thesis
      using d ok by (simp add: engine_ok_def decision_for_def)
  next
    case (Some s)
    obtain i r kind v where s: "query_select (re_rules e) (rule_query c) = Some (i, r, kind, v)"
      using Some by (cases s) auto
    then have "r \<in> set (re_rules e)"
      using query_select_nth nth_mem by blast
    then have "route_ok kc kg (cr_action r) (cr_chain_name r) (cr_group_name r)"
      using ok by (simp add: engine_ok_def rule_ok_def)
    then show ?thesis
      using d s by (auto simp: route_ok_def decision_for_def)
  qed
qed

theorem decide_known_route_witness:
  "ch_rule_engine_compile [sample_rule] (Some ''home'') [Some ''home'', Some ''office''] [] [] = Inr (projr sample_engine) \<and>
   (\<exists>d. ch_rule_engine_decide 0 5 (projr sample_engine) (sample_context ''10.200.1.2:443'') = Inr d \<and>
     Some (rd_chain_name d) \<in> {Some ''home'', Some ''office''})"
proof -
  have e: "ch_rule_engine_compile [sample_rule] (Some ''home'') [Some ''home'', Some ''office''] [] [] = Inr (projr sample_engine)"
    using sample_engine_compile by (simp add: sample_engine_def)
  moreover obtain d where d: "ch_rule_engine_decide 0 5 (projr sample_engine) (sample_context ''10.200.1.2:443'') = Inr d"
    "rd_action d = ''chain''"
    using sample_decision by (cases "ch_rule_engine_decide 0 5 (projr sample_engine) (sample_context ''10.200.1.2:443'')") auto
  ultimately show ?thesis
    using decide_known_route [OF e d(1)] by auto
qed

lemma matches_process_free:
  "cr_processes r = [] \<Longrightarrow>
   ch_rule_matches r (c\<lparr>mc_process_name := n, mc_process_path := p\<rparr>) network host port =
   ch_rule_matches r c network host port"
proof -
  have "match_source r (c\<lparr>mc_process_name := n, mc_process_path := p\<rparr>) = match_source r c"
    by (simp add: fun_eq_iff match_source_def)
  then show "cr_processes r = [] \<Longrightarrow> ?thesis"
    by (simp add: ch_rule_matches_def match_process_def)
qed

lemma select_process_free:
  "\<forall>r \<in> set rs. cr_processes r = [] \<Longrightarrow>
   select_rule i rs (c\<lparr>mc_process_name := n, mc_process_path := p\<rparr>) network host port =
   select_rule i rs c network host port"
  by (induction rs arbitrary: i) (auto simp: matches_process_free split: option.split)

text \<open>An engine that does not ask for process metadata never looks at it: its decisions do not depend on
  the process name or path of the request.\<close>

theorem process_metadata_unused:
  assumes "ch_rule_engine_compile rules default_chain kc kg sets = Inr e"
    and "\<not> ch_rule_engine_needs_process (Some e)"
  shows "ch_rule_engine_decide t1 t2 e (c\<lparr>mc_process_name := n, mc_process_path := p\<rparr>) =
    ch_rule_engine_decide t1 t2 e c"
proof -
  have free: "\<forall>r \<in> set (re_rules e). cr_processes r = []"
    using engine_compile_ok [OF assms(1)] assms(2) by (auto simp: engine_ok_def ch_rule_engine_needs_process_def)
  show ?thesis
    by (simp add: ch_rule_engine_decide_def select_process_free [OF free] split: option.split)
qed

theorem process_metadata_unused_witness:
  "ch_rule_engine_decide 0 5 (projr sample_engine) ((sample_context ''a:1'')\<lparr>mc_process_name := Some ''x'', mc_process_path := Some ''/y''\<rparr>) =
   ch_rule_engine_decide 0 5 (projr sample_engine) (sample_context ''a:1'')"
proof -
  have e: "ch_rule_engine_compile [sample_rule] (Some ''home'') [Some ''home'', Some ''office''] [] [] = Inr (projr sample_engine)"
    using sample_engine_compile by (simp add: sample_engine_def)
  moreover have "\<not> ch_rule_engine_needs_process (Some (projr sample_engine))"
    by (simp add: sample_engine_compile ch_rule_engine_needs_process_def)
  ultimately show ?thesis
    by (rule process_metadata_unused)
qed

end
