(* ===== verification/Temporary_Rules.thy ===== *)
theory Temporary_Rules
  imports Rules Json_Laws
begin

text \<open>
  Temporary rules, \<^verbatim>\<open>src/native/src/temporary_rules.c\<close>: a bounded list of session rules, newest first, that
  expire by time or with the process that asked for them.  Every operation runs under the mutex of the
  manager and is one function of its state.  The wall clock (\<open>now\<close>, in nanoseconds), the monotonic clock and
  \<^verbatim>\<open>kill(pid, 0)\<close> failing with \<^verbatim>\<open>ESRCH\<close> (\<open>exited\<close>) are arguments, as are the two calls into the traffic store
  (\<^verbatim>\<open>traffic.c\<close>).  Allocation succeeds and the error argument is not \<^verbatim>\<open>NULL\<close>.
\<close>

section \<open>State\<close>

datatype temporary_match_kind =
  TEMPORARY_MATCH_NONE | TEMPORARY_MATCH_DOMAIN | TEMPORARY_MATCH_SUFFIX | TEMPORARY_MATCH_CIDR

record temporary_rule =
  tr_id :: string
  tr_profile :: string
  tr_name :: string
  tr_action :: string
  tr_match_kind :: temporary_match_kind
  tr_match_value :: string
  tr_process :: string
  tr_network :: string
  tr_port :: string
  tr_until_quit_pid :: int
  tr_created_ns :: int
  tr_expires_ns :: int
  tr_source_conn_id :: string
  tr_source_target :: string
  tr_source_target_host :: string

record ch_temporary_rules =
  ts_items :: "temporary_rule list"
  ts_limit :: nat
  ts_sequence :: nat

definition ch_temporary_rules_create :: "nat \<Rightarrow> ch_temporary_rules result" where
  "ch_temporary_rules_create limit =
     (let limit = (if limit = 0 then 128 else limit) in
      if 1024 < limit then Inl CH_ERROR_INVALID_ARGUMENT
      else Inr \<lparr>ts_items = [], ts_limit = limit, ts_sequence = 0\<rparr>)"

definition rule_live :: "(int \<Rightarrow> bool) \<Rightarrow> int \<Rightarrow> temporary_rule \<Rightarrow> bool" where
  "rule_live exited now r \<longleftrightarrow>
     \<not> (tr_expires_ns r \<le> now \<or> 0 < tr_until_quit_pid r \<and> exited (tr_until_quit_pid r))"

definition temporary_prune_locked :: "(int \<Rightarrow> bool) \<Rightarrow> int \<Rightarrow> ch_temporary_rules \<Rightarrow> ch_temporary_rules" where
  "temporary_prune_locked exited now s = s\<lparr>ts_items := filter (rule_live exited now) (ts_items s)\<rparr>"

section \<open>Requests\<close>

definition temporary_request_string :: "ch_json_value option \<Rightarrow> string \<Rightarrow> string" where
  "temporary_request_string request key = or_empty (ch_json_string_value (ch_json_object_get request key))"

definition temporary_first_string :: "ch_json_value option \<Rightarrow> string \<Rightarrow> string" where
  "temporary_first_string object key =
     or_empty (ch_json_string_value (ch_json_array_get (ch_json_object_get object key) 0))"

definition temporary_first_port :: "ch_json_value option \<Rightarrow> string option" where
  "temporary_first_port object =
     (case ch_json_array_get (ch_json_object_get object ''ports'') 0 of
        None \<Rightarrow> Some []
      | Some v \<Rightarrow>
          (let number = dbl_value (ch_json_number_value (Some v) (Double True 1)) in
           if number < 1 \<or> 65535 < number \<or> number \<noteq> of_int \<lfloor>number\<rfloor> then None
           else Some (snprintf 16 (dec_int \<lfloor>number\<rfloor>))))"

text \<open>The destination matcher: the first item of the first non-empty list.\<close>

definition temporary_matcher :: "ch_json_value option \<Rightarrow> temporary_match_kind \<times> ch_json_value option" where
  "temporary_matcher rule =
     (if 0 < ch_json_array_size (ch_json_object_get rule ''domains'')
      then (TEMPORARY_MATCH_DOMAIN, ch_json_array_get (ch_json_object_get rule ''domains'') 0)
      else if 0 < ch_json_array_size (ch_json_object_get rule ''domain_suffixes'')
      then (TEMPORARY_MATCH_SUFFIX, ch_json_array_get (ch_json_object_get rule ''domain_suffixes'') 0)
      else if 0 < ch_json_array_size (ch_json_object_get rule ''cidrs'')
      then (TEMPORARY_MATCH_CIDR, ch_json_array_get (ch_json_object_get rule ''cidrs'') 0)
      else (TEMPORARY_MATCH_NONE, None))"

text \<open>The lifetime: \<^verbatim>\<open>(long long)ttl\<close> truncates; out of the range of \<^verbatim>\<open>long long\<close> the conversion is undefined, and
  its value is the argument \<open>undef\<close>.\<close>

definition request_ttl :: "int \<Rightarrow> ch_json_value option \<Rightarrow> int" where
  "request_ttl undef request =
     (let ttl = dbl_value (ch_json_number_value (ch_json_object_get request ''ttl_seconds'') (Double False 900)) in
      if ttl \<le> 0 then 900 else if 2 ^ 63 \<le> ttl then undef else \<lfloor>ttl\<rfloor>)"

text \<open>The connection a rule is made from: read from the traffic store, or from the request itself.\<close>

definition request_source ::
  "(string \<Rightarrow> (string \<times> string) result) option \<Rightarrow> ch_json_value option \<Rightarrow> string \<Rightarrow> (string \<times> string) result" where
  "request_source traffic request conn_id =
     (case traffic of
        Some connection_copy \<Rightarrow>
          if conn_id = [] then Inl CH_ERROR_INVALID_ARGUMENT else connection_copy conn_id
      | None \<Rightarrow> Inr (temporary_request_string request ''source_target'',
                     temporary_request_string request ''source_target_host''))"

text \<open>The body of \<^verbatim>\<open>temporary_rule_from_request\<close> once both texts are parsed: the rule and its lifetime.\<close>

definition rule_of_values ::
  "int \<Rightarrow> (string \<Rightarrow> (string \<times> string) result) option \<Rightarrow> ch_json_value \<Rightarrow> ch_json_value \<Rightarrow>
   (temporary_rule \<times> int) result" where
  "rule_of_values undef traffic mutation request =
     (let rule = ch_json_object_get (Some mutation) ''rule'';
          profile = temporary_request_string (Some mutation) ''profile'';
          name = temporary_request_string rule ''name'';
          action = temporary_request_string rule ''action'';
          process = temporary_first_string rule ''processes'';
          network = temporary_first_string rule ''networks'';
          port = temporary_first_port rule;
          (kind, matcher) = temporary_matcher rule;
          match_value = or_empty (ch_json_string_value matcher);
          conn_id = temporary_request_string (Some request) ''conn_id'';
          ttl = request_ttl undef (Some request)
      in if ch_json_value_type rule \<noteq> CH_JSON_OBJECT then Inl CH_ERROR_PARSE
         else bind_result (request_source traffic (Some request) conn_id) (\<lambda>(target, target_host).
           if 86400 < ttl then Inl CH_ERROR_INVALID_ARGUMENT
           else if profile = [] \<or> name = [] \<or> action = [] \<or> port = None \<or> match_value = [] \<and> process = []
           then Inl CH_ERROR_OUT_OF_MEMORY
           else Inr (\<lparr>tr_id = [], tr_profile = profile, tr_name = name, tr_action = action,
                      tr_match_kind = kind, tr_match_value = match_value, tr_process = process,
                      tr_network = network, tr_port = or_empty port, tr_until_quit_pid = 0,
                      tr_created_ns = 0, tr_expires_ns = 0, tr_source_conn_id = conn_id,
                      tr_source_target = target, tr_source_target_host = target_host\<rparr>, ttl)))"

text \<open>
  Both texts are parsed before either result is looked at, and parsing starts by clearing the error: when
  only the first parse fails, the error that is returned is the one the second parse left, \<^verbatim>\<open>CH_OK\<close>, and the
  rule is all \<^verbatim>\<open>NULL\<close>.  That outcome is \<open>Inr None\<close>.
\<close>

definition temporary_rule_from_request ::
  "int \<Rightarrow> (string \<Rightarrow> (string \<times> string) result) option \<Rightarrow> string \<Rightarrow> string \<Rightarrow> (temporary_rule \<times> int) option result" where
  "temporary_rule_from_request undef traffic mutation_json original_request =
     (case (ch_json_parse (Some mutation_json), ch_json_parse (Some original_request)) of
        (Inr mutation, Inr request) \<Rightarrow>
          bind_result (rule_of_values undef traffic mutation request) (\<lambda>r. Inr (Some r))
      | (_, Inl e) \<Rightarrow> Inl e
      | (Inl _, Inr _) \<Rightarrow> Inr None)"

section \<open>Answers\<close>

definition match_key :: "temporary_match_kind \<Rightarrow> string option" where
  "match_key kind =
     (case kind of
        TEMPORARY_MATCH_DOMAIN \<Rightarrow> Some ''domains''
      | TEMPORARY_MATCH_SUFFIX \<Rightarrow> Some ''domain_suffixes''
      | TEMPORARY_MATCH_CIDR \<Rightarrow> Some ''cidrs''
      | TEMPORARY_MATCH_NONE \<Rightarrow> None)"

definition temporary_append_json :: "temporary_rule \<Rightarrow> string" where
  "temporary_append_json r =
     ''{'' @ json_key ''id'' @ string_text (tr_id r) @ '','' @ json_key ''profile'' @ string_text (tr_profile r) @
     '','' @ json_key ''rule'' @ ''{'' @ json_key ''name'' @ string_text (tr_name r) @
     '','' @ json_key ''action'' @ string_text (tr_action r) @
     (if tr_process r = [] then []
      else '','' @ json_key ''processes'' @ ''['' @ string_text (tr_process r) @ '']'') @
     (case match_key (tr_match_kind r) of
        None \<Rightarrow> []
      | Some key \<Rightarrow> '','' @ json_key key @ ''['' @ string_text (tr_match_value r) @ '']'') @
     (if tr_port r = [] then [] else '','' @ json_key ''ports'' @ ''['' @ tr_port r @ '']'') @
     (if tr_network r = [] then []
      else '','' @ json_key ''networks'' @ ''['' @ string_text (tr_network r) @ '']'') @
     ''},'' @ json_key ''created_ts_ns'' @ dec_int (tr_created_ns r) @
     '','' @ json_key ''expires_ts_ns'' @ dec_int (tr_expires_ns r) @
     '','' @ json_key ''source_conn_id'' @ string_text (tr_source_conn_id r) @
     '','' @ json_key ''source_target'' @ string_text (tr_source_target r) @
     '','' @ json_key ''source_target_host'' @ string_text (tr_source_target_host r) @
     '','' @ json_key ''until_quit_pid'' @ dec_int (tr_until_quit_pid r) @ ''}''"

definition temporary_append_snapshot_locked :: "ch_temporary_rules \<Rightarrow> string option \<Rightarrow> string" where
  "temporary_append_snapshot_locked s profile =
     ''['' @ join_with (CHR '','') (map temporary_append_json
        (filter (\<lambda>r. or_empty profile = [] \<or> tr_profile r = or_empty profile) (ts_items s))) @ '']''"

definition ch_temporary_rules_snapshot_json ::
  "(int \<Rightarrow> bool) \<Rightarrow> int \<Rightarrow> string option \<Rightarrow> ch_temporary_rules \<Rightarrow> ch_temporary_rules \<times> string" where
  "ch_temporary_rules_snapshot_json exited now profile s =
     (let s = temporary_prune_locked exited now s in (s, temporary_append_snapshot_locked s profile))"

definition ch_temporary_rules_payload_json ::
  "(int \<Rightarrow> bool) \<Rightarrow> int \<Rightarrow> string option \<Rightarrow> ch_temporary_rules \<Rightarrow> ch_temporary_rules \<times> string" where
  "ch_temporary_rules_payload_json exited now profile s =
     (let (s, snapshot) = ch_temporary_rules_snapshot_json exited now profile s
      in (s, ''{'' @ json_key ''temporary_rules'' @ snapshot @ ''}''))"

section \<open>Insertion and removal\<close>

definition rule_identifier :: "nat \<Rightarrow> int \<Rightarrow> string" where
  "rule_identifier sequence now = snprintf 80 (''temporary-'' @ dec_nat sequence @ ''-'' @ dec_int now)"

text \<open>The state after \<^verbatim>\<open>temporary_insert_json\<close>.\<close>

definition temporary_insert ::
  "(int \<Rightarrow> bool) \<Rightarrow> int \<Rightarrow> temporary_rule \<Rightarrow> int \<Rightarrow> int \<Rightarrow> ch_temporary_rules \<Rightarrow> ch_temporary_rules" where
  "temporary_insert exited now nxt ttl_seconds until_quit_pid s =
     (let s = temporary_prune_locked exited now s;
          sequence = (ts_sequence s + 1) mod 2 ^ 64;
          nxt = nxt\<lparr>tr_id := rule_identifier sequence now, tr_created_ns := now,
                    tr_expires_ns := now + ttl_seconds * 1000000000, tr_until_quit_pid := until_quit_pid\<rparr>;
          items = (if length (ts_items s) = ts_limit s then butlast (ts_items s) else ts_items s)
      in s\<lparr>ts_items := nxt # items, ts_sequence := sequence\<rparr>)"

definition temporary_insert_json ::
  "(int \<Rightarrow> bool) \<Rightarrow> int \<Rightarrow> temporary_rule \<Rightarrow> int \<Rightarrow> int \<Rightarrow> ch_temporary_rules \<Rightarrow> ch_temporary_rules \<times> string" where
  "temporary_insert_json exited now nxt ttl_seconds until_quit_pid s =
     (let s = temporary_insert exited now nxt ttl_seconds until_quit_pid s
      in (s, ''{'' @ json_key ''temporary_rule'' @ temporary_append_json (hd (ts_items s)) @
             '','' @ json_key ''temporary_rules'' @
             temporary_append_snapshot_locked s (Some (tr_profile (hd (ts_items s)))) @ ''}''))"

text \<open>An operation returns, or follows a \<^verbatim>\<open>NULL\<close> pointer.\<close>

datatype 'a outcome = Returns 'a | Null_Dereference

definition insert_request ::
  "(int \<Rightarrow> bool) \<Rightarrow> int \<Rightarrow> int \<Rightarrow> (temporary_rule \<times> int) option result \<Rightarrow> ch_temporary_rules \<Rightarrow>
   (ch_temporary_rules \<times> string result) outcome" where
  "insert_request exited now until_quit_pid request s =
     (case request of
        Inl e \<Rightarrow> Returns (s, Inl e)
      | Inr None \<Rightarrow> Null_Dereference
      | Inr (Some (nxt, ttl)) \<Rightarrow>
          (let (s, text) = temporary_insert_json exited now nxt ttl until_quit_pid s in Returns (s, Inr text)))"

definition ch_temporary_rules_create_from_connection_json ::
  "(int \<Rightarrow> bool) \<Rightarrow> int \<Rightarrow> int \<Rightarrow> (string \<Rightarrow> (string \<times> string) result) \<Rightarrow> (string \<Rightarrow> string result) \<Rightarrow> string option \<Rightarrow>
   ch_temporary_rules \<Rightarrow> (ch_temporary_rules \<times> string result) outcome" where
  "ch_temporary_rules_create_from_connection_json exited now undef connection_copy rule_request request_json s =
     (case request_json of
        None \<Rightarrow> Returns (s, Inl CH_ERROR_INVALID_ARGUMENT)
      | Some request \<Rightarrow>
          (case rule_request request of
             Inl e \<Rightarrow> Returns (s, Inl e)
           | Inr mutation \<Rightarrow>
               insert_request exited now 0
                 (temporary_rule_from_request undef (Some connection_copy) mutation request) s))"

definition source_request :: "string option \<Rightarrow> string option \<Rightarrow> string option \<Rightarrow> int \<Rightarrow> string" where
  "source_request conn_id target target_host ttl =
     ''{'' @ json_key ''conn_id'' @ string_text (or_empty conn_id) @
     '','' @ json_key ''source_target'' @ string_text (or_empty target) @
     '','' @ json_key ''source_target_host'' @ string_text (or_empty target_host) @
     '','' @ json_key ''ttl_seconds'' @ dec_int ttl @ ''}''"

definition ch_temporary_rules_create_from_rule_json ::
  "(int \<Rightarrow> bool) \<Rightarrow> int \<Rightarrow> int \<Rightarrow> string option \<Rightarrow> int \<Rightarrow> int \<Rightarrow> string option \<Rightarrow> string option \<Rightarrow> string option \<Rightarrow>
   ch_temporary_rules \<Rightarrow> (ch_temporary_rules \<times> string result) outcome" where
  "ch_temporary_rules_create_from_rule_json exited now undef rule_request_json ttl_seconds until_quit_pid
      source_conn_id source_target source_target_host s =
     (case rule_request_json of
        None \<Rightarrow> Returns (s, Inl CH_ERROR_INVALID_ARGUMENT)
      | Some mutation \<Rightarrow>
          (let ttl = (if ttl_seconds \<le> 0 then (if 0 < until_quit_pid then 86400 else 900) else ttl_seconds)
           in if 86400 < ttl then Returns (s, Inl CH_ERROR_INVALID_ARGUMENT)
              else insert_request exited now until_quit_pid
                (temporary_rule_from_request undef None mutation
                   (source_request source_conn_id source_target source_target_host ttl)) s))"

fun remove_rule :: "string \<Rightarrow> temporary_rule list \<Rightarrow> (temporary_rule \<times> temporary_rule list) option" where
  "remove_rule ident [] = None"
| "remove_rule ident (r # rs) =
     (if tr_id r = ident then Some (r, rs)
      else map_option (\<lambda>(x, ys). (x, r # ys)) (remove_rule ident rs))"

definition ch_temporary_rules_remove_json ::
  "(int \<Rightarrow> bool) \<Rightarrow> int \<Rightarrow> string option \<Rightarrow> ch_temporary_rules \<Rightarrow> ch_temporary_rules \<times> string result" where
  "ch_temporary_rules_remove_json exited now request_json s =
     (case ch_json_parse request_json of
        Inl e \<Rightarrow> (s, Inl e)
      | Inr request \<Rightarrow>
          (let ident = temporary_request_string (Some request) ''id'' in
           if ident = [] then (s, Inl CH_ERROR_INVALID_ARGUMENT)
           else
             let s = temporary_prune_locked exited now s in
             case remove_rule ident (ts_items s) of
               None \<Rightarrow> (s, Inl CH_ERROR_NOT_FOUND)
             | Some (r, items) \<Rightarrow>
                 let s = s\<lparr>ts_items := items\<rparr>
                 in (s, Inr (''{'' @ json_key ''temporary_rules'' @
                       temporary_append_snapshot_locked s (Some (tr_profile r)) @ ''}''))))"

section \<open>Matching and decisions\<close>

definition temporary_split_target :: "string \<Rightarrow> string \<times> string" where
  "temporary_split_target target =
     (let (host, port) =
        (if target \<noteq> [] \<and> hd target = CHR ''['' then
           (case strchr (tl target) (CHR '']'') of
              None \<Rightarrow> (tl target, [])
            | Some (h, rest) \<Rightarrow> (h, if rest \<noteq> [] \<and> hd rest = CHR '':'' then tl rest else []))
         else
           (case strrchr target (CHR '':'') of
              None \<Rightarrow> (target, [])
            | Some (h, p) \<Rightarrow> if strchr target (CHR '':'') = Some (h, p) then (h, p) else (target, [])))
      in (lower host, port))"

definition temporary_cidr_matches :: "string \<Rightarrow> string \<Rightarrow> bool" where
  "temporary_cidr_matches cidr host =
     (case strrchr cidr (CHR ''/'') of
        None \<Rightarrow> False
      | Some (copy, slash) \<Rightarrow>
          (let b = strtol slash;
               f = (if strchr copy (CHR '':'') = None then AF_INET else AF_INET6);
               len = (case f of AF_INET \<Rightarrow> 4 | AF_INET6 \<Rightarrow> 16);
               maximum = (case f of AF_INET \<Rightarrow> 32 | AF_INET6 \<Rightarrow> 128)
           in if st_converted b \<and> st_rest b = [] \<and> 0 \<le> st_value b \<and> st_value b \<le> maximum then
                (case (inet_pton f copy, inet_pton f host) of
                   (Some network, Some address) \<Rightarrow>
                     (let whole = nat (st_value b) div 8;
                          remainder = nat (st_value b) mod 8;
                          mask = push_bit (8 - remainder) 0xff
                      in \<not> (0 < whole \<and> take whole network \<noteq> take whole address) \<and>
                         (0 < remainder \<and> whole < len \<longrightarrow> network ! whole AND mask = address ! whole AND mask))
                 | _ \<Rightarrow> False)
              else False))"

definition temporary_matches :: "temporary_rule \<Rightarrow> string \<Rightarrow> bool" where
  "temporary_matches r host =
     (case tr_match_kind r of
        TEMPORARY_MATCH_NONE \<Rightarrow> True
      | TEMPORARY_MATCH_DOMAIN \<Rightarrow> strcaseeq (tr_match_value r) host
      | TEMPORARY_MATCH_SUFFIX \<Rightarrow>
          (let n = length host; k = length (tr_match_value r) in
           if n = k then strcaseeq host (tr_match_value r)
           else k < n \<and> host ! (n - k - 1) = CHR ''.'' \<and> strcaseeq (drop (n - k) host) (tr_match_value r))
      | TEMPORARY_MATCH_CIDR \<Rightarrow> temporary_cidr_matches (tr_match_value r) host)"

definition ch_temporary_rules_needs_process ::
  "(int \<Rightarrow> bool) \<Rightarrow> int \<Rightarrow> ch_temporary_rules \<Rightarrow> ch_temporary_rules \<times> bool" where
  "ch_temporary_rules_needs_process exited now s =
     (let s = temporary_prune_locked exited now s in (s, list_ex (\<lambda>r. tr_process r \<noteq> []) (ts_items s)))"

definition temporary_rule_applies :: "string \<Rightarrow> ch_rule_match_context \<Rightarrow> string \<Rightarrow> string \<Rightarrow> temporary_rule \<Rightarrow> bool" where
  "temporary_rule_applies profile c host port r \<longleftrightarrow>
     tr_profile r = profile \<and>
     (tr_process r = [] \<or> mc_process_path c = Some (tr_process r) \<or> mc_process_name c = Some (tr_process r)) \<and>
     (tr_network r = [] \<or> (case mc_network c of None \<Rightarrow> False | Some n \<Rightarrow> strcaseeq (tr_network r) n)) \<and>
     (tr_port r = [] \<or> tr_port r = port) \<and>
     temporary_matches r host"

definition temporary_route :: "string \<Rightarrow> string \<times> string \<times> string" where
  "temporary_route action =
     (if has_prefix_fold ''chain:'' action then (''chain'', drop 6 action, [])
      else if has_prefix_fold ''group:'' action then (''group'', [], drop 6 action)
      else (snprintf 16 action, [], []))"

definition temporary_decision_copy ::
  "temporary_rule \<Rightarrow> ch_rule_match_context \<Rightarrow> string \<Rightarrow> string \<Rightarrow> nat \<Rightarrow> ch_rule_decision" where
  "temporary_decision_copy r c host port elapsed =
     (let (action, chain, policy) = temporary_route (tr_action r);
          kind = (case tr_match_kind r of
              TEMPORARY_MATCH_DOMAIN \<Rightarrow> ''domain'' | TEMPORARY_MATCH_SUFFIX \<Rightarrow> ''domain_suffix''
            | TEMPORARY_MATCH_CIDR \<Rightarrow> ''cidr'' | TEMPORARY_MATCH_NONE \<Rightarrow> ''process'');
          v = (if tr_match_kind r = TEMPORARY_MATCH_NONE then tr_process r else tr_match_value r)
      in \<lparr>rd_rule_name = tr_name r, rd_rule_number = 1, rd_action = action, rd_chain_name = chain,
          rd_group_name = policy, rd_target = or_empty (mc_target c), rd_host = host, rd_port = port,
          rd_network = or_empty (mc_network c), rd_source = or_empty (mc_source c), rd_is_default = False,
          rd_elapsed_ns = min elapsed (2 ^ 63 - 1), rd_matcher_kind = kind, rd_matcher_value = v,
          rd_summary = snprintf 512
            (''Temporary rule \"'' @ tr_name r @ ''\" matched '' @ kind @ '' \"'' @ v @ ''\".'')\<rparr>)"

fun temporary_select ::
  "temporary_rule list \<Rightarrow> string \<times> ch_rule_match_context \<times> string \<times> string \<Rightarrow> temporary_rule option" where
  "temporary_select [] (profile, c, host, port) = None"
| "temporary_select (r # rs) (profile, c, host, port) =
     (if temporary_rule_applies profile c host port r then Some r
      else temporary_select rs (profile, c, host, port))"

definition ch_temporary_rules_decide ::
  "(int \<Rightarrow> bool) \<Rightarrow> int \<Rightarrow> nat \<Rightarrow> nat \<Rightarrow> string option \<Rightarrow> ch_rule_match_context \<Rightarrow> ch_temporary_rules \<Rightarrow>
   ch_temporary_rules \<times> ch_rule_decision option result" where
  "ch_temporary_rules_decide exited now started finished profile c s =
     (case (profile, mc_target c) of
        (Some profile, Some target) \<Rightarrow>
          (let (host, port) = temporary_split_target target;
               s = temporary_prune_locked exited now s
           in (s, Inr (map_option
                 (\<lambda>r. temporary_decision_copy r c host port (if started \<le> finished then finished - started else 0))
                 (temporary_select (ts_items s) (profile, c, host, port)))))
      | _ \<Rightarrow> (s, Inl CH_ERROR_INVALID_ARGUMENT))"

section \<open>Identifiers\<close>

lemma takeWhile_neq: "c \<notin> set a \<Longrightarrow> takeWhile (\<lambda>x. x \<noteq> c) (a @ c # b) = a"
  by (induction a) auto

lemma minus_not_in_dec_nat: "CHR ''-'' \<notin> set (dec_nat n)"
  using dec_nat_digits [of n] by (auto simp: isdigit_def)

lemma identifier_sequence:
  assumes "k < 2 ^ 64"
  shows "takeWhile (\<lambda>x. x \<noteq> CHR ''-'') (drop 10 (rule_identifier k t)) = dec_nat k"
proof -
  have "length (dec_nat k) \<le> 20"
    using dec_nat_length [of k 19] assms by simp
  then have "drop 10 (rule_identifier k t) = dec_nat k @ CHR ''-'' # take (68 - length (dec_nat k)) (dec_int t)"
    by (simp add: rule_identifier_def snprintf_def drop_take take_Cons' Suc_diff_le)
  then show ?thesis
    using takeWhile_neq [OF minus_not_in_dec_nat] by simp
qed

lemma identifier_inject:
  assumes "k < 2 ^ 64" "l < 2 ^ 64" "rule_identifier k t = rule_identifier l u"
  shows "k = l"
proof -
  have "dec_nat k = dec_nat l"
    using identifier_sequence [OF assms(1), of t] identifier_sequence [OF assms(2), of u] assms(3) by (simp only:)
  then show ?thesis
    by (simp only: dec_nat_inj)
qed

text \<open>The identifiers of the list carry strictly decreasing sequence numbers below a bound.\<close>

fun numbered :: "nat \<Rightarrow> temporary_rule list \<Rightarrow> bool" where
  "numbered n [] = True"
| "numbered n (r # rs) = (\<exists>k t. k < n \<and> tr_id r = rule_identifier k t \<and> numbered k rs)"

lemma numbered_mono: "numbered n rs \<Longrightarrow> n \<le> m \<Longrightarrow> numbered m rs"
proof (cases rs)
  case (Cons r rs')
  assume "numbered n rs" "n \<le> m"
  then obtain k t where "k < m" "tr_id r = rule_identifier k t" "numbered k rs'"
    unfolding Cons numbered.simps by (metis less_le_trans)
  then show ?thesis
    unfolding Cons numbered.simps by blast
qed simp

lemma numbered_tl: "numbered n (r # rs) \<Longrightarrow> numbered n rs"
  unfolding numbered.simps using numbered_mono less_imp_le by blast

lemma numbered_filter: "numbered n rs \<Longrightarrow> numbered n (filter P rs)"
proof (induction rs arbitrary: n)
  case (Cons r rs)
  show ?case
  proof (cases "P r")
    case True
    then show ?thesis
      using Cons by (simp only: filter.simps if_True numbered.simps) blast
  next
    case False
    then show ?thesis
      using Cons.IH [OF numbered_tl [OF Cons.prems]] by simp
  qed
qed simp

lemma numbered_butlast: "numbered n rs \<Longrightarrow> numbered n (butlast rs)"
proof (induction rs arbitrary: n)
  case (Cons r rs)
  then show ?case
    by (cases "rs = []") (simp, simp only: butlast.simps if_False numbered.simps, blast)
qed simp

lemma numbered_remove: "numbered n rs \<Longrightarrow> remove_rule ident rs = Some (r, rs') \<Longrightarrow> numbered n rs'"
proof (induction rs arbitrary: n rs')
  case (Cons x xs)
  show ?case
  proof (cases "tr_id x = ident")
    case True
    then show ?thesis
      using Cons.prems(2) numbered_tl [OF Cons.prems(1)] by simp
  next
    case False
    then obtain ys where "remove_rule ident xs = Some (r, ys)" "rs' = x # ys"
      using Cons.prems(2) by auto
    then show ?thesis
      using Cons.IH Cons.prems(1) by (simp only: numbered.simps) blast
  qed
qed simp

lemma numbered_mem: "numbered n rs \<Longrightarrow> r \<in> set rs \<Longrightarrow> \<exists>k t. k < n \<and> tr_id r = rule_identifier k t"
proof (induction rs arbitrary: n)
  case (Cons x xs)
  then show ?case
    using numbered_tl [OF Cons.prems(1)] by (cases "r = x") auto
qed simp

lemma numbered_distinct: "numbered n rs \<Longrightarrow> n \<le> 2 ^ 64 \<Longrightarrow> distinct (map tr_id rs)"
proof (induction rs arbitrary: n)
  case (Cons r rs)
  then obtain k t where k: "k < n" "tr_id r = rule_identifier k t" "numbered k rs"
    by auto
  have "tr_id r \<notin> tr_id ` set rs"
  proof
    assume "tr_id r \<in> tr_id ` set rs"
    then obtain l u where "l < k" "tr_id r = rule_identifier l u"
      using numbered_mem [OF k(3)] by (metis imageE)
    then show False
      using identifier_inject [of k l t u] k Cons.prems(2) by simp
  qed
  then show ?case
    using Cons.IH [OF k(3)] k(1) Cons.prems(2) by simp
qed simp

section \<open>Invariant\<close>

definition temporary_inv :: "nat \<Rightarrow> ch_temporary_rules \<Rightarrow> bool" where
  "temporary_inv n s \<longleftrightarrow>
     0 < ts_limit s \<and> ts_limit s \<le> 1024 \<and> length (ts_items s) \<le> ts_limit s \<and>
     ts_sequence s = n \<and> numbered (Suc n) (ts_items s)"

lemma inv_create: "ch_temporary_rules_create limit = Inr s \<Longrightarrow> temporary_inv 0 s"
  by (auto simp: ch_temporary_rules_create_def temporary_inv_def Let_def split: if_splits)

lemma inv_prune: "temporary_inv n s \<Longrightarrow> temporary_inv n (temporary_prune_locked exited now s)"
  by (auto simp: temporary_inv_def temporary_prune_locked_def numbered_filter intro: le_trans [OF length_filter_le])

lemma inv_insert:
  assumes "temporary_inv n s" "Suc n < 2 ^ 64"
  shows "temporary_inv (Suc n) (temporary_insert exited now r ttl pid s)"
proof -
  have "temporary_inv n (temporary_prune_locked exited now s)"
    using assms(1) by (rule inv_prune)
  then show ?thesis
    using assms(2) by (auto simp: temporary_insert_def temporary_inv_def Let_def intro: numbered_butlast)
qed

lemma remove_rule_length: "remove_rule ident rs = Some (r, rs') \<Longrightarrow> length rs = Suc (length rs')"
  by (induction rs arbitrary: rs') (auto split: if_splits)

lemma inv_remove:
  assumes "temporary_inv n s"
  shows "temporary_inv n (fst (ch_temporary_rules_remove_json exited now request s))"
  using inv_prune [OF assms, of exited now] assms
  by (auto simp: ch_temporary_rules_remove_json_def Let_def temporary_inv_def numbered_remove
      dest: remove_rule_length split: sum.splits option.splits)

text \<open>The states that the public operations reach; the number counts the rules installed.\<close>

inductive temporary_reach :: "nat \<Rightarrow> ch_temporary_rules \<Rightarrow> bool" where
  create: "ch_temporary_rules_create limit = Inr s \<Longrightarrow> temporary_reach 0 s"
| connection: "temporary_reach n s \<Longrightarrow>
    ch_temporary_rules_create_from_connection_json exited now undef copy req json s = Returns (s', answer) \<Longrightarrow>
    temporary_reach (if isl answer then n else Suc n) s'"
| rule: "temporary_reach n s \<Longrightarrow>
    ch_temporary_rules_create_from_rule_json exited now undef json ttl pid conn tgt host s = Returns (s', answer) \<Longrightarrow>
    temporary_reach (if isl answer then n else Suc n) s'"
| remove: "temporary_reach n s \<Longrightarrow> temporary_reach n (fst (ch_temporary_rules_remove_json exited now json s))"
| needs_process: "temporary_reach n s \<Longrightarrow> temporary_reach n (fst (ch_temporary_rules_needs_process exited now s))"
| snapshot: "temporary_reach n s \<Longrightarrow> temporary_reach n (fst (ch_temporary_rules_snapshot_json exited now profile s))"
| payload: "temporary_reach n s \<Longrightarrow> temporary_reach n (fst (ch_temporary_rules_payload_json exited now profile s))"
| decide: "temporary_reach n s \<Longrightarrow>
    temporary_reach n (fst (ch_temporary_rules_decide exited now t1 t2 profile c s))"

lemma insert_request_state:
  "insert_request exited now pid request s = Returns (s', answer) \<Longrightarrow>
   isl answer \<and> s' = s \<or> \<not> isl answer \<and> (\<exists>r ttl. s' = temporary_insert exited now r ttl pid s)"
  by (auto simp: insert_request_def temporary_insert_json_def Let_def split: sum.splits option.splits prod.splits)

lemma isl_iff: "isl x \<longleftrightarrow> (\<exists>e. Inl e = x)"
  by (cases x) auto

lemma connection_state:
  "ch_temporary_rules_create_from_connection_json exited now undef copy req json s = Returns (s', answer) \<Longrightarrow>
   isl answer \<and> s' = s \<or> \<not> isl answer \<and> (\<exists>r ttl. s' = temporary_insert exited now r ttl 0 s)"
  unfolding ch_temporary_rules_create_from_connection_json_def
  by (cases json; cases "req (the json)")
    (auto dest: insert_request_state simp: isl_iff)

lemma rule_json_state:
  "ch_temporary_rules_create_from_rule_json exited now undef json ttl pid conn tgt host s = Returns (s', answer) \<Longrightarrow>
   isl answer \<and> s' = s \<or> \<not> isl answer \<and> (\<exists>r ttl. s' = temporary_insert exited now r ttl pid s)"
  by (auto simp: ch_temporary_rules_create_from_rule_json_def Let_def dest: insert_request_state
      split: option.splits if_splits)

lemma read_only_state:
  "fst (ch_temporary_rules_needs_process exited now s) = temporary_prune_locked exited now s"
  "fst (ch_temporary_rules_snapshot_json exited now profile s) = temporary_prune_locked exited now s"
  "fst (ch_temporary_rules_payload_json exited now profile s) = temporary_prune_locked exited now s"
  "fst (ch_temporary_rules_decide exited now t1 t2 profile c s) \<in> {s, temporary_prune_locked exited now s}"
  by (simp_all add: ch_temporary_rules_needs_process_def ch_temporary_rules_snapshot_json_def
      ch_temporary_rules_payload_json_def ch_temporary_rules_decide_def Let_def split: prod.split option.split)

lemma reach_inv: "temporary_reach n s \<Longrightarrow> n < 2 ^ 64 \<Longrightarrow> temporary_inv n s"
proof (induction rule: temporary_reach.induct)
  case (connection n s exited now undef copy req json s' answer)
  then show ?case
    using connection_state [OF connection.hyps(2)] inv_insert by fastforce
next
  case (rule n s exited now undef json ttl pid conn tgt host s' answer)
  then show ?case
    using rule_json_state [OF rule.hyps(2)] inv_insert by fastforce
next
  case (decide n s exited now t1 t2 profile c)
  then show ?case
    using read_only_state(4) [of exited now t1 t2 profile c s] inv_prune by auto
qed (auto simp: inv_create inv_remove read_only_state inv_prune)

section \<open>The newest rule that matches\<close>




section \<open>Requests written by the prompt\<close>

lemma source_request_text:
  "source_request conn tgt host ttl =
     json_text (JObject [(''conn_id'', JString (or_empty conn)), (''source_target'', JString (or_empty tgt)),
       (''source_target_host'', JString (or_empty host)),
       (''ttl_seconds'', JNumber (int64_to_double ttl) ttl True)])"
  by (simp add: source_request_def json_key_def string_text_def escape_char_def)

section \<open>Agreement of the two CIDR matchers\<close>

lemma pton6_loop_no_colon: "CHR '':'' \<notin> set src \<Longrightarrow> pton6_loop [] None seen val tok src = None"
proof (induction src arbitrary: seen val)
  case (Cons ch src)
  then show ?case
    by (auto simp: pton6_finish_def dest!: inet_pton4_length split: option.splits)
qed (simp add: pton6_finish_def)

lemma inet_pton6_colon: "inet_pton6 s = Some a \<Longrightarrow> CHR '':'' \<in> set s"
  using pton6_loop_no_colon [of s 0 0 s]
  by (auto simp: inet_pton6_def split: list.splits if_splits simp del: pton6_loop.simps)

text \<open>The masked comparison of the temporary rules is that of the rule engine.\<close>

definition width :: "family \<Rightarrow> int" where
  "width f = (case f of AF_INET \<Rightarrow> 32 | AF_INET6 \<Rightarrow> 128)"

lemma compile_cidr_parts:
  assumes "compile_cidr (Some cidr) = Inr b" "trim cidr = cidr" "lower cidr = cidr"
  obtains copy slash where "strrchr cidr (CHR ''/'') = Some (copy, slash)"
    "st_converted (strtol slash)" "st_rest (strtol slash) = []" "0 \<le> st_value (strtol slash)"
    "st_value (strtol slash) \<le> width (cidr_family b)" "cidr_prefix_length b = nat (st_value (strtol slash))"
    "inet_pton (cidr_family b) copy = Some (cidr_address b)"
proof -
  have "ch_trimmed_lower (Some cidr) False = cidr"
    using assms(2,3) by (simp add: ch_trimmed_lower_def)
  with assms(1) show thesis
    by (auto simp: compile_cidr_def Let_def width_def intro: that
        split: option.splits prod.splits if_splits)
qed

lemma family_of_text:
  "inet_pton f s = Some a \<Longrightarrow> (if strchr s (CHR '':'') = None then AF_INET else AF_INET6) = f"
  using inet_pton4_no_colon [of s a] inet_pton6_colon [of s a] by (cases f) (auto simp: inet_pton_def)

lemma temporary_cidr_contains:
  assumes "compile_cidr (Some cidr) = Inr b" "trim cidr = cidr" "lower cidr = cidr"
  shows "temporary_cidr_matches cidr host \<longleftrightarrow>
    (\<exists>a. inet_pton (cidr_family b) host = Some a \<and> ch_cidr_contains b a)"
proof -
  obtain copy slash where slash: "strrchr cidr (CHR ''/'') = Some (copy, slash)"
    and number: "st_converted (strtol slash)" "st_rest (strtol slash) = []" "0 \<le> st_value (strtol slash)"
      "st_value (strtol slash) \<le> width (cidr_family b)"
    and prefix: "nat (st_value (strtol slash)) = cidr_prefix_length b"
    and parsed: "inet_pton (cidr_family b) copy = Some (cidr_address b)"
    using compile_cidr_parts [OF assms] by metis
  have inside: "cidr_prefix_length b div 8 < (case cidr_family b of AF_INET \<Rightarrow> 4 | AF_INET6 \<Rightarrow> 16)"
    if "0 < cidr_prefix_length b mod 8"
  proof -
    have "cidr_prefix_length b \<le> nat (width (cidr_family b))"
      using number(4) prefix by linarith
    then show ?thesis
      using that by (cases "cidr_family b") (simp_all add: width_def, presburger+)
  qed
  show ?thesis
    unfolding temporary_cidr_matches_def slash option.case prod.case Let_def family_of_text [OF parsed] prefix
    using number parsed inside
    by (cases "inet_pton (cidr_family b) host") (auto simp: ch_cidr_contains_def Let_def width_def)
qed

section \<open>A sample rule\<close>

lemma parse_source_request:
  assumes "c_string (or_empty conn)" "c_string (or_empty tgt)" "c_string (or_empty host)" "long_min \<le> ttl" "ttl \<le> long_max"
  shows "ch_json_parse (Some (source_request conn tgt host ttl)) =
    Inr (JObject [(''conn_id'', JString (or_empty conn)), (''source_target'', JString (or_empty tgt)),
       (''source_target_host'', JString (or_empty host)),
       (''ttl_seconds'', JNumber (int64_to_double ttl) ttl True)])"
  unfolding source_request_text by (rule parse_json_text) (use assms in \<open>simp_all add: c_string_def\<close>)

definition sample_mutation_value :: ch_json_value where
  "sample_mutation_value = JObject [(''profile'', JString ''home''),
     (''rule'', JObject [(''name'', JString ''allow''), (''action'', JString ''chain:office''),
       (''domains'', JArray [JString ''example.com''])])]"

definition sample_temporary :: temporary_rule where
  "sample_temporary = \<lparr>tr_id = [], tr_profile = ''home'', tr_name = ''allow'', tr_action = ''chain:office'',
     tr_match_kind = TEMPORARY_MATCH_DOMAIN, tr_match_value = ''example.com'', tr_process = [], tr_network = [],
     tr_port = [], tr_until_quit_pid = 0, tr_created_ns = 0, tr_expires_ns = 0, tr_source_conn_id = ''c1'',
     tr_source_target = [], tr_source_target_host = []\<rparr>"

lemma sample_mutation_parse: "ch_json_parse (Some (json_text sample_mutation_value)) = Inr sample_mutation_value"
  by (rule parse_json_text) (simp_all add: sample_mutation_value_def c_string_def)

lemma sample_from_request:
  "temporary_rule_from_request 0 None (json_text sample_mutation_value) (source_request (Some ''c1'') None None 60) =
   Inr (Some (sample_temporary, 60))"
proof -
  have "dbl_value (int64_to_double 60) = 60"
    using dbl_value_int64 [of 60] by simp
  then show ?thesis
    by (simp add: temporary_rule_from_request_def sample_mutation_parse parse_source_request c_string_def
        long_min_def long_max_def)
      (simp add: sample_mutation_value_def sample_temporary_def rule_of_values_def Let_def request_ttl_def
        ch_json_object_get_def ch_json_value_type_def ch_json_number_value_def temporary_request_string_def
        ch_json_string_value_def temporary_first_string_def ch_json_array_get_def temporary_first_port_def
        temporary_matcher_def ch_json_array_size_def request_source_def)
qed

definition sample_state :: ch_temporary_rules where
  "sample_state = temporary_insert (\<lambda>_. False) 5 sample_temporary 60 0 \<lparr>ts_items = [], ts_limit = 2, ts_sequence = 0\<rparr>"

lemma sample_reach: "temporary_reach 1 sample_state"
proof -
  have "temporary_reach 0 \<lparr>ts_items = [], ts_limit = 2, ts_sequence = 0\<rparr>"
    by (rule temporary_reach.create [of 2]) (simp add: ch_temporary_rules_create_def)
  moreover have "\<exists>text. ch_temporary_rules_create_from_rule_json (\<lambda>_. False) 5 0 (Some (json_text sample_mutation_value)) 60 0
      (Some ''c1'') None None \<lparr>ts_items = [], ts_limit = 2, ts_sequence = 0\<rparr> = Returns (sample_state, Inr text)"
    by (simp add: ch_temporary_rules_create_from_rule_json_def insert_request_def sample_from_request
        temporary_insert_json_def sample_state_def Let_def)
  ultimately show ?thesis
    using temporary_reach.rule by fastforce
qed


section \<open>Properties\<close>

text \<open>C17: Whatever operations ran, in whatever order, at whatever times, and with however many rules installed
  below the wrap-around of the counter: the manager holds at most its limit of rules, the limit is between 1
  and 1024, no two rules share an identifier, and the counter is the number of rules installed.\<close>

theorem temporary_rules_invariant:
  assumes "temporary_reach n s" "n < 2 ^ 64 - 1"
  shows "length (ts_items s) \<le> ts_limit s \<and> 0 < ts_limit s \<and> ts_limit s \<le> 1024 \<and>
    distinct (map tr_id (ts_items s)) \<and> ts_sequence s = n"
  using reach_inv [OF assms(1)] numbered_distinct [of "Suc n" "ts_items s"] assms(2)
  by (simp add: temporary_inv_def)

theorem temporary_rules_invariant_witness:
  "length (ts_items sample_state) \<le> ts_limit sample_state \<and> distinct (map tr_id (ts_items sample_state)) \<and>
   ts_sequence sample_state = 1"
  using temporary_rules_invariant [OF sample_reach] by simp




text \<open>C19: A mutation that is not JSON is not reported as an error: the second parse clears the first one's
  error, the request counts as successful, and the insertion of the empty rule follows a null pointer.\<close>

theorem bad_mutation_null_dereference:
  assumes "ch_json_parse (Some mutation) = Inl e" "ttl \<le> 86400"
    and "c_string (or_empty conn)" "c_string (or_empty tgt)" "c_string (or_empty host)"
  shows "ch_temporary_rules_create_from_rule_json exited now undef (Some mutation) ttl pid conn tgt host s =
    Null_Dereference"
proof -
  let ?ttl = "if ttl \<le> 0 then (if 0 < pid then 86400 else 900) else ttl"
  have "long_min \<le> ?ttl" "?ttl \<le> long_max" "\<not> 86400 < ?ttl"
    using assms(2) by (auto simp: long_min_def long_max_def)
  then show ?thesis
    using parse_source_request [OF assms(3-5), of ?ttl] assms(1)
    unfolding ch_temporary_rules_create_from_rule_json_def Let_def
    by (simp add: temporary_rule_from_request_def insert_request_def)
qed

theorem bad_mutation_null_dereference_witness:
  "ch_temporary_rules_create_from_rule_json (\<lambda>_. False) 5 0 (Some ''{'') 60 0 None None None sample_state = Null_Dereference"
proof -
  have "ch_json_parse (Some ''{'') = Inl CH_ERROR_PARSE"
    by code_simp
  then show ?thesis
    by (rule bad_mutation_null_dereference) (simp_all add: c_string_def)
qed

text \<open>C20: A requested lifetime between zero and one second is truncated to zero seconds: the rule is installed
  and listed in the answer, but every later look at the list, even at the same instant, drops it.\<close>

theorem fractional_ttl_expires_at_once:
  assumes "rule_of_values undef traffic mutation request = Inr (r, ttl)"
    and "ch_json_object_get (Some request) ''ttl_seconds'' = Some (JNumber d i exact)"
    and "0 < dbl_value d" "dbl_value d < 1" "now \<le> later"
  shows "ttl = 0 \<and> hd (ts_items (temporary_insert exited now r ttl pid s))
    \<notin> set (ts_items (temporary_prune_locked exited' later (temporary_insert exited now r ttl pid s)))"
proof -
  have "\<lfloor>dbl_value d\<rfloor> = 0"
    using assms(3,4) by (simp add: floor_eq_iff)
  moreover have "\<not> 2 ^ 63 \<le> dbl_value d"
    using assms(4) by simp
  ultimately have "request_ttl undef (Some request) = 0"
    using assms(2,3) by (simp add: request_ttl_def ch_json_number_value_def)
  then have "ttl = 0"
    using assms(1)
    by (auto simp: rule_of_values_def Let_def bind_result_Inr_iff split: prod.splits if_splits)
  then show ?thesis
    using assms(5) by (simp add: temporary_insert_def temporary_prune_locked_def rule_live_def Let_def)
qed

theorem fractional_ttl_expires_at_once_witness:
  "\<exists>r ttl. rule_of_values 0 None sample_mutation_value (JObject [(''ttl_seconds'', JNumber (Double False (1 / 2)) 0 False)]) = Inr (r, ttl) \<and>
     ttl = 0 \<and> hd (ts_items (temporary_insert (\<lambda>_. False) 5 r ttl 0 sample_state))
       \<notin> set (ts_items (temporary_prune_locked (\<lambda>_. False) 5 (temporary_insert (\<lambda>_. False) 5 r ttl 0 sample_state)))"
proof -
  let ?request = "JObject [(''ttl_seconds'', JNumber (Double False (1 / 2)) 0 False)]"
  obtain r ttl where r: "rule_of_values 0 None sample_mutation_value ?request = Inr (r, ttl)"
    by (simp add: sample_mutation_value_def rule_of_values_def Let_def request_ttl_def
        ch_json_object_get_def ch_json_value_type_def ch_json_number_value_def temporary_request_string_def
        ch_json_string_value_def temporary_first_string_def ch_json_array_get_def temporary_first_port_def
        temporary_matcher_def ch_json_array_size_def request_source_def dbl_value_def)
  have "ch_json_object_get (Some ?request) ''ttl_seconds'' = Some (JNumber (Double False (1 / 2)) 0 False)"
    by (simp add: ch_json_object_get_def)
  from fractional_ttl_expires_at_once [OF r this, of 5 5 "\<lambda>_. False" 0 sample_state "\<lambda>_. False"] r
  show ?thesis
    by (auto simp: dbl_value_def)
qed

text \<open>The CIDR test of the temporary rules and that of the rule engine agree: on a block the engine
  compiles (written without surrounding blanks and in lower case), a host matches exactly when it is an
  address of the block's family whose first bits are those of the block.\<close>

theorem temporary_cidr_agrees:
  assumes "compile_cidr (Some cidr) = Inr b" "trim cidr = cidr" "lower cidr = cidr"
  shows "temporary_cidr_matches cidr host \<longleftrightarrow>
    (\<exists>a. inet_pton (cidr_family b) host = Some a \<and> in_block (cidr_family b) a b)"
proof -
  have "ch_cidr_contains b a = in_block (cidr_family b) a b" if "inet_pton (cidr_family b) host = Some a" for a
    using compile_cidr_ok [OF assms(1)] inet_pton_length [OF that] cidr_contains_iff [of b a]
    by (simp add: cidr_ok_def in_block_def)
  then show ?thesis
    using temporary_cidr_contains [OF assms] by blast
qed

theorem temporary_cidr_agrees_witness:
  "temporary_cidr_matches ''10.128.0.0/9'' ''10.200.1.2'' \<and>
   (\<exists>a. inet_pton AF_INET ''10.200.1.2'' = Some a \<and>
     in_block AF_INET a \<lparr>cidr_family = AF_INET, cidr_address = [10, 128, 0, 0], cidr_prefix_length = 9, cidr_text = ''10.128.0.0/9''\<rparr>)"
proof -
  have "compile_cidr (Some ''10.128.0.0/9'') = Inr \<lparr>cidr_family = AF_INET, cidr_address = [10, 128, 0, 0],
      cidr_prefix_length = 9, cidr_text = ''10.128.0.0/9''\<rparr>" "trim ''10.128.0.0/9'' = ''10.128.0.0/9''"
    "lower ''10.128.0.0/9'' = ''10.128.0.0/9''" "temporary_cidr_matches ''10.128.0.0/9'' ''10.200.1.2''"
    by code_simp+
  with temporary_cidr_agrees [OF this(1-3), of "''10.200.1.2''"] show ?thesis
    by simp
qed

end
