(* ===== verification/Toml.thy ===== *)
theory Toml
  imports CPrelude
begin

text \<open>
  The tree that the bundled TOML parser builds (\<^verbatim>\<open>src/third_party/tomlc99/toml.c\<close>) and the routines that
  the configuration code reads it with.  As in the source, a scalar is kept as its raw token and is
  decoded when it is read; a decoder answers \<open>None\<close> where the source answers \<^verbatim>\<open>-1\<close>.  The parser that
  builds the tree is not part of the model: a configuration is any such tree.
\<close>

section \<open>The tree\<close>

datatype toml_table =
  Toml_Table (tab_kval: "(string \<times> string) list")
             (tab_arr: "(string \<times> toml_array) list")
             (tab_tab: "(string \<times> toml_table) list")
and toml_array = Toml_Array (arr_items: "toml_item list")
and toml_item = Item_Raw string | Item_Array toml_array | Item_Table toml_table

definition toml_key_in :: "toml_table \<Rightarrow> nat \<Rightarrow> string option" where
  "toml_key_in t i =
     (if i < length (tab_kval t) then Some (fst (tab_kval t ! i))
      else
        let i = i - length (tab_kval t) in
        if i < length (tab_arr t) then Some (fst (tab_arr t ! i))
        else
          let i = i - length (tab_arr t) in
          if i < length (tab_tab t) then Some (fst (tab_tab t ! i)) else None)"

definition toml_key_exists :: "toml_table \<Rightarrow> string \<Rightarrow> bool" where
  "toml_key_exists t key \<longleftrightarrow>
     list_ex (\<lambda>e. fst e = key) (tab_kval t) \<or> list_ex (\<lambda>e. fst e = key) (tab_arr t) \<or>
     list_ex (\<lambda>e. fst e = key) (tab_tab t)"

definition toml_raw_in :: "toml_table \<Rightarrow> string \<Rightarrow> string option" where
  "toml_raw_in t key = map_of (tab_kval t) key"

definition toml_array_in :: "toml_table \<Rightarrow> string \<Rightarrow> toml_array option" where
  "toml_array_in t key = map_of (tab_arr t) key"

definition toml_table_in :: "toml_table \<Rightarrow> string \<Rightarrow> toml_table option" where
  "toml_table_in t key = map_of (tab_tab t) key"

definition toml_array_nelem :: "toml_array \<Rightarrow> nat" where
  "toml_array_nelem a = length (arr_items a)"

definition toml_raw_at :: "toml_array \<Rightarrow> nat \<Rightarrow> string option" where
  "toml_raw_at a i =
     (if i < length (arr_items a)
      then (case arr_items a ! i of Item_Raw r \<Rightarrow> Some r | _ \<Rightarrow> None) else None)"

definition toml_array_at :: "toml_array \<Rightarrow> nat \<Rightarrow> toml_array option" where
  "toml_array_at a i =
     (if i < length (arr_items a)
      then (case arr_items a ! i of Item_Array b \<Rightarrow> Some b | _ \<Rightarrow> None) else None)"

definition toml_table_at :: "toml_array \<Rightarrow> nat \<Rightarrow> toml_table option" where
  "toml_table_at a i =
     (if i < length (arr_items a)
      then (case arr_items a ! i of Item_Table t \<Rightarrow> Some t | _ \<Rightarrow> None) else None)"

section \<open>Booleans and integers\<close>

definition toml_rtob :: "string \<Rightarrow> bool option" where
  "toml_rtob src = (if src = ''true'' then Some True else if src = ''false'' then Some False else None)"

text \<open>\<^verbatim>\<open>strtoll(s, &end, base)\<close>: the value clamped at the range of the type, the text from \<^verbatim>\<open>end\<close> on, and
  whether \<^verbatim>\<open>errno\<close> became \<^verbatim>\<open>ERANGE\<close>.\<close>

definition base_digit :: "char \<Rightarrow> nat" where
  "base_digit c =
     (if isdigit c then code c - 48
      else if 97 \<le> code (tolower c) \<and> code (tolower c) \<le> 122 then code (tolower c) - 87
      else 36)"

definition strtoll_base :: "nat \<Rightarrow> string \<Rightarrow> nat \<times> string" where
  "strtoll_base base u =
     (if (base = 0 \<or> base = 16) \<and> 3 \<le> length u \<and> hd u = CHR ''0'' \<and> tolower (u ! 1) = CHR ''x'' \<and>
         base_digit (u ! 2) < 16
      then (16, drop 2 u)
      else if base = 0 then (if u \<noteq> [] \<and> hd u = CHR ''0'' then 8 else 10, u)
      else (base, u))"

definition strtoll :: "nat \<Rightarrow> string \<Rightarrow> int \<times> string \<times> bool" where
  "strtoll base s =
     (let t = dropWhile isspace s;
          neg = (t \<noteq> [] \<and> hd t = CHR ''-'');
          u = (if t \<noteq> [] \<and> (hd t = CHR ''-'' \<or> hd t = CHR ''+'') then tl t else t);
          (base, u) = strtoll_base base u;
          ds = takeWhile (\<lambda>c. base_digit c < base) u;
          m = int (foldl (\<lambda>acc c. acc * base + base_digit c) 0 ds);
          v = (if neg then - m else m)
      in if ds = [] then (0, s, False)
         else (max long_min (min long_max v), dropWhile (\<lambda>c. base_digit c < base) u,
               v < long_min \<or> long_max < v))"

text \<open>A token without its underscores; \<open>None\<close> for a doubled or a final one.\<close>

fun strip_underscores :: "string \<Rightarrow> string option" where
  "strip_underscores [] = Some []"
| "strip_underscores (c # s) =
     (if c = CHR ''_'' then
        (if s = [] \<or> hd s = CHR ''_'' then None else strip_underscores s)
      else map_option (\<lambda>t. c # t) (strip_underscores s))"

definition toml_rtoi :: "string \<Rightarrow> int option" where
  "toml_rtoi src =
     (let signed = (src \<noteq> [] \<and> (hd src = CHR ''+'' \<or> hd src = CHR ''-''));
          sign = (if signed then [hd src] else []);
          s = (if signed then tl src else src)
      in if s \<noteq> [] \<and> hd s = CHR ''_'' then None
         else if s = ''0'' then Some 0
         else
           let prefixed = (2 \<le> length s \<and> hd s = CHR ''0'');
               base = (if prefixed \<and> s ! 1 = CHR ''x'' then 16
                       else if prefixed \<and> s ! 1 = CHR ''o'' then 8
                       else if prefixed \<and> s ! 1 = CHR ''b'' then 2 else 0)
           in if prefixed \<and> base = 0 then None
              else
                (case strip_underscores (if prefixed then drop 2 s else s) of
                   None \<Rightarrow> None
                 | Some digits \<Rightarrow>
                     let buf = sign @ digits in
                     if 100 \<le> length buf then None
                     else (case strtoll base buf of (value, rest, overflow) \<Rightarrow>
                       if overflow \<or> rest \<noteq> [] then None else Some value)))"

section \<open>Strings\<close>

definition char_number :: "nat \<Rightarrow> char" where
  "char_number n = char_of n"

definition toml_ucs_to_utf8 :: "nat \<Rightarrow> string option" where
  "toml_ucs_to_utf8 ucs =
     (let tail = (\<lambda>shift. char_number (128 + (ucs div 2 ^ shift) mod 64)) in
      if 0xd800 \<le> ucs \<and> ucs \<le> 0xdfff \<or> 0xfffe \<le> ucs \<and> ucs \<le> 0xffff then None
      else if ucs \<le> 0x7F then Some [char_number ucs]
      else if ucs \<le> 0x7FF then Some [char_number (0xc0 + ucs div 64), tail 0]
      else if ucs \<le> 0xFFFF then Some [char_number (0xe0 + ucs div 2 ^ 12), tail 6, tail 0]
      else if ucs \<le> 0x1FFFFF then Some [char_number (0xf0 + ucs div 2 ^ 18), tail 12, tail 6, tail 0]
      else if ucs \<le> 0x3FFFFFF then
        Some [char_number (0xf8 + ucs div 2 ^ 24), tail 18, tail 12, tail 6, tail 0]
      else if ucs \<le> 0x7FFFFFFF then
        Some [char_number (0xfc + ucs div 2 ^ 30), tail 24, tail 18, tail 12, tail 6, tail 0]
      else None)"

text \<open>The characters that a string may not hold as they are.\<close>

definition refused_char :: "bool \<Rightarrow> char \<Rightarrow> bool" where
  "refused_char multiline c \<longleftrightarrow>
     (code c \<le> 8 \<or> 10 \<le> code c \<and> code c \<le> 31 \<or> code c = 127) \<and>
     \<not> (multiline \<and> (code c = 13 \<or> code c = 10))"

definition norm_lit_str :: "bool \<Rightarrow> string \<Rightarrow> string option" where
  "norm_lit_str multiline src = (if list_ex (refused_char multiline) src then None else Some src)"

definition upper_hex :: "char \<Rightarrow> nat option" where
  "upper_hex c =
     (if isdigit c then Some (code c - 48)
      else if 65 \<le> code c \<and> code c \<le> 70 then Some (code c - 55) else None)"

fun hex_number :: "nat \<Rightarrow> string \<Rightarrow> nat option" where
  "hex_number acc [] = Some acc"
| "hex_number acc (c # s) = (case upper_hex c of None \<Rightarrow> None | Some d \<Rightarrow> hex_number (acc * 16 + d) s)"

text \<open>The text behind a backslash: what it stands for, and the rest.\<close>

definition basic_escape :: "string \<Rightarrow> (string \<times> string) option" where
  "basic_escape s =
     (case s of
        [] \<Rightarrow> None
      | c # r \<Rightarrow>
          if c = CHR ''u'' \<or> c = CHR ''U'' then
            (let n = (if c = CHR ''u'' then 4 else 8) in
             if length r < n then None
             else (case hex_number 0 (take n r) of
                 None \<Rightarrow> None
               | Some ucs \<Rightarrow> map_option (\<lambda>t. (t, drop n r)) (toml_ucs_to_utf8 ucs)))
          else if c = CHR ''b'' then Some ([CHR 0x08], r)
          else if c = CHR ''t'' then Some ([CHR 0x09], r)
          else if c = CHR ''n'' then Some ([CHR 0x0A], r)
          else if c = CHR ''f'' then Some ([CHR 0x0C], r)
          else if c = CHR ''r'' then Some ([CHR 0x0D], r)
          else if c = CHR 0x22 then Some ([CHR 0x22], r)
          else if c = CHR 0x5C then Some ([CHR 0x5C], r)
          else None)"

definition blank_in_line :: "char \<Rightarrow> bool" where
  "blank_in_line c \<longleftrightarrow> c = CHR '' '' \<or> c = CHR 0x09 \<or> c = CHR 0x0D"

definition line_continues :: "bool \<Rightarrow> string \<Rightarrow> bool" where
  "line_continues multiline s \<longleftrightarrow>
     multiline \<and> (let r = dropWhile blank_in_line s in r \<noteq> [] \<and> hd r = CHR 0x0A)"

lemma basic_escape_shorter: "basic_escape s = Some (t, r) \<Longrightarrow> length r < length s"
  by (auto simp: basic_escape_def Let_def split: list.splits if_splits option.splits)

function norm_basic_str :: "bool \<Rightarrow> string \<Rightarrow> string option" where
  "norm_basic_str multiline [] = Some []"
| "norm_basic_str multiline (c # s) =
     (if c \<noteq> CHR 0x5C then
        (if refused_char multiline c then None
         else map_option (\<lambda>t. c # t) (norm_basic_str multiline s))
      else if s = [] then None
      else if line_continues multiline s then
        norm_basic_str multiline (dropWhile (\<lambda>c. blank_in_line c \<or> c = CHR 0x0A) s)
      else (case basic_escape s of
          None \<Rightarrow> None
        | Some (t, r) \<Rightarrow> map_option (\<lambda>u. t @ u) (norm_basic_str multiline r)))"
  by pat_completeness auto

termination
  by (relation "measure (\<lambda>(m, s). length s)")
    (auto intro: le_imp_less_Suc length_dropWhile_le less_SucI dest: basic_escape_shorter)

text \<open>A string token: quoted, or in triple quotes; the result is the C string up to the first \<^verbatim>\<open>NUL\<close>.\<close>

definition skip_newline :: "string \<Rightarrow> string" where
  "skip_newline s =
     (case s of
        [] \<Rightarrow> []
      | c # r \<Rightarrow> if c = CHR 0x0A then r
                else if c = CHR 0x0D \<and> r \<noteq> [] \<and> hd r = CHR 0x0A then tl r else s)"

definition toml_rtos :: "string \<Rightarrow> string option" where
  "toml_rtos src =
     (if src = [] \<or> hd src \<noteq> CHR 0x27 \<and> hd src \<noteq> CHR 0x22 then None
      else
        let q = hd src;
            multiline = (3 \<le> length src \<and> src ! 1 = q \<and> src ! 2 = q);
            n = (if multiline then 3 else 1)
        in if length src < 2 * n \<or> drop (length src - n) src \<noteq> replicate n q then None
           else
             let body = take (length src - 2 * n) (drop n src);
                 body = (if multiline then skip_newline body else body)
             in map_option c_str
                  (if q = CHR 0x27 then norm_lit_str multiline body else norm_basic_str multiline body))"

section \<open>Reading values\<close>

definition toml_string_in :: "toml_table \<Rightarrow> string \<Rightarrow> string option" where
  "toml_string_in t key = Option.bind (toml_raw_in t key) toml_rtos"

definition toml_bool_in :: "toml_table \<Rightarrow> string \<Rightarrow> bool option" where
  "toml_bool_in t key = Option.bind (toml_raw_in t key) toml_rtob"

definition toml_int_in :: "toml_table \<Rightarrow> string \<Rightarrow> int option" where
  "toml_int_in t key = Option.bind (toml_raw_in t key) toml_rtoi"

definition toml_string_at :: "toml_array \<Rightarrow> nat \<Rightarrow> string option" where
  "toml_string_at a i = Option.bind (toml_raw_at a i) toml_rtos"

definition toml_bool_at :: "toml_array \<Rightarrow> nat \<Rightarrow> bool option" where
  "toml_bool_at a i = Option.bind (toml_raw_at a i) toml_rtob"

definition toml_int_at :: "toml_array \<Rightarrow> nat \<Rightarrow> int option" where
  "toml_int_at a i = Option.bind (toml_raw_at a i) toml_rtoi"

section \<open>Written values\<close>

text \<open>A plain text in double quotes reads back as itself.\<close>

definition quoted :: "string \<Rightarrow> string" where
  "quoted s = CHR 0x22 # s @ [CHR 0x22]"

definition plain_text :: "string \<Rightarrow> bool" where
  "plain_text s \<longleftrightarrow>
     list_all (\<lambda>c. \<not> refused_char False c \<and> c \<noteq> CHR 0x22 \<and> c \<noteq> CHR 0x5C) s"

lemma norm_basic_plain:
  assumes "plain_text s"
  shows "norm_basic_str False s = Some s"
  using assms
proof (induction s)
  case (Cons c s)
  then have "c \<noteq> CHR 0x5C" "\<not> refused_char False c" "plain_text s"
    by (simp_all add: plain_text_def)
  with Cons show ?case by (simp only: norm_basic_str.simps) simp
qed simp

lemma refused_nul: "refused_char False (CHR 0x00)"
  by (simp add: refused_char_def)

lemma c_str_plain:
  assumes "plain_text s"
  shows "c_str s = s"
proof -
  have "\<forall>c \<in> set s. c \<noteq> CHR 0x00"
    using assms refused_nul unfolding plain_text_def list_all_iff by blast
  then show ?thesis
    unfolding c_str_def takeWhile_eq_all_conv .
qed

lemma quoted_not_triple:
  assumes "plain_text s"
  shows "\<not> (quoted s ! 1 = CHR 0x22 \<and> 3 \<le> length (quoted s))"
proof (cases s)
  case (Cons c r)
  with assms have "c \<noteq> CHR 0x22" "quoted s ! 1 = c"
    by (simp_all add: plain_text_def quoted_def)
  then show ?thesis by blast
qed (simp add: quoted_def)

lemma rtos_quoted_body:
  assumes "\<not> (quoted b ! 1 = CHR 0x22 \<and> 3 \<le> length (quoted b))"
  shows "toml_rtos (quoted b) = map_option c_str (norm_basic_str False b)"
proof -
  have h: "hd (quoted b) = CHR 0x22" "quoted b \<noteq> []" "length (quoted b) = length b + 2"
    and d: "drop (length b + 2 - 1) (quoted b) = replicate 1 (CHR 0x22)"
    and t: "take (length b + 2 - 2 * 1) (drop 1 (quoted b)) = b"
    by (simp_all add: quoted_def)
  have m: "(3 \<le> length (quoted b) \<and> quoted b ! 1 = CHR 0x22 \<and> quoted b ! 2 = CHR 0x22) = False"
    using assms by blast
  show ?thesis
    unfolding toml_rtos_def Let_def h(1) m if_False unfolding h(3) d t using h(2) by simp
qed

lemma rtos_quoted:
  assumes "plain_text s"
  shows "toml_rtos (quoted s) = Some s"
  using rtos_quoted_body [of s] quoted_not_triple [OF assms] norm_basic_plain [OF assms] c_str_plain [OF assms]
  by simp

end
