(* ===== verification/Durations.thy ===== *)
theory Durations
  imports Doubles Toml
begin

text \<open>
  \<^verbatim>\<open>ch_config_parse_duration_ns\<close> of \<^verbatim>\<open>config.c\<close>: texts such as \<open>1h30m\<close> read as a number of nanoseconds.  The
  source adds \<^verbatim>\<open>long double\<close> values; they are modelled as rationals rounded to the 64-bit significand of
  the extended format of the x86-64 targets.  \<open>strtold\<close> is modelled with its decimal and its
  hexadecimal forms; infinities, NaNs and range errors are refused by the caller alike and are \<open>None\<close>.
\<close>

section \<open>Extended precision\<close>

definition round_extended :: "rat \<Rightarrow> rat" where
  "round_extended q =
     (if q = 0 then 0
      else let k = max (binary_exponent q - 63) (- 16445) in of_int (round_even (q / 2 powi k)) * 2 powi k)"

definition extended_in_range :: "rat \<Rightarrow> bool" where
  "extended_in_range q \<longleftrightarrow>
     round_extended q < 2 powi 16384 \<and> (2 powi (- 16382) \<le> round_extended q \<or> round_extended q = q)"

section \<open>strtold\<close>

text \<open>An exponent part introduced by the letter \<open>mark\<close>: its value and the text behind it.\<close>

definition scan_exponent_part :: "char \<Rightarrow> string \<Rightarrow> int \<times> string" where
  "scan_exponent_part mark r =
     (if r \<noteq> [] \<and> tolower (hd r) = mark then
        (let t = tl r;
             u = (if t \<noteq> [] \<and> (hd t = CHR ''-'' \<or> hd t = CHR ''+'') then tl t else t);
             ds = takeWhile isdigit u
         in if ds = [] then (0, r)
            else (if t \<noteq> [] \<and> hd t = CHR ''-'' then - int (digits_value ds) else int (digits_value ds),
                  dropWhile isdigit u))
      else (0, r))"

definition is_hex :: "char \<Rightarrow> bool" where
  "is_hex c \<longleftrightarrow> base_digit c < 16"

text \<open>The digits before and behind the point, and the text behind them.\<close>

definition scan_mantissa :: "(char \<Rightarrow> bool) \<Rightarrow> string \<Rightarrow> string \<times> string \<times> string" where
  "scan_mantissa digit u =
     (let whole = takeWhile digit u; r = dropWhile digit u in
      if r \<noteq> [] \<and> hd r = CHR ''.'' \<and> (whole \<noteq> [] \<or> tl r \<noteq> [] \<and> digit (hd (tl r)))
      then (whole, takeWhile digit (tl r), dropWhile digit (tl r))
      else (whole, [], r))"

definition hex_prefixed :: "string \<Rightarrow> bool" where
  "hex_prefixed u \<longleftrightarrow>
     3 \<le> length u \<and> hd u = CHR ''0'' \<and> tolower (u ! 1) = CHR ''x'' \<and>
     (is_hex (u ! 2) \<or> u ! 2 = CHR ''.'' \<and> 4 \<le> length u \<and> is_hex (u ! 3))"

definition unsigned_strtold :: "string \<Rightarrow> (rat \<times> string) option" where
  "unsigned_strtold u =
     (if hex_prefixed u then
        (let (whole, fraction, r) = scan_mantissa is_hex (drop 2 u);
             (e, rest) = scan_exponent_part (CHR ''p'') r;
             m = foldl (\<lambda>acc c. acc * 16 + base_digit c) 0 (whole @ fraction)
         in Some (of_nat m * 2 powi (e - 4 * int (length fraction)), rest))
      else
        (let (whole, fraction, r) = scan_mantissa isdigit u;
             (e, rest) = scan_exponent_part (CHR ''e'') r
         in if whole = [] \<and> fraction = [] then None
            else Some (of_nat (digits_value (whole @ fraction)) * 10 powi (e - int (length fraction)), rest)))"

definition strtold :: "string \<Rightarrow> (bool \<times> rat \<times> string) option" where
  "strtold s =
     (let t = dropWhile isspace s;
          neg = (t \<noteq> [] \<and> hd t = CHR ''-'');
          u = (if t \<noteq> [] \<and> (hd t = CHR ''-'' \<or> hd t = CHR ''+'') then tl t else t)
      in case unsigned_strtold u of
           None \<Rightarrow> None
         | Some (q, rest) \<Rightarrow> if extended_in_range q then Some (neg, round_extended q, rest) else None)"

section \<open>Durations\<close>

definition duration_unit :: "string \<Rightarrow> (nat \<times> string) option" where
  "duration_unit s =
     (if has_prefix ''ns'' s then Some (1, drop 2 s)
      else if has_prefix ''us'' s then Some (1000, drop 2 s)
      else if has_prefix ''ms'' s then Some (1000000, drop 2 s)
      else if has_prefix ''s'' s then Some (1000000000, tl s)
      else if has_prefix ''m'' s then Some (60000000000, tl s)
      else if has_prefix ''h'' s then Some (3600000000000, tl s)
      else None)"

text \<open>The largest magnitude that the conversion to \<^verbatim>\<open>double\<close> leaves finite is below this bound.\<close>

definition double_overflow :: rat where
  "double_overflow = 2 powi 1024 - 2 powi 970"

lemma length_dropWhile_tl: "length (dropWhile P (tl s)) \<le> length s"
  using length_dropWhile_le [of P "tl s"] by simp

lemma scan_exponent_shorter: "length (snd (scan_exponent_part mark r)) \<le> length r"
proof -
  have "length (dropWhile isdigit (tl (tl r))) \<le> length r"
    using length_dropWhile_le [of isdigit "tl (tl r)"] by simp
  then show ?thesis
    by (simp add: scan_exponent_part_def Let_def length_dropWhile_tl)
qed

lemma scan_mantissa_shorter:
  assumes "scan_mantissa digit u = (a, b, r)"
  shows "length r \<le> length u"
proof -
  have "length (dropWhile digit (tl (dropWhile digit u))) \<le> length u"
    using length_dropWhile_tl [of digit "dropWhile digit u"] length_dropWhile_le [of digit u] by simp
  moreover have "r = dropWhile digit u \<or> r = dropWhile digit (tl (dropWhile digit u))"
    using assms by (simp add: scan_mantissa_def Let_def split: if_split_asm)
  ultimately show ?thesis
    using length_dropWhile_le [of digit u] by auto
qed

lemma scan_shorter:
  assumes "scan_mantissa digit u = (a, b, r)" "scan_exponent_part mark r = (e, rest)"
  shows "length rest \<le> length u"
  using scan_mantissa_shorter [OF assms(1)] scan_exponent_shorter [of mark r] assms(2) by simp

lemma unsigned_strtold_shorter:
  assumes "unsigned_strtold u = Some (q, rest)"
  shows "length rest \<le> length u"
proof (cases "hex_prefixed u")
  case True
  then obtain a b r e where "scan_mantissa is_hex (drop 2 u) = (a, b, r)"
    "scan_exponent_part (CHR ''p'') r = (e, rest)"
    using assms unfolding unsigned_strtold_def Let_def by (auto split: prod.splits)
  from scan_shorter [OF this] show ?thesis by simp
next
  case False
  then obtain a b r e where "scan_mantissa isdigit u = (a, b, r)"
    "scan_exponent_part (CHR ''e'') r = (e, rest)"
    using assms unfolding unsigned_strtold_def Let_def by (auto split: prod.splits if_splits)
  from scan_shorter [OF this] show ?thesis .
qed

lemma strtold_shorter:
  assumes "strtold s = Some (neg, q, rest)"
  shows "length rest \<le> length s"
proof -
  obtain p u where "unsigned_strtold u = Some (p, rest)" and u: "length u \<le> length (dropWhile isspace s)"
    using assms unfolding strtold_def Let_def by (auto split: option.splits prod.splits if_splits)
  then have "length rest \<le> length u"
    by (rule_tac unsigned_strtold_shorter)
  also note u
  also have "length (dropWhile isspace s) \<le> length s"
    by (rule length_dropWhile_le)
  finally show ?thesis .
qed

lemma duration_unit_shorter: "duration_unit s = Some (m, r) \<Longrightarrow> length r < length s"
  by (cases s) (auto simp: duration_unit_def has_prefix_def split: if_splits)

function duration_loop :: "rat \<Rightarrow> string \<Rightarrow> rat option" where
  "duration_loop accrued cursor =
     (if cursor = [] then Some accrued
      else (case strtold cursor of
          None \<Rightarrow> None
        | Some (neg, amount, rest) \<Rightarrow>
            if neg \<and> 0 < amount \<or> double_overflow \<le> amount then None
            else (case duration_unit rest of
                None \<Rightarrow> None
              | Some (multiplier, rest) \<Rightarrow>
                  let accrued = round_extended (accrued + round_extended (amount * of_nat multiplier)) in
                  if of_int long_max < accrued then None else duration_loop accrued rest)))"
  by pat_completeness auto

termination
  by (relation "measure (\<lambda>(accrued, s). length s)")
    (auto dest!: strtold_shorter duration_unit_shorter)

declare duration_loop.simps [simp del]

definition ch_config_parse_duration_ns :: "string option \<Rightarrow> int result" where
  "ch_config_parse_duration_ns text =
     (case text of
        None \<Rightarrow> Inl CH_ERROR_PARSE
      | Some [] \<Rightarrow> Inl CH_ERROR_PARSE
      | Some (c # r) \<Rightarrow>
          let cursor = (if c = CHR ''+'' \<or> c = CHR ''-'' then r else c # r) in
          if cursor = ''0'' then Inr 0
          else if cursor = [] then Inl CH_ERROR_PARSE
          else (case duration_loop 0 cursor of
              None \<Rightarrow> Inl CH_ERROR_PARSE
            | Some accrued \<Rightarrow> Inr (if c = CHR ''-'' then - \<lfloor>accrued\<rfloor> else \<lfloor>accrued\<rfloor>)))"

section \<open>Whole numbers of units are exact\<close>

lemma round_extended_nat:
  assumes "n < 2 ^ 64"
  shows "round_extended (of_nat n) = of_nat n"
proof (cases "n = 0")
  case False
  then obtain e where e: "2 ^ e \<le> n" "binary_exponent (of_nat n) = int e"
    using binary_exponent_nat [of n] by auto
  have "(2::nat) ^ e < 2 ^ 64"
    using e(1) assms by linarith
  then have "e < 64"
    by (rule power_less_imp_less_exp [rotated]) simp
  define j where "j = 63 - e"
  have k: "max (binary_exponent (of_nat n) - 63) (- 16445) = - int j"
    using \<open>e < 64\<close> e(2) by (simp add: j_def)
  have scaled: "(of_nat n :: rat) / 2 powi (- int j) = of_int (int n * 2 ^ j)"
    by (simp add: power_int_minus divide_inverse)
  show ?thesis
    using False unfolding round_extended_def Let_def k scaled round_even_int
    by (simp add: power_int_minus)
qed (simp add: round_extended_def)

lemma nat_below_powi:
  assumes "n < 2 ^ 64" "64 \<le> k"
  shows "(of_nat n :: rat) < 2 powi k"
proof -
  have "(of_nat n :: rat) < 2 ^ 64"
    using assms(1) by (metis of_nat_less_iff of_nat_numeral of_nat_power)
  also have "(2::rat) ^ 64 = 2 powi 64" by simp
  also have "(2::rat) powi 64 \<le> 2 powi k"
    using assms(2) by (intro power_int_increasing) auto
  finally show ?thesis .
qed

lemma extended_range_nat:
  assumes "n < 2 ^ 64"
  shows "extended_in_range (of_nat n)"
  unfolding extended_in_range_def round_extended_nat [OF assms]
  by (intro conjI disjI2 refl nat_below_powi assms) simp

lemma double_overflow_nat:
  assumes "n < 2 ^ 64"
  shows "(of_nat n :: rat) < double_overflow"
proof -
  have two: "(2::rat) powi (1023 + 1) = 2 powi 1023 * 2"
    by (rule power_int_add_1) simp
  have "(2::rat) powi 970 \<le> 2 powi 1023"
    by (rule power_int_increasing) auto
  moreover have "(of_nat n :: rat) < 2 powi 1023"
    by (rule nat_below_powi [OF assms]) simp
  moreover have "double_overflow = 2 powi 1023 * 2 - 2 powi 970"
    unfolding double_overflow_def two [symmetric] by (simp only: numeral_plus_one semiring_norm)
  ultimately show ?thesis by linarith
qed

datatype time_unit = Nanoseconds | Microseconds | Milliseconds | Seconds | Minutes | Hours

fun unit_text :: "time_unit \<Rightarrow> string" where
  "unit_text Nanoseconds = ''ns''"
| "unit_text Microseconds = ''us''"
| "unit_text Milliseconds = ''ms''"
| "unit_text Seconds = ''s''"
| "unit_text Minutes = ''m''"
| "unit_text Hours = ''h''"

fun unit_nanos :: "time_unit \<Rightarrow> nat" where
  "unit_nanos Nanoseconds = 1"
| "unit_nanos Microseconds = 1000"
| "unit_nanos Milliseconds = 1000000"
| "unit_nanos Seconds = 1000000000"
| "unit_nanos Minutes = 60000000000"
| "unit_nanos Hours = 3600000000000"

fun duration_text :: "(nat \<times> time_unit) list \<Rightarrow> string" where
  "duration_text [] = []"
| "duration_text ((n, u) # ps) = dec_nat n @ unit_text u @ duration_text ps"

fun duration_value :: "(nat \<times> time_unit) list \<Rightarrow> nat" where
  "duration_value [] = 0"
| "duration_value ((n, u) # ps) = n * unit_nanos u + duration_value ps"

lemma unit_start:
  obtains c r where "unit_text u = c # r" "c \<in> set ''numsh''"
  by (cases u) auto

definition stop_char :: "char \<Rightarrow> bool" where
  "stop_char c \<longleftrightarrow> \<not> isdigit c \<and> c \<noteq> CHR ''.'' \<and> tolower c \<noteq> CHR ''e'' \<and> tolower c \<noteq> CHR ''x''"

lemma unit_stop: "c \<in> set ''numsh'' \<Longrightarrow> stop_char c"
  by (auto simp: stop_char_def isdigit_def tolower_def isupper_def)

lemma digit_not_x: "isdigit c \<Longrightarrow> tolower c \<noteq> CHR ''x''"
  by (auto simp: isdigit_def tolower_def isupper_def)

lemma dec_nat_not_hex:
  assumes "stop_char c"
  shows "\<not> hex_prefixed (dec_nat n @ c # r)"
proof -
  obtain d ds where d: "dec_nat n = d # ds"
    by (cases "dec_nat n") auto
  have "tolower ((dec_nat n @ c # r) ! 1) \<noteq> CHR ''x''"
  proof (cases ds)
    case Nil
    then show ?thesis using assms by (simp add: d stop_char_def)
  next
    case (Cons e es)
    then have "isdigit e" using dec_nat_digits [of n] by (simp add: d)
    then show ?thesis using Cons digit_not_x by (simp add: d)
  qed
  then show ?thesis unfolding hex_prefixed_def by blast
qed

lemma strtold_dec_nat:
  assumes "n < 2 ^ 64" "stop_char c"
  shows "strtold (dec_nat n @ c # r) = Some (False, of_nat n, c # r)"
proof -
  obtain d ds where d: "dec_nat n = d # ds" "isdigit d"
    using isdigit_hd_dec_nat [of n] by (cases "dec_nat n") auto
  have ds: "\<not> isspace d" "d \<noteq> CHR ''-''" "d \<noteq> CHR ''+''"
    using hd_dec_nat_not_sign [of n] isspace_hd_dec_nat [of n] by (simp_all add: d)
  have w: "takeWhile isdigit (dec_nat n @ c # r) = dec_nat n" "dropWhile isdigit (dec_nat n @ c # r) = c # r"
    using assms(2) dec_nat_digits [of n] by (auto simp: takeWhile_append dropWhile_append stop_char_def)
  have m: "scan_mantissa isdigit (dec_nat n @ c # r) = (dec_nat n, [], c # r)"
    using assms(2) unfolding scan_mantissa_def w by (simp add: stop_char_def)
  have e: "scan_exponent_part (CHR ''e'') (c # r) = (0, c # r)"
    using assms(2) by (simp add: scan_exponent_part_def stop_char_def)
  have "unsigned_strtold (dec_nat n @ c # r) = Some (of_nat n, c # r)"
    using dec_nat_not_hex [OF assms(2)] unfolding unsigned_strtold_def m by (simp add: e)
  moreover have "dropWhile isspace (dec_nat n @ c # r) = dec_nat n @ c # r" "hd (dec_nat n @ c # r) = d"
    using ds by (simp_all add: d)
  ultimately show ?thesis
    using ds extended_range_nat [OF assms(1)] by (simp add: strtold_def round_extended_nat [OF assms(1)])
qed

lemma duration_text_start: "duration_text ps = [] \<or> isdigit (hd (duration_text ps))"
  by (cases ps rule: duration_text.cases) simp_all

lemma unit_read:
  assumes "r = [] \<or> isdigit (hd r)"
  shows "duration_unit (unit_text u @ r) = Some (unit_nanos u, r)"
  using assms by (cases u; cases r) (auto simp: duration_unit_def has_prefix_def isdigit_def)

lemma duration_loop_exact:
  "accrued + duration_value ps < 2 ^ 63 \<Longrightarrow>
   duration_loop (of_nat accrued) (duration_text ps) = Some (of_nat (accrued + duration_value ps))"
proof (induction ps arbitrary: accrued rule: duration_text.induct)
  case 1
  then show ?case by (simp add: duration_loop.simps)
next
  case (2 n u ps)
  obtain c r where u: "unit_text u = c # r" "stop_char c"
    using unit_start unit_stop by metis
  have "1 \<le> unit_nanos u" by (cases u) simp_all
  then have n: "n \<le> n * unit_nanos u" by simp
  have whole: "accrued + n * unit_nanos u + duration_value ps < 2 ^ 63"
    using 2(2) by simp
  have sums: "accrued + n * unit_nanos u < 2 ^ 64"
    using whole by simp
  then have prods: "n * unit_nanos u < 2 ^ 64"
    by linarith
  then have small: "n < 2 ^ 64"
    using n by linarith
  note bounds = small prods sums whole
  have read: "strtold (duration_text ((n, u) # ps)) = Some (False, of_nat n, unit_text u @ duration_text ps)"
    using strtold_dec_nat [OF bounds(1) u(2), of "r @ duration_text ps"] by (simp add: u(1))
  have prod: "(of_nat n :: rat) * of_nat (unit_nanos u) = of_nat (n * unit_nanos u)"
    and add: "(of_nat accrued :: rat) + of_nat (n * unit_nanos u) = of_nat (accrued + n * unit_nanos u)"
    by simp_all
  have "int (accrued + n * unit_nanos u) \<le> long_max"
  proof -
    have "accrued + n * unit_nanos u \<le> 9223372036854775807"
      using bounds(4) by simp
    then show ?thesis
      unfolding long_max_def by (simp only: of_nat_le_iff [symmetric, where 'a = int]) simp
  qed
  then have "\<not> of_int long_max < (of_nat (accrued + n * unit_nanos u) :: rat)"
    by (metis not_le of_int_le_iff of_int_of_nat_eq)
  moreover have "duration_text ((n, u) # ps) \<noteq> []" by simp
  ultimately show ?case
    using 2(1) [OF bounds(4)] double_overflow_nat [OF bounds(1), THEN linorder_not_le [THEN iffD2]]
    by (subst duration_loop.simps)
      (simp only: read unit_read [OF duration_text_start] prod add round_extended_nat [OF bounds(2)]
        round_extended_nat [OF bounds(3)] Let_def option.case prod.case if_False simp_thms duration_value.simps add.assoc)
qed

text \<open>C37: A duration written as a sequence of whole numbers with units, such as \<open>1h30m15s\<close>, is read as exactly
  the sum of its parts in nanoseconds, whenever that sum fits an \<^verbatim>\<open>int64_t\<close>; a leading minus sign negates
  it.  The floating-point sums of the source lose nothing.\<close>

theorem duration_exact:
  assumes "ps \<noteq> []" "int (duration_value ps) \<le> long_max"
  shows "ch_config_parse_duration_ns (Some (duration_text ps)) = Inr (int (duration_value ps)) \<and>
    ch_config_parse_duration_ns (Some (CHR ''-'' # duration_text ps)) = Inr (- int (duration_value ps))"
proof -
  obtain n u qs where ps: "ps = (n, u) # qs"
    using assms(1) by (cases ps) auto
  obtain d ds where d: "duration_text ps = d # ds" "isdigit d"
  proof -
    have "duration_text ps \<noteq> []" by (simp add: ps)
    with duration_text_start [of ps] show thesis
      using that by (metis list.collapse)
  qed
  have "duration_value ps < 2 ^ 63"
    using assms(2) by (simp add: long_max_def)
  from duration_loop_exact [of 0, simplified, OF this [simplified]]
  have "duration_loop 0 (duration_text ps) = Some (of_nat (duration_value ps))" by simp
  moreover have "duration_text ps \<noteq> ''0''"
  proof
    assume "duration_text ps = ''0''"
    then have "\<forall>c \<in> set (unit_text u). isdigit c" by (auto simp: ps isdigit_def append_eq_Cons_conv)
    then show False by (cases u) (simp_all add: isdigit_def)
  qed
  ultimately show ?thesis
    using d by (auto simp: ch_config_parse_duration_ns_def isdigit_def)
qed

theorem duration_exact_witness:
  "ch_config_parse_duration_ns (Some ''1h30m'') = Inr 5400000000000 \<and>
   ch_config_parse_duration_ns (Some ''-1h30m'') = Inr (- 5400000000000)"
  using duration_exact [of "[(1, Hours), (30, Minutes)]"]
  by (simp add: long_max_def dec_nat.simps digit_char_def char_of_def bit_Suc_0_iff)

end
