(* ===== verification/Config.thy ===== *)
theory Config
  imports Durations Inet Json
begin

text \<open>
  \<^verbatim>\<open>config.c\<close>: validation of a parsed configuration, the accessors that the rest of the program reads it
  with, profiles, path resolution and the rendering of strings as TOML.  A validator answers \<^term>\<open>True\<close>
  where the source answers \<^verbatim>\<open>CH_OK\<close>; its only other answer is \<^verbatim>\<open>CH_ERROR_INVALID_ARGUMENT\<close>.  A pointer
  that may be \<^verbatim>\<open>NULL\<close> is an option.
\<close>

section \<open>Texts\<close>

definition string_is_trimmed_nonempty :: "string option \<Rightarrow> bool" where
  "string_is_trimmed_nonempty value \<longleftrightarrow>
     (case value of
        None \<Rightarrow> False
      | Some s \<Rightarrow> s \<noteq> [] \<and> \<not> isspace (hd s) \<and> \<not> isspace (last s))"

definition string_is_trimmed :: "string option \<Rightarrow> bool" where
  "string_is_trimmed value \<longleftrightarrow>
     (case value of
        None \<Rightarrow> True
      | Some s \<Rightarrow> s = [] \<or> \<not> isspace (hd s) \<and> \<not> isspace (last s))"

text \<open>\<^verbatim>\<open>value != NULL && value[0] != '\0'\<close>.\<close>

definition given :: "string option \<Rightarrow> bool" where
  "given value \<longleftrightarrow> or_empty value \<noteq> []"

definition table_string :: "toml_table \<Rightarrow> string \<Rightarrow> string option" where
  "table_string t key = toml_string_in t key"

definition table_bool_default :: "toml_table \<Rightarrow> string \<Rightarrow> bool \<Rightarrow> bool" where
  "table_bool_default t key default_value =
     (case toml_bool_in t key of None \<Rightarrow> default_value | Some b \<Rightarrow> b)"

definition table_int_default :: "toml_table \<Rightarrow> string \<Rightarrow> int \<Rightarrow> int" where
  "table_int_default t key default_value =
     (case toml_int_in t key of None \<Rightarrow> default_value | Some i \<Rightarrow> i)"

text \<open>The host with its brackets, and the port text.\<close>

definition listen_parts :: "string \<Rightarrow> (string \<times> string) option" where
  "listen_parts address =
     (if hd address = CHR ''['' then
        (case strchr address (CHR '']'') of
           None \<Rightarrow> None
         | Some (a, b) \<Rightarrow>
             if length a = 1 \<or> b = [] \<or> hd b \<noteq> CHR '':'' then None else Some (a @ '']'', tl b))
      else
        (case strrchr address (CHR '':'') of
           None \<Rightarrow> None
         | Some (a, b) \<Rightarrow> if a = [] \<or> CHR '':'' \<in> set a then None else Some (a, b)))"

definition valid_listen_address :: "string option \<Rightarrow> bool \<Rightarrow> bool" where
  "valid_listen_address address allow_zero_port \<longleftrightarrow>
     string_is_trimmed_nonempty address \<and>
     (case listen_parts (or_empty address) of
        None \<Rightarrow> False
      | Some (host, port_text) \<Rightarrow>
          \<not> list_ex isspace host \<and> port_text \<noteq> [] \<and>
          (case strtol_full port_text of
             None \<Rightarrow> False
           | Some port \<Rightarrow> (if allow_zero_port then 0 else 1) \<le> port \<and> port \<le> 65535))"

definition valid_cidr :: "string option \<Rightarrow> bool" where
  "valid_cidr text \<longleftrightarrow>
     string_is_trimmed_nonempty text \<and>
     (case strrchr (or_empty text) (CHR ''/'') of
        None \<Rightarrow> False
      | Some (address, suffix) \<Rightarrow>
          address \<noteq> [] \<and> suffix \<noteq> [] \<and> length address < 46 \<and>
          (let family = (if CHR '':'' \<in> set address then AF_INET6 else AF_INET);
               max_prefix = (if family = AF_INET6 then 128 else 32)
           in inet_pton family address \<noteq> None \<and>
              (case strtol_full suffix of None \<Rightarrow> False | Some p \<Rightarrow> 0 \<le> p \<and> p \<le> max_prefix)))"

definition valid_ip :: "string option \<Rightarrow> bool" where
  "valid_ip text \<longleftrightarrow>
     string_is_trimmed_nonempty text \<and>
     (inet_pton AF_INET (or_empty text) \<noteq> None \<or> inet_pton AF_INET6 (or_empty text) \<noteq> None)"

definition url_host :: "bool \<Rightarrow> string \<Rightarrow> string option" where
  "url_host https_only s =
     (if has_prefix ''https://'' s then Some (drop 8 s)
      else if \<not> https_only \<and> has_prefix ''http://'' s then Some (drop 7 s)
      else None)"

definition valid_http_url :: "string option \<Rightarrow> bool \<Rightarrow> bool" where
  "valid_http_url text https_only \<longleftrightarrow>
     string_is_trimmed_nonempty text \<and>
     (case url_host https_only (or_empty text) of
        None \<Rightarrow> False
      | Some rest \<Rightarrow>
          (let host = takeWhile (\<lambda>c. c \<notin> set ''/?#'') rest in host \<noteq> [] \<and> \<not> list_ex isspace host))"

section \<open>Arrays\<close>

definition nelem :: "toml_array option \<Rightarrow> nat" where
  "nelem array = (case array of None \<Rightarrow> 0 | Some a \<Rightarrow> toml_array_nelem a)"

definition string_at :: "toml_array option \<Rightarrow> nat \<Rightarrow> string option" where
  "string_at array i = Option.bind array (\<lambda>a. toml_string_at a i)"

definition table_at :: "toml_array option \<Rightarrow> nat \<Rightarrow> toml_table option" where
  "table_at array i = Option.bind array (\<lambda>a. toml_table_at a i)"

definition table_name :: "toml_array option \<Rightarrow> nat \<Rightarrow> string option" where
  "table_name tables i = Option.bind (table_at tables i) (\<lambda>t. table_string t ''name'')"

definition array_contains_string :: "toml_array option \<Rightarrow> string option \<Rightarrow> bool" where
  "array_contains_string array needle \<longleftrightarrow>
     needle \<noteq> None \<and> list_ex (\<lambda>i. string_at array i = needle) [0..<nelem array]"

definition validate_string_array :: "toml_array option \<Rightarrow> bool \<Rightarrow> bool \<Rightarrow> bool" where
  "validate_string_array array cidr ip \<longleftrightarrow>
     list_all (\<lambda>i. let item = string_at array i in
         string_is_trimmed_nonempty item \<and> (cidr \<longrightarrow> valid_cidr item) \<and> (ip \<longrightarrow> valid_ip item))
       [0..<nelem array]"

definition validate_duration_field :: "toml_table \<Rightarrow> string \<Rightarrow> bool \<Rightarrow> bool" where
  "validate_duration_field t key nonnegative \<longleftrightarrow>
     (case toml_string_in t key of
        None \<Rightarrow> True
      | Some v \<Rightarrow>
          (case ch_config_parse_duration_ns (Some v) of
             Inl _ \<Rightarrow> False
           | Inr nanoseconds \<Rightarrow> \<not> (nonnegative \<and> nanoseconds < 0)))"

definition named_table_exists :: "toml_array option \<Rightarrow> string option \<Rightarrow> bool" where
  "named_table_exists tables name \<longleftrightarrow>
     name \<noteq> None \<and> list_ex (\<lambda>i. table_name tables i = name) [0..<nelem tables]"

definition validate_named_table :: "toml_array option \<Rightarrow> nat \<Rightarrow> bool" where
  "validate_named_table tables index \<longleftrightarrow>
     string_is_trimmed_nonempty (table_name tables index) \<and>
     \<not> list_ex (\<lambda>prior. table_name tables prior = table_name tables index) [0..<index]"

definition string_equals_one_of :: "string option \<Rightarrow> string list \<Rightarrow> bool \<Rightarrow> bool" where
  "string_equals_one_of value allowed empty_allowed =
     (if \<not> given value then empty_allowed else list_ex (\<lambda>a. value = Some a) allowed)"

section \<open>Sections of a profile\<close>

definition validate_upstream :: "toml_table \<Rightarrow> bool" where
  "validate_upstream upstream \<longleftrightarrow>
     (let protocol = table_string upstream ''protocol'';
          url = table_string upstream ''url'';
          address = table_string upstream ''address'';
          resolver = table_string upstream ''resolver'';
          transport = table_string upstream ''transport''
      in string_is_trimmed_nonempty protocol \<and>
         (if protocol = Some ''doh'' then valid_http_url url True \<and> \<not> given address
          else if protocol = Some ''dot'' \<or> protocol = Some ''doq'' then
            valid_listen_address address False \<and> \<not> given url
          else if protocol = Some ''controld'' then
            string_is_trimmed_nonempty resolver \<and>
            \<not> list_ex (\<lambda>c. c \<in> {CHR '' '', CHR 0x09, CHR 0x0D, CHR 0x0A, CHR ''/''}) (or_empty resolver) \<and>
            (\<not> given transport \<or> transport = Some ''doh'' \<or> transport = Some ''dot'' \<or> transport = Some ''doq'') \<and>
            \<not> given url \<and> \<not> given address
          else False) \<and>
         validate_string_array (toml_array_in upstream ''bootstrap_ips'') False True)"

definition validate_dns :: "toml_table \<Rightarrow> bool" where
  "validate_dns profile \<longleftrightarrow>
     (case toml_table_in profile ''dns'' of
        None \<Rightarrow> True
      | Some dns \<Rightarrow>
          validate_duration_field dns ''timeout'' True \<and>
          (\<not> table_bool_default dns ''enabled'' False \<or>
           (let upstreams = toml_array_in dns ''upstream'' in
            nelem upstreams \<noteq> 0 \<and>
            list_all (\<lambda>i. case table_at upstreams i of None \<Rightarrow> False | Some u \<Rightarrow> validate_upstream u)
              [0..<nelem upstreams])))"

text \<open>The loop that looks a chain name up; a missing or empty name counts as found.\<close>

definition chain_found :: "toml_array option \<Rightarrow> string option \<Rightarrow> bool" where
  "chain_found known chain \<longleftrightarrow>
     \<not> given chain \<or> list_ex (\<lambda>i. table_name known i = chain) [0..<nelem known]"

definition validate_listener :: "toml_table \<Rightarrow> toml_array option \<Rightarrow> string \<Rightarrow> string \<Rightarrow> string \<Rightarrow> string \<Rightarrow> bool" where
  "validate_listener listen known address_key chain_key max_key timeout_key \<longleftrightarrow>
     (let address = table_string listen address_key;
          chain = table_string listen chain_key
      in (given address \<longrightarrow>
            valid_listen_address address True \<and>
            (nelem known = 0 \<or> given chain \<and> \<not> array_contains_string None chain \<longrightarrow>
               nelem known \<noteq> 0 \<and> chain_found known chain)) \<and>
         0 \<le> table_int_default listen max_key 0 \<and>
         validate_duration_field listen timeout_key True)"

definition validate_tun :: "toml_table \<Rightarrow> toml_array option \<Rightarrow> bool" where
  "validate_tun tun known \<longleftrightarrow>
     (table_bool_default tun ''enabled'' False \<longrightarrow>
        0 \<le> table_int_default tun ''mtu'' 0 \<and>
        nelem known \<noteq> 0 \<and> chain_found known (table_string tun ''chain'') \<and>
        validate_string_array (toml_array_in tun ''addresses'') True False \<and>
        validate_string_array (toml_array_in tun ''routes'') True False \<and>
        validate_string_array (toml_array_in tun ''exclude_cidrs'') True False)"

definition validate_listen :: "toml_table \<Rightarrow> toml_array option \<Rightarrow> bool" where
  "validate_listen profile known \<longleftrightarrow>
     (case toml_table_in profile ''listen'' of
        None \<Rightarrow> True
      | Some listen \<Rightarrow>
          validate_listener listen known ''socks5'' ''socks5_chain'' ''socks5_max_connections''
            ''socks5_handshake_timeout'' \<and>
          validate_listener listen known ''http'' ''http_chain'' ''http_max_connections''
            ''http_handshake_timeout'' \<and>
          (case toml_table_in listen ''tun'' of None \<Rightarrow> True | Some tun \<Rightarrow> validate_tun tun known))"

definition validate_member :: "toml_array option \<Rightarrow> toml_array option \<Rightarrow> nat \<Rightarrow> bool" where
  "validate_member known members index \<longleftrightarrow>
     (let member = string_at members index in
      string_is_trimmed_nonempty member \<and> named_table_exists known member \<and>
      \<not> list_ex (\<lambda>prior. string_at members prior = member) [0..<index])"

definition validate_policy_group :: "toml_array option \<Rightarrow> toml_array option \<Rightarrow> nat \<Rightarrow> bool" where
  "validate_policy_group gs known index \<longleftrightarrow>
     (case table_at gs index of
        None \<Rightarrow> False
      | Some group0 \<Rightarrow>
          let members = toml_array_in group0 ''chains'';
              selected = table_string group0 ''selected'';
              test_url = table_string group0 ''test_url''
          in validate_named_table gs index \<and>
             string_equals_one_of (table_string group0 ''type'')
               [''select'', ''url-test'', ''fallback'', ''load-balance'', ''smart''] False \<and>
             nelem members \<noteq> 0 \<and>
             list_all (validate_member known members) [0..<nelem members] \<and>
             (given selected \<longrightarrow> string_is_trimmed_nonempty selected \<and> array_contains_string members selected) \<and>
             (given test_url \<longrightarrow> valid_http_url test_url False) \<and>
             validate_duration_field group0 ''interval'' True \<and> validate_duration_field group0 ''timeout'' True)"

definition validate_policy_groups :: "toml_table \<Rightarrow> toml_array option \<Rightarrow> bool" where
  "validate_policy_groups profile known \<longleftrightarrow>
     (let gs = toml_array_in profile ''policy_group'' in
      list_all (validate_policy_group gs known) [0..<nelem gs])"

definition validate_rule_set :: "toml_array option \<Rightarrow> nat \<Rightarrow> bool" where
  "validate_rule_set sets index \<longleftrightarrow>
     (case table_at sets index of
        None \<Rightarrow> False
      | Some t \<Rightarrow>
          let fields = map (toml_array_in t) [''domains'', ''domain_suffixes'', ''domain_keywords''];
              cidrs = toml_array_in t ''cidrs'';
              url = table_string t ''url''
          in validate_named_table sets index \<and>
             list_all (\<lambda>a. validate_string_array a False False) fields \<and>
             validate_string_array cidrs True False \<and>
             (given url \<longrightarrow> valid_http_url url False) \<and>
             string_equals_one_of (table_string t ''format'') [''auto'', ''plain'', ''hosts'', ''adblock''] True \<and>
             \<not> (sum_list (map nelem fields) + nelem cidrs = 0 \<and> \<not> given url))"

definition validate_rule_sets :: "toml_table \<Rightarrow> bool" where
  "validate_rule_sets profile \<longleftrightarrow>
     (let sets = toml_array_in profile ''rule_set'' in list_all (validate_rule_set sets) [0..<nelem sets])"

definition validate_network_array :: "toml_array option \<Rightarrow> bool" where
  "validate_network_array networks \<longleftrightarrow>
     list_all (\<lambda>i. let v = string_at networks i in
         string_is_trimmed_nonempty v \<and> (strcaseeq (or_empty v) ''tcp'' \<or> strcaseeq (or_empty v) ''udp''))
       [0..<nelem networks]"

definition valid_rule_action :: "toml_array option \<Rightarrow> toml_array option \<Rightarrow> string \<Rightarrow> bool" where
  "valid_rule_action known gs action \<longleftrightarrow>
     strcaseeq action ''direct'' \<or> strcaseeq action ''block'' \<or> strcaseeq action ''reject'' \<or>
     (case strchr action (CHR '':'') of
        None \<Rightarrow> False
      | Some (_, target) \<Rightarrow>
          target \<noteq> [] \<and>
          (if has_prefix_fold ''chain:'' action then named_table_exists known (Some target)
           else if has_prefix_fold ''group:'' action then named_table_exists gs (Some target)
           else False))"

definition validate_rule :: "toml_table \<Rightarrow> toml_array option \<Rightarrow> toml_table \<Rightarrow> bool" where
  "validate_rule profile known rule \<longleftrightarrow>
     (let gs = toml_array_in profile ''policy_group'';
          sets = toml_array_in profile ''rule_set'';
          action = table_string rule ''action'';
          rule_sets = toml_array_in rule ''rule_sets'';
          ports = toml_array_in rule ''ports''
      in string_is_trimmed_nonempty (table_string rule ''name'') \<and>
         string_is_trimmed_nonempty action \<and>
         valid_rule_action known gs (or_empty action) \<and>
         list_all (\<lambda>f. validate_string_array (toml_array_in rule f) False False)
           [''domains'', ''domain_suffixes'', ''domain_keywords'', ''networks'', ''rule_sets'', ''processes''] \<and>
         (0 < nelem rule_sets \<longrightarrow>
            toml_array_in rule ''domains'' = None \<and> toml_array_in rule ''domain_suffixes'' = None \<and>
            toml_array_in rule ''domain_keywords'' = None \<and> toml_array_in rule ''cidrs'' = None \<and>
            list_all (\<lambda>i. named_table_exists sets (string_at rule_sets i)) [0..<nelem rule_sets]) \<and>
         validate_network_array (toml_array_in rule ''networks'') \<and>
         validate_string_array (toml_array_in rule ''cidrs'') True False \<and>
         validate_string_array (toml_array_in rule ''source_cidrs'') True False \<and>
         list_all (\<lambda>i. case Option.bind ports (\<lambda>a. toml_int_at a i) of
             None \<Rightarrow> False | Some port \<Rightarrow> 0 \<le> port \<and> port \<le> 65535) [0..<nelem ports])"

definition validate_rules :: "toml_table \<Rightarrow> toml_array option \<Rightarrow> bool" where
  "validate_rules profile known \<longleftrightarrow>
     (let rules = toml_array_in profile ''rule'' in
      list_all (\<lambda>i. case table_at rules i of None \<Rightarrow> False | Some rule \<Rightarrow> validate_rule profile known rule)
        [0..<nelem rules])"

definition validate_rule_subscription :: "toml_array option \<Rightarrow> nat \<Rightarrow> bool" where
  "validate_rule_subscription subscriptions index \<longleftrightarrow>
     (case table_at subscriptions index of
        None \<Rightarrow> False
      | Some t \<Rightarrow>
          validate_named_table subscriptions index \<and>
          valid_http_url (table_string t ''url'') False \<and>
          string_equals_one_of (table_string t ''format'') [''auto'', ''plain'', ''hosts'', ''adblock''] True \<and>
          string_equals_one_of (table_string t ''action'') [''block'', ''reject''] True \<and>
          validate_network_array (toml_array_in t ''networks''))"

definition validate_rule_subscriptions :: "toml_table \<Rightarrow> bool" where
  "validate_rule_subscriptions profile \<longleftrightarrow>
     (let subscriptions = toml_array_in profile ''rule_subscription'' in
      list_all (validate_rule_subscription subscriptions) [0..<nelem subscriptions])"

text \<open>\<^verbatim>\<open>toml_array_nelem(servers)\<close> protocols, each present and trimmed.\<close>

definition validate_servers :: "toml_table \<Rightarrow> bool" where
  "validate_servers chain \<longleftrightarrow>
     (let servers = toml_array_in chain ''server'' in
      nelem servers \<noteq> 0 \<and>
      list_all (\<lambda>i. string_is_trimmed_nonempty
          (Option.bind (table_at servers i) (\<lambda>t. table_string t ''protocol''))) [0..<nelem servers])"

definition validate_chain :: "toml_array option \<Rightarrow> nat \<Rightarrow> bool" where
  "validate_chain known index \<longleftrightarrow>
     (case table_at known index of
        None \<Rightarrow> False
      | Some chain \<Rightarrow>
          string_is_trimmed_nonempty (table_string chain ''name'') \<and>
          \<not> list_ex (\<lambda>prior. table_name known prior = table_string chain ''name'') [0..<index] \<and>
          validate_servers chain)"

definition validate_profile :: "toml_table \<Rightarrow> bool" where
  "validate_profile profile \<longleftrightarrow>
     (let known = toml_array_in profile ''chain'' in
      list_all (validate_chain known) [0..<nelem known] \<and>
      validate_policy_groups profile known \<and> validate_rule_sets profile \<and>
      validate_rules profile known \<and> validate_rule_subscriptions profile \<and>
      validate_listen profile known \<and> validate_dns profile \<and>
      (let listen = Option.bind (toml_table_in profile ''api'') (\<lambda>api. table_string api ''listen'') in
       given listen \<longrightarrow> valid_listen_address listen True) \<and>
      (case toml_table_in profile ''conditioner'' of
         None \<Rightarrow> True
       | Some conditioner \<Rightarrow>
           validate_duration_field conditioner ''latency'' False \<and>
           validate_duration_field conditioner ''jitter'' False))"

section \<open>The developer section\<close>

definition islower :: "char \<Rightarrow> bool" where
  "islower c \<longleftrightarrow> 97 \<le> code c \<and> code c \<le> 122"

definition string_has_case_and_trim :: "string option \<Rightarrow> bool \<Rightarrow> bool" where
  "string_has_case_and_trim value uppercase \<longleftrightarrow>
     string_is_trimmed_nonempty value \<and>
     list_all (\<lambda>c. \<not> ((isupper c \<or> islower c) \<and> (if uppercase then \<not> isupper c else \<not> islower c)))
       (or_empty value)"

definition validate_case_array :: "toml_array option \<Rightarrow> bool \<Rightarrow> bool" where
  "validate_case_array array uppercase \<longleftrightarrow>
     list_all (\<lambda>i. string_has_case_and_trim (string_at array i) uppercase) [0..<nelem array]"

definition validate_developer_match :: "toml_table option \<Rightarrow> bool" where
  "validate_developer_match match \<longleftrightarrow>
     (case match of
        None \<Rightarrow> True
      | Some t \<Rightarrow>
          list_all (\<lambda>f. string_is_trimmed (table_string t f)) [''host'', ''path_prefix'', ''url_contains''] \<and>
          validate_case_array (toml_array_in t ''methods'') True)"

definition validate_developer_rule_common :: "toml_table \<Rightarrow> bool" where
  "validate_developer_rule_common rule \<longleftrightarrow>
     string_is_trimmed_nonempty (table_string rule ''id'') \<and>
     string_is_trimmed (table_string rule ''name'') \<and>
     validate_developer_match (toml_table_in rule ''match'')"

text \<open>The loop over the keys of a table ends at the first index without a key.\<close>

definition toml_keys :: "toml_table \<Rightarrow> string list" where
  "toml_keys t =
     map (\<lambda>i. the (toml_key_in t i)) [0..<length (tab_kval t) + length (tab_arr t) + length (tab_tab t)]"

definition validate_developer_map_rule :: "toml_table \<Rightarrow> bool" where
  "validate_developer_map_rule rule \<longleftrightarrow>
     (let kind = table_string rule ''kind'';
          local_path = table_string rule ''local_path'';
          remote_url = table_string rule ''remote_url'';
          status = table_int_default rule ''status'' 0
      in validate_developer_rule_common rule \<and>
         (kind = Some ''local'' \<or> kind = Some ''remote'') \<and>
         (if kind = Some ''local'' then
            string_is_trimmed_nonempty local_path \<and> hd (or_empty local_path) = CHR ''/'' \<and> \<not> given remote_url
          else valid_http_url remote_url False \<and> \<not> given local_path) \<and>
         0 \<le> status \<and> status \<le> 999 \<and>
         (case toml_table_in rule ''headers'' of
            None \<Rightarrow> True
          | Some headers \<Rightarrow> list_all (\<lambda>k. string_is_trimmed_nonempty (Some k)) (toml_keys headers)))"

text \<open>The loops over the developer rules, each entry a table.\<close>

definition all_tables :: "(toml_table \<Rightarrow> bool) \<Rightarrow> toml_array option \<Rightarrow> bool" where
  "all_tables P tables \<longleftrightarrow>
     list_all (\<lambda>i. case table_at tables i of None \<Rightarrow> False | Some t \<Rightarrow> P t) [0..<nelem tables]"

definition validate_developer_map_rules :: "toml_table \<Rightarrow> bool" where
  "validate_developer_map_rules developer \<longleftrightarrow>
     all_tables validate_developer_map_rule (toml_array_in developer ''map_rule'')"

definition validate_developer_stage :: "toml_table \<Rightarrow> string option" where
  "validate_developer_stage rule =
     (case table_string rule ''stage'' of
        None \<Rightarrow> None
      | Some s \<Rightarrow> if s = ''request'' \<or> s = ''response'' \<or> s = ''both'' then Some s else None)"

definition validate_developer_breakpoint_rules :: "toml_table \<Rightarrow> bool" where
  "validate_developer_breakpoint_rules developer \<longleftrightarrow>
     all_tables (\<lambda>rule. validate_developer_rule_common rule \<and> validate_developer_stage rule \<noteq> None)
       (toml_array_in developer ''breakpoint_rule'')"

definition parse_http_status :: "string option \<Rightarrow> bool" where
  "parse_http_status text \<longleftrightarrow>
     given text \<and> (case strtol_full (or_empty text) of None \<Rightarrow> False | Some n \<Rightarrow> 100 \<le> n \<and> n \<le> 599)"

definition validate_developer_rewrite_op :: "toml_table \<Rightarrow> string \<Rightarrow> bool" where
  "validate_developer_rewrite_op op stage \<longleftrightarrow>
     (let target = table_string op ''target'';
          action = table_string op ''action'';
          field = table_string op ''field'';
          value0 = table_string op ''value'';
          replacement = table_string op ''replace''
      in if target = Some ''header'' \<and> action \<noteq> None then
           (action = Some ''add'' \<or> action = Some ''set'' \<or> action = Some ''remove'') \<and>
           string_is_trimmed_nonempty field \<and>
           (action = Some ''add'' \<or> action = Some ''set'' \<longrightarrow> given value0)
         else if target = Some ''body'' \<and> action \<noteq> None then
           (if action = Some ''set'' then given value0
            else action = Some ''replace'' \<and> given value0 \<and> given replacement)
         else target = Some ''status'' \<and> action = Some ''set'' \<and> stage \<noteq> ''request'' \<and>
              parse_http_status value0)"

definition validate_developer_rewrite_rule :: "toml_table \<Rightarrow> bool" where
  "validate_developer_rewrite_rule rule \<longleftrightarrow>
     validate_developer_rule_common rule \<and>
     (case validate_developer_stage rule of
        None \<Rightarrow> False
      | Some stage \<Rightarrow>
          (let operations = toml_array_in rule ''op'' in
           nelem operations \<noteq> 0 \<and> all_tables (\<lambda>op. validate_developer_rewrite_op op stage) operations))"

definition validate_developer_rewrite_rules :: "toml_table \<Rightarrow> bool" where
  "validate_developer_rewrite_rules developer \<longleftrightarrow>
     all_tables validate_developer_rewrite_rule (toml_array_in developer ''rewrite_rule'')"

definition validate_developer :: "toml_table option \<Rightarrow> bool" where
  "validate_developer developer \<longleftrightarrow>
     (case developer of
        None \<Rightarrow> True
      | Some d \<Rightarrow>
          list_all (\<lambda>k. 0 \<le> table_int_default d k 0)
            [''capture_limit'', ''body_limit_bytes'', ''header_value_limit_bytes''] \<and>
          list_all (\<lambda>k. string_is_trimmed (table_string d k)) [''ca_cert_path'', ''ca_key_path''] \<and>
          validate_case_array (toml_array_in d ''redact_headers'') False \<and>
          validate_case_array (toml_array_in d ''redact_query_params'') False \<and>
          validate_case_array (toml_array_in d ''ssl_decrypt_hosts'') False \<and>
          validate_developer_map_rules d \<and> validate_developer_breakpoint_rules d \<and>
          validate_developer_rewrite_rules d)"

section \<open>The whole document\<close>

definition validate_profile_at :: "toml_array option \<Rightarrow> nat \<Rightarrow> bool" where
  "validate_profile_at profiles index \<longleftrightarrow>
     validate_named_table profiles index \<and>
     (case table_at profiles index of None \<Rightarrow> False | Some profile \<Rightarrow> validate_profile profile)"

definition validate_prompt :: "toml_table option \<Rightarrow> bool" where
  "validate_prompt prompt \<longleftrightarrow>
     (case prompt of
        None \<Rightarrow> True
      | Some p \<Rightarrow>
          0 \<le> table_int_default p ''timeout_seconds'' 0 \<and>
          (let silent = table_string p ''silent_mode'' in
           \<not> given silent \<or> silent = Some ''allow'' \<or> silent = Some ''deny''))"

definition validate_config :: "toml_table \<Rightarrow> bool" where
  "validate_config tree \<longleftrightarrow>
     (let profiles = toml_array_in tree ''profile'';
          active = table_string tree ''active''
      in nelem profiles \<noteq> 0 \<and>
         string_is_trimmed active \<and>
         list_all (validate_profile_at profiles) [0..<nelem profiles] \<and>
         (given active \<longrightarrow> list_ex (\<lambda>i. table_name profiles i = active) [0..<nelem profiles]) \<and>
         validate_prompt (toml_table_in tree ''prompt'') \<and>
         validate_developer (toml_table_in tree ''developer'') \<and>
         (case toml_table_in tree ''traffic'' of
            None \<Rightarrow> True
          | Some traffic \<Rightarrow> validate_duration_field traffic ''history_max_age'' False))"

record ch_config =
  cf_root :: toml_table
  cf_source_path :: "string option"
  cf_document :: string

text \<open>The parser is an argument; \<open>None\<close> is a syntax error.\<close>

definition ch_config_parse ::
  "(string \<Rightarrow> toml_table option) \<Rightarrow> string option \<Rightarrow> string option \<Rightarrow> ch_config result" where
  "ch_config_parse toml_parse toml source_path =
     (case toml of
        None \<Rightarrow> Inl CH_ERROR_INVALID_ARGUMENT
      | Some document \<Rightarrow>
          (case toml_parse document of
             None \<Rightarrow> Inl CH_ERROR_PARSE
           | Some tree \<Rightarrow>
               if validate_config tree
               then Inr \<lparr>cf_root = tree, cf_source_path = source_path, cf_document = document\<rparr>
               else Inl CH_ERROR_INVALID_ARGUMENT))"

section \<open>Accessors\<close>

definition ch_config_table_has :: "toml_table option \<Rightarrow> string \<Rightarrow> bool" where
  "ch_config_table_has t key \<longleftrightarrow> (case t of None \<Rightarrow> False | Some t \<Rightarrow> toml_key_exists t key)"

definition ch_config_table_get_table :: "toml_table option \<Rightarrow> string \<Rightarrow> toml_table option" where
  "ch_config_table_get_table t key = Option.bind t (\<lambda>t. toml_table_in t key)"

definition ch_config_table_get_array :: "toml_table option \<Rightarrow> string \<Rightarrow> toml_array option" where
  "ch_config_table_get_array t key = Option.bind t (\<lambda>t. toml_array_in t key)"

text \<open>\<^verbatim>\<open>missing_value\<close> and \<^verbatim>\<open>array_missing\<close>.\<close>

definition or_missing :: "'a option \<Rightarrow> 'a result" where
  "or_missing v = (case v of None \<Rightarrow> Inl CH_ERROR_NOT_FOUND | Some x \<Rightarrow> Inr x)"

definition ch_config_table_get_string :: "toml_table option \<Rightarrow> string \<Rightarrow> string result" where
  "ch_config_table_get_string t key = or_missing (Option.bind t (\<lambda>t. toml_string_in t key))"

definition ch_config_table_get_bool :: "toml_table option \<Rightarrow> string \<Rightarrow> bool result" where
  "ch_config_table_get_bool t key = or_missing (Option.bind t (\<lambda>t. toml_bool_in t key))"

definition ch_config_table_get_int :: "toml_table option \<Rightarrow> string \<Rightarrow> int result" where
  "ch_config_table_get_int t key = or_missing (Option.bind t (\<lambda>t. toml_int_in t key))"

definition ch_config_array_count :: "toml_array option \<Rightarrow> nat" where
  "ch_config_array_count array = nelem array"

text \<open>The source converts an index to \<^verbatim>\<open>int\<close> first and refuses one above \<^verbatim>\<open>INT_MAX\<close>; the length of an array is
  an \<^verbatim>\<open>int\<close>, so that such an index is beyond the array in any case.\<close>

definition ch_config_array_get_table :: "toml_array option \<Rightarrow> nat \<Rightarrow> toml_table option" where
  "ch_config_array_get_table array index = table_at array index"

definition ch_config_array_get_string :: "toml_array option \<Rightarrow> nat \<Rightarrow> string result" where
  "ch_config_array_get_string array index = or_missing (string_at array index)"

definition ch_config_array_get_int :: "toml_array option \<Rightarrow> nat \<Rightarrow> int result" where
  "ch_config_array_get_int array index = or_missing (Option.bind array (\<lambda>a. toml_int_at a index))"

section \<open>Profiles\<close>

definition ch_config_profile_count :: "ch_config \<Rightarrow> nat" where
  "ch_config_profile_count config = nelem (toml_array_in (cf_root config) ''profile'')"

definition ch_config_profile_at :: "ch_config \<Rightarrow> nat \<Rightarrow> toml_table option" where
  "ch_config_profile_at config index = table_at (toml_array_in (cf_root config) ''profile'') index"

definition ch_config_active_profile :: "ch_config \<Rightarrow> toml_table option" where
  "ch_config_active_profile config =
     (let profiles = toml_array_in (cf_root config) ''profile'';
          active = table_string (cf_root config) ''active''
      in case (if given active then find (\<lambda>i. table_name profiles i = active) [0..<nelem profiles] else None) of
           Some i \<Rightarrow> table_at profiles i
         | None \<Rightarrow> if 0 < nelem profiles then table_at profiles 0 else None)"

definition ch_config_profile_named :: "ch_config \<Rightarrow> string option \<Rightarrow> toml_table option" where
  "ch_config_profile_named config name =
     (if \<not> given name then None
      else
        Option.bind
          (find (\<lambda>i. ch_config_table_get_string (ch_config_profile_at config i) ''name'' = Inr (or_empty name))
            [0..<ch_config_profile_count config])
          (ch_config_profile_at config))"

section \<open>Writing strings\<close>

definition toml_escape :: "char \<Rightarrow> string" where
  "toml_escape c =
     (if c = CHR 0x08 then [CHR 0x5C, CHR ''b'']
      else if c = CHR 0x09 then [CHR 0x5C, CHR ''t'']
      else if c = CHR 0x0A then [CHR 0x5C, CHR ''n'']
      else if c = CHR 0x0C then [CHR 0x5C, CHR ''f'']
      else if c = CHR 0x0D then [CHR 0x5C, CHR ''r'']
      else if c = CHR 0x22 then [CHR 0x5C, CHR 0x22]
      else if c = CHR 0x5C then [CHR 0x5C, CHR 0x5C]
      else if code c < 32 \<or> code c = 127 then
        [CHR 0x5C, CHR ''u'', CHR ''0'', CHR ''0'', hex_digit (code c div 16), hex_digit (code c mod 16)]
      else [c])"

definition config_append_toml_string :: "string \<Rightarrow> string" where
  "config_append_toml_string value = CHR 0x22 # concat (map toml_escape value) @ [CHR 0x22]"

text \<open>The document split at the line that assigns \<^verbatim>\<open>active\<close> before the first table: the text before the
  line and the text behind it.\<close>

definition space_or_tab :: "char \<Rightarrow> bool" where
  "space_or_tab c \<longleftrightarrow> c = CHR '' '' \<or> c = CHR 0x09"

definition assigns_active :: "string \<Rightarrow> bool" where
  "assigns_active content \<longleftrightarrow>
     has_prefix ''active'' content \<and>
     (let r = dropWhile space_or_tab (drop 6 content) in r \<noteq> [] \<and> hd r = CHR ''='')"

function active_line :: "string \<Rightarrow> string \<Rightarrow> (string \<times> string) option" where
  "active_line before cursor =
     (if cursor = [] then None
      else
        let line = takeWhile (\<lambda>c. c \<noteq> CHR 0x0A) cursor;
            after = drop (length line + 1) cursor;
            content = dropWhile space_or_tab line
        in if content \<noteq> [] \<and> hd content = CHR ''['' then None
           else if assigns_active content then Some (before, after)
           else active_line (before @ take (length line + 1) cursor) after)"
  by pat_completeness auto

termination
  by (relation "measure (\<lambda>(b, s). length s)") auto

definition ch_config_document_set_active ::
  "(string \<Rightarrow> toml_table option) \<Rightarrow> ch_config \<Rightarrow> string option \<Rightarrow> string result" where
  "ch_config_document_set_active toml_parse config profile_name =
     (if \<not> given profile_name then Inl CH_ERROR_INVALID_ARGUMENT
      else if ch_config_profile_named config profile_name = None then Inl CH_ERROR_NOT_FOUND
      else
        let document = cf_document config;
            (before, after) = (case active_line [] document of None \<Rightarrow> ([], document) | Some p \<Rightarrow> p);
            candidate = before @ ''active = '' @ config_append_toml_string (or_empty profile_name) @
                        [CHR 0x0A] @ after
        in bind_result (ch_config_parse toml_parse (Some candidate) (cf_source_path config)) (\<lambda>_. Inr candidate))"

section \<open>Paths\<close>

text \<open>The segments between slashes, without the empty ones, and the stack the loop keeps.\<close>

definition path_segments :: "string \<Rightarrow> string list" where
  "path_segments path = filter (\<lambda>s. s \<noteq> []) (split_on (CHR ''/'') path)"

definition push_segment :: "bool \<Rightarrow> string list \<Rightarrow> string \<Rightarrow> string list" where
  "push_segment is_absolute stack segment =
     (if segment = ''.'' then stack
      else if segment = ''..'' then
        (if stack \<noteq> [] \<and> last stack \<noteq> ''..'' then butlast stack
         else if \<not> is_absolute then stack @ [segment] else stack)
      else stack @ [segment])"

definition normalize_unix_path :: "string \<Rightarrow> string" where
  "normalize_unix_path path =
     (let is_absolute = (path \<noteq> [] \<and> hd path = CHR ''/'');
          segments = foldl (push_segment is_absolute) [] (path_segments path)
      in if \<not> is_absolute \<and> segments = [] then ''.''
         else (if is_absolute then ''/'' else []) @ join_with (CHR ''/'') segments)"

text \<open>The working directory is an argument, \<open>None\<close> when it cannot be read.\<close>

definition ch_config_resolve_path :: "string option \<Rightarrow> ch_config \<Rightarrow> string option \<Rightarrow> string result" where
  "ch_config_resolve_path working_directory config configured_path =
     (case configured_path of
        None \<Rightarrow> Inl CH_ERROR_INVALID_ARGUMENT
      | Some path \<Rightarrow>
          if path = [] then Inr []
          else if hd path = CHR ''/'' then Inr (normalize_unix_path path)
          else
            (case Option.bind (cf_source_path config) (\<lambda>s. strrchr s (CHR ''/'')) of
               Some (directory, _) \<Rightarrow>
                 Inr (normalize_unix_path ((if directory = [] then ''/'' else directory) @ CHR ''/'' # path))
             | None \<Rightarrow>
                 (case working_directory of
                    None \<Rightarrow> Inl CH_ERROR_IO
                  | Some directory \<Rightarrow> Inr (normalize_unix_path (directory @ CHR ''/'' # path)))))"

section \<open>Strings that do not read back\<close>

text \<open>The writer uses lower case hexadecimal digits, which the reader does not accept.\<close>

definition unreadable :: "char \<Rightarrow> bool" where
  "unreadable c \<longleftrightarrow>
     (code c < 32 \<or> code c = 127) \<and> c \<notin> {CHR 0x0A, CHR 0x0C, CHR 0x0D} \<and> 10 \<le> code c mod 16"

lemma digit_list: "d < 16 \<Longrightarrow> d \<in> set [0..<16]"
  by simp

lemma upper_hex_digit: "d < 16 \<Longrightarrow> upper_hex (hex_digit d) = (if d < 10 then Some d else None)"
proof -
  have "list_all (\<lambda>d. upper_hex (hex_digit d) = (if d < 10 then Some d else None)) [0..<16]"
    by code_simp
  then show "d < 16 \<Longrightarrow> upper_hex (hex_digit d) = (if d < 10 then Some d else None)"
    unfolding list_all_iff using digit_list by blast
qed

lemma upper_hex_zero: "upper_hex (CHR ''0'') = Some 0"
  by (simp add: upper_hex_def isdigit_def)

lemma ucs_ascii: "n < 128 \<Longrightarrow> toml_ucs_to_utf8 n = Some [char_of n]"
  by (simp add: toml_ucs_to_utf8_def char_number_def)

lemma basic_escape_u:
  "basic_escape (CHR ''u'' # w # x # y # z # r) =
    (case hex_number 0 [w, x, y, z] of
       None \<Rightarrow> None | Some ucs \<Rightarrow> map_option (\<lambda>t. (t, r)) (toml_ucs_to_utf8 ucs))"
  by (simp add: basic_escape_def del: hex_number.simps split: option.split)

lemma hex_number_byte:
  assumes "a < 10" "b < 16"
  shows "hex_number 0 [CHR ''0'', CHR ''0'', hex_digit a, hex_digit b] = (if b < 10 then Some (a * 16 + b) else None)"
  using upper_hex_digit [of a] upper_hex_digit [OF assms(2)] assms(1)
  by (simp only: hex_number.simps upper_hex_zero option.case) simp

lemma escape_unicode:
  assumes "n < 128"
  shows "basic_escape (CHR ''u'' # CHR ''0'' # CHR ''0'' # hex_digit (n div 16) # hex_digit (n mod 16) # r) =
    (if 10 \<le> n mod 16 then None else Some ([char_of n], r))"
proof -
  have n: "n div 16 < 10" "n mod 16 < 16" "n div 16 * 16 + n mod 16 = n"
    using assms by simp_all
  show ?thesis
    unfolding basic_escape_u hex_number_byte [OF n(1,2)] n(3)
    by (simp add: ucs_ascii [OF assms] not_less)
qed

lemma norm_basic_backslash:
  "s \<noteq> [] \<Longrightarrow> norm_basic_str False (CHR 0x5C # s) =
    (case basic_escape s of None \<Rightarrow> None | Some (t, r) \<Rightarrow> map_option (\<lambda>u. t @ u) (norm_basic_str False r))"
  by (simp add: line_continues_def)

lemma append_single: "(@) [c] = (#) c"
  by (rule ext) simp

definition short_escapes :: "(char \<times> char) list" where
  "short_escapes =
     [(CHR 0x08, CHR ''b''), (CHR 0x09, CHR ''t''), (CHR 0x0A, CHR ''n''), (CHR 0x0C, CHR ''f''),
      (CHR 0x0D, CHR ''r''), (CHR 0x22, CHR 0x22), (CHR 0x5C, CHR 0x5C)]"

lemma basic_escape_short:
  "basic_escape (CHR ''b'' # r) = Some ([CHR 0x08], r)" "basic_escape (CHR ''t'' # r) = Some ([CHR 0x09], r)"
  "basic_escape (CHR ''n'' # r) = Some ([CHR 0x0A], r)" "basic_escape (CHR ''f'' # r) = Some ([CHR 0x0C], r)"
  "basic_escape (CHR ''r'' # r) = Some ([CHR 0x0D], r)" "basic_escape (CHR 0x22 # r) = Some ([CHR 0x22], r)"
  "basic_escape (CHR 0x5C # r) = Some ([CHR 0x5C], r)"
  by (simp_all add: basic_escape_def)

lemma short_escapes_written: "list_all (\<lambda>(c, e). toml_escape c = [CHR 0x5C, e] \<and> \<not> unreadable c) short_escapes"
  by code_simp

lemma short_escape:
  assumes "(c, e) \<in> set short_escapes"
  shows "toml_escape c = [CHR 0x5C, e] \<and> basic_escape (e # r) = Some ([c], r) \<and> \<not> unreadable c"
proof -
  have "basic_escape (e # r) = Some ([c], r)"
    using assms unfolding short_escapes_def
    by (simp only: list.set insert_iff empty_iff prod.inject simp_thms) (elim disjE conjE; simp only: basic_escape_short)
  moreover have "toml_escape c = [CHR 0x5C, e] \<and> \<not> unreadable c"
    using short_escapes_written assms unfolding list_all_iff by blast
  ultimately show ?thesis by blast
qed

lemma escape_kinds:
  obtains e where "(c, e) \<in> set short_escapes"
  | "code c < 32 \<or> code c = 127" "c \<notin> {CHR 0x0A, CHR 0x0C, CHR 0x0D}"
    "toml_escape c = [CHR 0x5C, CHR ''u'', CHR ''0'', CHR ''0'', hex_digit (code c div 16), hex_digit (code c mod 16)]"
  | "toml_escape c = [c]" "c \<noteq> CHR 0x5C" "\<not> code c < 32" "code c \<noteq> 127"
proof (cases "c \<in> fst ` set short_escapes")
  case True
  then show thesis using that(1) by (metis (no_types) imageE prod.collapse)
next
  case False
  then have ne: "c \<noteq> CHR 0x08" "c \<noteq> CHR 0x09" "c \<noteq> CHR 0x0A" "c \<noteq> CHR 0x0C" "c \<noteq> CHR 0x0D" "c \<noteq> CHR 0x22" "c \<noteq> CHR 0x5C"
    unfolding short_escapes_def by (simp_all only: list.set image_insert image_empty fst_conv insert_iff de_Morgan_disj not_False_eq_True simp_thms)
  have "toml_escape c =
    (if code c < 32 \<or> code c = 127
     then [CHR 0x5C, CHR ''u'', CHR ''0'', CHR ''0'', hex_digit (code c div 16), hex_digit (code c mod 16)] else [c])"
    unfolding toml_escape_def by (simp only: ne if_False simp_thms)
  then show thesis
    using that(2,3) ne by (cases "code c < 32 \<or> code c = 127") simp_all
qed

lemma norm_basic_escape:
  "norm_basic_str False (toml_escape c @ r) =
    (if unreadable c then None else map_option (\<lambda>u. c # u) (norm_basic_str False r))"
proof (cases rule: escape_kinds [of c])
  case (1 e)
  from short_escape [OF this, of r] show ?thesis
    by (simp add: norm_basic_backslash append_single del: norm_basic_str.simps)
next
  case 2
  then have "code c < 128" by auto
  from escape_unicode [OF this, of r] 2 show ?thesis
    by (simp add: norm_basic_backslash append_single unreadable_def del: norm_basic_str.simps)
next
  case 3
  then have "\<not> refused_char False c" "\<not> unreadable c"
    by (auto simp: refused_char_def unreadable_def)
  with 3 show ?thesis by simp
qed

lemma norm_basic_escaped:
  "norm_basic_str False (concat (map toml_escape s)) = (if list_ex unreadable s then None else Some s)"
  by (induction s) (simp_all add: norm_basic_escape)

lemma toml_escape_start: "toml_escape c \<noteq> [] \<and> hd (toml_escape c) \<noteq> CHR 0x22"
  by (simp add: toml_escape_def)

lemma escaped_start: "s \<noteq> [] \<Longrightarrow> concat (map toml_escape s) \<noteq> [] \<and> hd (concat (map toml_escape s)) \<noteq> CHR 0x22"
  using toml_escape_start by (cases s) simp_all

text \<open>C36: A string that \<^verbatim>\<open>config_append_toml_string\<close> writes into a document is read back by the TOML reader
  as the same string, except when it holds a control character whose code has a hexadecimal digit
  above 9: the writer emits that digit in lower case, and the reader refuses the whole value.\<close>

theorem toml_string_round_trip:
  assumes "CHR 0x00 \<notin> set s"
  shows "toml_rtos (config_append_toml_string s) = (if list_ex unreadable s then None else Some s)"
proof -
  define b where "b = concat (map toml_escape s)"
  have t: "config_append_toml_string s = quoted b"
    by (simp add: config_append_toml_string_def quoted_def b_def)
  have "\<not> (quoted b ! 1 = CHR 0x22 \<and> 3 \<le> length (quoted b))"
    using escaped_start [of s] by (cases s; cases b) (auto simp: quoted_def b_def)
  from rtos_quoted_body [OF this]
  have "toml_rtos (config_append_toml_string s) = map_option c_str (norm_basic_str False b)"
    unfolding t .
  moreover have "c_str s = s"
    using assms unfolding c_str_def takeWhile_eq_all_conv by blast
  ultimately show ?thesis
    by (simp add: b_def norm_basic_escaped)
qed

theorem toml_string_round_trip_witness:
  "toml_rtos (config_append_toml_string ''home office'') = Some ''home office'' \<and>
   toml_rtos (config_append_toml_string [CHR 0x1F]) = None"
  using toml_string_round_trip [of "''home office''"] toml_string_round_trip [of "[CHR 0x1F]"]
  by (simp add: unreadable_def)

end
