(* ===== verification/Rules_Config.thy ===== *)
theory Rules_Config
  imports Config Rules Json_Laws
begin

text \<open>
  \<^verbatim>\<open>rules_config.c\<close>: the rule engine of a profile is compiled from the configuration and from cached rule
  feeds, and a route is explained.  Reading a feed cache from disk is an argument, a function of the
  configuration path, the kind of the feed, the profile, the name and the URL.  Allocation succeeds.
\<close>

section \<open>Loading lists\<close>

text \<open>The loops that read one entry after the other and stop at the first error.\<close>

fun load_all :: "('a \<Rightarrow> 'b result) \<Rightarrow> 'a list \<Rightarrow> 'b list result" where
  "load_all f [] = Inr []"
| "load_all f (x # xs) = bind_result (f x) (\<lambda>y. bind_result (load_all f xs) (\<lambda>ys. Inr (y # ys)))"

definition config_load_strings :: "toml_table \<Rightarrow> string \<Rightarrow> ch_string_list result" where
  "config_load_strings t key =
     (let array = ch_config_table_get_array (Some t) key in
      bind_result (load_all (ch_config_array_get_string array) [0..<ch_config_array_count array])
        (\<lambda>items. Inr (map Some items)))"

definition config_optional_bool :: "toml_table \<Rightarrow> string \<Rightarrow> bool \<Rightarrow> bool" where
  "config_optional_bool t key fallback =
     (if ch_config_table_has (Some t) key
      then (case ch_config_table_get_bool (Some t) key of Inl _ \<Rightarrow> fallback | Inr b \<Rightarrow> b) else fallback)"

definition config_string_or :: "toml_table \<Rightarrow> string \<Rightarrow> string \<Rightarrow> string" where
  "config_string_or t key fallback =
     (if ch_config_table_has (Some t) key
      then (case ch_config_table_get_string (Some t) key of Inl _ \<Rightarrow> fallback | Inr s \<Rightarrow> s) else fallback)"

definition config_load_ports :: "toml_table \<Rightarrow> int list result" where
  "config_load_ports t =
     (let array = ch_config_table_get_array (Some t) ''ports'' in
      load_all (\<lambda>i. bind_result (ch_config_array_get_int array i) (\<lambda>port.
          if port < 0 \<or> 65535 < port then Inl CH_ERROR_INVALID_ARGUMENT else Inr port))
        [0..<ch_config_array_count array])"

text \<open>An entry that is not a table leaves the status of the cleared error behind, \<^verbatim>\<open>CH_OK\<close>, and no names.\<close>

fun load_names :: "toml_array option \<Rightarrow> string list \<Rightarrow> nat list \<Rightarrow> string list result" where
  "load_names array names [] = Inr names"
| "load_names array names (i # is) =
     (case ch_config_array_get_table array i of
        None \<Rightarrow> Inr []
      | Some t \<Rightarrow>
          bind_result (ch_config_table_get_string (Some t) ''name'') (\<lambda>name. load_names array (names @ [name]) is))"

definition config_load_names :: "toml_array option \<Rightarrow> string list result" where
  "config_load_names array = load_names array [] [0..<ch_config_array_count array]"

section \<open>Rules and rule sets\<close>

definition config_load_rule :: "toml_table \<Rightarrow> ch_rule_spec result" where
  "config_load_rule t =
     bind_result (ch_config_table_get_string (Some t) ''name'') (\<lambda>name.
     bind_result (ch_config_table_get_string (Some t) ''action'') (\<lambda>action.
     bind_result (config_load_strings t ''rule_sets'') (\<lambda>rule_sets.
     bind_result (config_load_strings t ''domains'') (\<lambda>domains.
     bind_result (config_load_strings t ''domain_suffixes'') (\<lambda>domain_suffixes.
     bind_result (config_load_strings t ''domain_keywords'') (\<lambda>domain_keywords.
     bind_result (config_load_strings t ''cidrs'') (\<lambda>cidrs.
     bind_result (config_load_strings t ''source_cidrs'') (\<lambda>source_cidrs.
     bind_result (config_load_ports t) (\<lambda>ports.
     bind_result (config_load_strings t ''networks'') (\<lambda>networks.
     bind_result (config_load_strings t ''processes'') (\<lambda>processes.
       Inr \<lparr>rs_name = Some name, rs_action = Some action, rs_rule_sets = rule_sets, rs_domains = domains,
            rs_domain_suffixes = domain_suffixes, rs_domain_keywords = domain_keywords, rs_cidrs = cidrs,
            rs_source_cidrs = source_cidrs, rs_ports = ports, rs_networks = networks,
            rs_processes = processes\<rparr>)))))))))))"

definition config_load_rule_set :: "toml_table \<Rightarrow> ch_rule_set_spec result" where
  "config_load_rule_set t =
     bind_result (ch_config_table_get_string (Some t) ''name'') (\<lambda>name.
     bind_result (config_load_strings t ''domains'') (\<lambda>domains.
     bind_result (config_load_strings t ''domain_suffixes'') (\<lambda>domain_suffixes.
     bind_result (config_load_strings t ''domain_keywords'') (\<lambda>domain_keywords.
     bind_result (config_load_strings t ''cidrs'') (\<lambda>cidrs.
       Inr \<lparr>ss_name = Some name, ss_domains = domains, ss_domain_suffixes = domain_suffixes,
            ss_domain_keywords = domain_keywords, ss_cidrs = cidrs\<rparr>)))))"

datatype ch_rule_feed_kind = CH_RULE_FEED_RULE_SET | CH_RULE_FEED_SUBSCRIPTION

record ch_rule_feed =
  rf_domain_suffixes :: "string list"
  rf_cidrs :: "string list"

type_synonym cache_load = "string option \<Rightarrow> ch_rule_feed_kind \<Rightarrow> string \<Rightarrow> string \<Rightarrow> string \<Rightarrow> ch_rule_feed result"

definition config_extend_rule_set_from_cache ::
  "cache_load \<Rightarrow> ch_config \<Rightarrow> string \<Rightarrow> toml_table \<Rightarrow> ch_rule_set_spec \<Rightarrow> ch_rule_set_spec result" where
  "config_extend_rule_set_from_cache load config profile_name t spec =
     (let url = config_string_or t ''url'' [] in
      if \<not> given (cf_source_path config) \<or> config_optional_bool t ''disabled'' False \<or> url = [] then Inr spec
      else
        case load (cf_source_path config) CH_RULE_FEED_RULE_SET profile_name (or_empty (ss_name spec)) url of
          Inl e \<Rightarrow>
            if e \<in> {CH_ERROR_NOT_FOUND, CH_ERROR_PARSE, CH_ERROR_IO} then Inr spec else Inl e
        | Inr feed \<Rightarrow>
            Inr (spec\<lparr>ss_domain_suffixes := ss_domain_suffixes spec @ map Some (rf_domain_suffixes feed),
                      ss_cidrs := ss_cidrs spec @ map Some (rf_cidrs feed)\<rparr>))"

text \<open>A rule generated from a subscription: \<open>kind\<close> is \<open>domains\<close> or \<open>cidrs\<close>.\<close>

definition config_load_subscription_rule :: "toml_table \<Rightarrow> string \<Rightarrow> string \<Rightarrow> string list \<Rightarrow> ch_rule_spec result" where
  "config_load_subscription_rule t subscription_name kind cached =
     bind_result (config_load_strings t ''networks'') (\<lambda>networks.
       Inr \<lparr>rs_name = Some (''subscription:'' @ subscription_name @ '':'' @ kind),
            rs_action = Some (config_string_or t ''action'' ''block''), rs_rule_sets = [], rs_domains = [],
            rs_domain_suffixes = (if kind = ''domains'' then map Some cached else []), rs_domain_keywords = [],
            rs_cidrs = (if kind = ''domains'' then [] else map Some cached), rs_source_cidrs = [], rs_ports = [],
            rs_networks = networks, rs_processes = []\<rparr>)"

definition config_select_profile :: "ch_config \<Rightarrow> string option \<Rightarrow> toml_table result" where
  "config_select_profile config profile_name =
     or_missing (if given profile_name then ch_config_profile_named config profile_name
                 else ch_config_active_profile config)"

text \<open>The rules of one subscription: none when it is disabled or has no usable cache.\<close>

definition subscription_rules ::
  "cache_load \<Rightarrow> ch_config \<Rightarrow> string \<Rightarrow> toml_table option \<Rightarrow> ch_rule_spec list result" where
  "subscription_rules load config profile_name entry =
     (case entry of
        None \<Rightarrow> Inr []
      | Some t \<Rightarrow>
          if config_optional_bool t ''disabled'' False then Inr []
          else
            let name = config_string_or t ''name'' []; url = config_string_or t ''url'' [] in
            case load (cf_source_path config) CH_RULE_FEED_SUBSCRIPTION profile_name name url of
              Inl _ \<Rightarrow> Inr []
            | Inr feed \<Rightarrow>
                bind_result
                  (if rf_domain_suffixes feed = [] then Inr []
                   else bind_result (config_load_subscription_rule t name ''domains'' (rf_domain_suffixes feed))
                          (\<lambda>r. Inr [r]))
                  (\<lambda>domain_rules.
                    bind_result
                      (if rf_cidrs feed = [] then Inr []
                       else bind_result (config_load_subscription_rule t name ''cidrs'' (rf_cidrs feed))
                              (\<lambda>r. Inr [r]))
                      (\<lambda>cidr_rules. Inr (domain_rules @ cidr_rules))))"

definition ch_rule_engine_compile_config ::
  "cache_load \<Rightarrow> ch_config \<Rightarrow> string option \<Rightarrow> ch_rule_engine result" where
  "ch_rule_engine_compile_config load config profile_name =
     bind_result (config_select_profile config profile_name) (\<lambda>profile.
     let known = ch_config_table_get_array (Some profile) ''chain'';
         gs = ch_config_table_get_array (Some profile) ''policy_group'';
         sets = ch_config_table_get_array (Some profile) ''rule_set'';
         rules = ch_config_table_get_array (Some profile) ''rule'';
         subscriptions = ch_config_table_get_array (Some profile) ''rule_subscription''
     in
     bind_result (config_load_names known) (\<lambda>chain_names.
     bind_result (ch_config_table_get_string (Some profile) ''name'') (\<lambda>selected.
     if chain_names = [] then Inl CH_ERROR_INVALID_ARGUMENT
     else
     bind_result (config_load_names gs) (\<lambda>group_names.
     bind_result (load_all (\<lambda>i. case ch_config_array_get_table sets i of
           None \<Rightarrow> Inl CH_ERROR_PARSE
         | Some t \<Rightarrow> bind_result (config_load_rule_set t) (config_extend_rule_set_from_cache load config selected t))
       [0..<ch_config_array_count sets]) (\<lambda>set_specs.
     bind_result (load_all (\<lambda>i. case ch_config_array_get_table rules i of
           None \<Rightarrow> Inl CH_ERROR_PARSE
         | Some t \<Rightarrow> config_load_rule t) [0..<ch_config_array_count rules]) (\<lambda>rule_specs.
     bind_result (load_all (\<lambda>i. subscription_rules load config selected (ch_config_array_get_table subscriptions i))
       [0..<ch_config_array_count subscriptions]) (\<lambda>generated.
       ch_rule_engine_compile (rule_specs @ concat generated) (Some (hd chain_names)) (map Some chain_names)
         (map Some group_names) set_specs)))))))"

section \<open>Explaining a route\<close>








section \<open>Lower case\<close>


lemma isdigit_tolower [simp]: "isdigit (tolower c) = isdigit c"
  by (auto simp: tolower_def isdigit_def isupper_def)














section \<open>What is valid compiles\<close>

















section \<open>What is valid loads\<close>

definition strings_of :: "toml_array option \<Rightarrow> ch_string_list" where
  "strings_of array = map (string_at array) [0..<nelem array]"

lemma strings_of_None [simp]: "strings_of None = []"
  by (simp add: strings_of_def nelem_def)













section \<open>Rule sets\<close>







section \<open>Rules\<close>








section \<open>Subscriptions\<close>


lemma string_key_exists: "toml_string_in t key = Some s \<Longrightarrow> toml_key_exists t key"
  unfolding toml_string_in_def toml_raw_in_def toml_key_exists_def list_ex_iff bind_eq_Some_conv
  by (metis fst_conv map_of_SomeD)

lemma string_or:
  "config_string_or t key fallback = (case toml_string_in t key of None \<Rightarrow> fallback | Some s \<Rightarrow> s)"
  using string_key_exists
  by (auto simp: config_string_or_def ch_config_table_has_def ch_config_table_get_string_def or_missing_def
      split: option.splits)





section \<open>A valid configuration\<close>










section \<open>Resolving a policy group\<close>












section \<open>A profile that validates\<close>

definition sample_entry :: "(string \<times> string) list \<Rightarrow> (string \<times> toml_item list) list \<Rightarrow> toml_table" where
  "sample_entry strings arrays =
     Toml_Table (map (\<lambda>(k, s). (k, quoted s)) strings) (map (\<lambda>(k, xs). (k, Toml_Array xs)) arrays) []"

definition sample_profile :: "string \<Rightarrow> toml_table" where
  "sample_profile action =
     sample_entry [(''name'', ''work'')]
       [(''chain'', [Item_Table (sample_entry [(''name'', ''tunnel'')]
           [(''server'', [Item_Table (sample_entry [(''protocol'', ''socks5'')] [])])])]),
        (''policy_group'', [Item_Table (sample_entry [(''name'', ''auto''), (''type'', ''select'')]
           [(''chains'', [Item_Raw (quoted ''tunnel'')])])]),
        (''rule'', [Item_Table (sample_entry [(''name'', ''lan''), (''action'', ''group:auto'')]
           [(''domains'', [Item_Raw (quoted ''nas.lan'')])])]),
        (''rule_subscription'', [Item_Table (sample_entry
           [(''name'', ''ads''), (''url'', ''https://lists.example/ads''), (''action'', action)] [])])]"

definition sample_config :: "string \<Rightarrow> ch_config" where
  "sample_config action =
     \<lparr>cf_root = Toml_Table [] [(''profile'', Toml_Array [Item_Table (sample_profile action)])] [],
      cf_source_path = Some ''/etc/c.toml'', cf_document = []\<rparr>"

definition sample_load :: cache_load where
  "sample_load path kind profile name url = Inr \<lparr>rf_domain_suffixes = [''ads.example''], rf_cidrs = []\<rparr>"

lemma sample_validates: "validate_config (cf_root (sample_config ''block''))" "validate_config (cf_root (sample_config []))"
  by code_simp+

lemma sample_selected: "config_select_profile (sample_config action) None = Inr (sample_profile action)"
  by (simp add: sample_config_def config_select_profile_def given_def ch_config_active_profile_def or_missing_def
      table_string_def toml_string_in_def toml_raw_in_def toml_array_in_def table_at_def toml_table_at_def
      nelem_def toml_array_nelem_def)



section \<open>Validated configurations\<close>






section \<open>An empty action\<close>

lemma empty_action_fails: "rs_action x = Some [] \<Longrightarrow> ch_compile_rule x kc kg sets \<noteq> Inr r"
  by (simp add: ch_compile_rule_def ch_parse_action_def ch_trimmed_copy_def ch_trimmed_lower_def trim_def lower_def
      strchr_def Let_def)

lemma compiled_rules_compile:
  "compile_rules xs kc kg sets e = Inr e' \<Longrightarrow> x \<in> set xs \<Longrightarrow> \<exists>r. ch_compile_rule x kc kg sets = Inr r"
  by (induction xs arbitrary: e) (auto simp: bind_result_Inr_iff)

lemma load_all_nth: "load_all f xs = Inr ys \<Longrightarrow> x \<in> set xs \<Longrightarrow> \<exists>y \<in> set ys. f x = Inr y"
  by (induction xs arbitrary: ys) (auto simp: bind_result_Inr_iff)

lemma empty_subscription_action:
  assumes "table_string t ''action'' = Some []" "\<not> config_optional_bool t ''disabled'' False"
    "load (cf_source_path config) CH_RULE_FEED_SUBSCRIPTION n (config_string_or t ''name'' []) (config_string_or t ''url'' []) = Inr feed"
    "rf_domain_suffixes feed \<noteq> []" "subscription_rules load config n (Some t) = Inr xs"
  shows "\<exists>x \<in> set xs. rs_action x = Some []"
  using assms
  by (auto simp: subscription_rules_def Let_def bind_result_Inr_iff config_load_subscription_rule_def string_or table_string_def)

text \<open>C35: A subscription whose action is the empty string, which validation accepts, takes the whole rule engine
  of the profile down as soon as its cached feed has a domain: \<^verbatim>\<open>config_load_subscription_rule\<close> falls back
  to \<^verbatim>\<open>block\<close> only when the key is absent, and no engine is compiled from an empty action.\<close>

theorem empty_action_disables_rules:
  assumes "config_select_profile config profile_name = Inr profile" and "toml_string_in profile ''name'' = Some n"
    and "i < nelem (toml_array_in profile ''rule_subscription'')"
    and "table_at (toml_array_in profile ''rule_subscription'') i = Some t"
    and "table_string t ''action'' = Some []" and "\<not> config_optional_bool t ''disabled'' False"
    and "load (cf_source_path config) CH_RULE_FEED_SUBSCRIPTION n (config_string_or t ''name'' [])
      (config_string_or t ''url'' []) = Inr feed"
    and "rf_domain_suffixes feed \<noteq> []"
  shows "\<exists>error. ch_rule_engine_compile_config load config profile_name = Inl error"
proof (rule ccontr)
  assume "\<nexists>error. ch_rule_engine_compile_config load config profile_name = Inl error"
  then obtain e where "ch_rule_engine_compile_config load config profile_name = Inr e"
    by (cases "ch_rule_engine_compile_config load config profile_name") auto
  then obtain rules generated default_chain kc kg sets where
    g: "load_all (\<lambda>i. subscription_rules load config n
        (ch_config_array_get_table (toml_array_in profile ''rule_subscription'') i))
      [0..<nelem (toml_array_in profile ''rule_subscription'')] = Inr generated"
    and c: "ch_rule_engine_compile (rules @ concat generated) default_chain kc kg sets = Inr e"
    using assms(1,2)
    by (auto simp: ch_rule_engine_compile_config_def bind_result_Inr_iff Let_def ch_config_table_get_array_def
        ch_config_table_get_string_def or_missing_def ch_config_array_count_def split: if_splits)
  obtain xs where xs: "xs \<in> set generated" "subscription_rules load config n (Some t) = Inr xs"
    using load_all_nth [OF g, of i] assms(3,4) by (auto simp: ch_config_array_get_table_def)
  then obtain x where x: "x \<in> set (rules @ concat generated)" "rs_action x = Some []"
    using empty_subscription_action [OF assms(5-6), where load = load and config = config and n = n, OF assms(7,8)] by auto
  have "\<exists>r. ch_compile_rule x kc kg sets = Inr r"
    using c compiled_rules_compile [OF _ x(1)] by (auto simp: ch_rule_engine_compile_def Let_def split: if_splits)
  then show False
    using empty_action_fails [OF x(2)] by blast
qed

theorem empty_action_disables_rules_witness:
  "validate_config (cf_root (sample_config [])) \<and>
   (\<exists>error. ch_rule_engine_compile_config sample_load (sample_config []) None = Inl error)"
proof -
  let ?t = "sample_entry [(''name'', ''ads''), (''url'', ''https://lists.example/ads''), (''action'', [])] []"
  have "toml_string_in (sample_profile []) ''name'' = Some ''work''" "0 < nelem (toml_array_in (sample_profile []) ''rule_subscription'')"
    "table_at (toml_array_in (sample_profile []) ''rule_subscription'') 0 = Some ?t"
    "table_string ?t ''action'' = Some []" "\<not> config_optional_bool ?t ''disabled'' False"
    by code_simp+
  from empty_action_disables_rules [OF sample_selected this, where load = sample_load] show ?thesis
    using sample_validates(2) by (simp add: sample_load_def)
qed

end
