(* ===== verification/Prompts.thy ===== *)
theory Prompts
  imports Config Interfaces "HOL-Library.Multiset"
begin

text \<open>
  Connection prompts, \<^verbatim>\<open>src/native/src/prompt.c\<close>: connections that ask the user are held until a prompt is resolved,
  cancelled or times out; connections with the same key share one prompt.  A call of
  \<^verbatim>\<open>ch_prompt_manager_await\<close> is split where the thread sleeps: \<open>await_begin\<close> runs up to the first wait, and
  \<open>await_wake\<close> is one pass of the loop after a wait returned.  Everything in between runs under the mutex of
  the manager, so an execution is a sequence of these steps and of the other operations.  Prompts are nodes
  with an address, since the waiting threads hold pointers to them.
\<close>

section \<open>Requests and snapshots\<close>

record ch_prompt_request =
  rq_conn_id :: "string option"
  rq_profile :: "string option"
  rq_network :: "string option"
  rq_target :: "string option"
  rq_target_host :: "string option"
  rq_target_port :: "string option"
  rq_process_pid :: int
  rq_process_name :: "string option"
  rq_process_path :: "string option"
  rq_code_sign_id :: "string option"
  rq_code_sign_status :: "string option"
  rq_would_use_chain :: "string option"
  rq_would_use_group :: "string option"
  rq_source :: "string option"

record ch_prompt_snapshot =
  sn_id :: string
  sn_conn_id :: string
  sn_profile :: string
  sn_network :: string
  sn_target :: string
  sn_target_host :: string
  sn_target_port :: string
  sn_process_pid :: int
  sn_process_name :: string
  sn_process_path :: string
  sn_code_sign_id :: string
  sn_code_sign_status :: string
  sn_would_use_chain :: string
  sn_would_use_group :: string
  sn_created_ns :: nat
  sn_expires_ns :: nat
  sn_waiters :: nat

record ch_prompt_action_options =
  po_id :: string
  po_scope :: string
  po_allow :: bool
  po_match_host :: bool
  po_match_port :: bool
  po_match_protocol :: bool
  po_ttl_seconds :: int

definition prompt_scopes :: "string list" where
  "prompt_scopes = [''once'', ''session'', ''until_quit'', ''forever'']"

definition ch_prompt_action_options_parse :: "string option \<Rightarrow> bool \<Rightarrow> ch_prompt_action_options result" where
  "ch_prompt_action_options_parse request_json require_action =
     (if request_json = None then Inl CH_ERROR_INVALID_ARGUMENT
      else
        bind_result (ch_json_parse request_json) (\<lambda>request.
          let ident = ch_json_string_value (ch_json_object_get (Some request) ''id'');
              scope = ch_json_string_value (ch_json_object_get (Some request) ''scope'');
              action = ch_json_string_value (ch_json_object_get (Some request) ''action'');
              scope = (if scope = None \<or> scope = Some [] then (if require_action then ''once'' else ''session'')
                       else or_empty scope);
              flag = (\<lambda>key. ch_json_bool_value (ch_json_object_get (Some request) key) False);
              ttl = dbl_value (ch_json_number_value (ch_json_object_get (Some request) ''ttl_seconds'') (Double False 0))
          in if or_empty ident = [] then Inl CH_ERROR_INVALID_ARGUMENT
             else if ttl < 0 \<or> 86400 < ttl \<or> ttl \<noteq> of_int \<lfloor>ttl\<rfloor> then Inl CH_ERROR_INVALID_ARGUMENT
             else if \<not> list_ex (strcaseeq scope) prompt_scopes then Inl CH_ERROR_INVALID_ARGUMENT
             else if require_action \<and> \<not> (action \<noteq> None \<and>
               (strcaseeq (or_empty action) ''allow'' \<or> strcaseeq (or_empty action) ''block''))
             then Inl CH_ERROR_INVALID_ARGUMENT
             else Inr \<lparr>po_id = or_empty ident, po_scope = scope,
               po_allow = (require_action \<and> strcaseeq (or_empty action) ''allow''),
               po_match_host = flag ''match_host'', po_match_port = flag ''match_port'',
               po_match_protocol = flag ''match_protocol'', po_ttl_seconds = \<lfloor>ttl\<rfloor>\<rparr>))"

text \<open>\<^verbatim>\<open>prompt_snapshot_from_request\<close>; the clock is past the epoch.\<close>

definition prompt_snapshot_from_request ::
  "ch_prompt_request \<Rightarrow> string \<Rightarrow> nat \<Rightarrow> nat \<Rightarrow> ch_prompt_snapshot" where
  "prompt_snapshot_from_request request ident now timeout_seconds =
     \<lparr>sn_id = ident, sn_conn_id = or_empty (rq_conn_id request), sn_profile = or_empty (rq_profile request),
      sn_network = or_empty (rq_network request), sn_target = or_empty (rq_target request),
      sn_target_host = or_empty (rq_target_host request), sn_target_port = or_empty (rq_target_port request),
      sn_process_pid = rq_process_pid request, sn_process_name = or_empty (rq_process_name request),
      sn_process_path = or_empty (rq_process_path request), sn_code_sign_id = or_empty (rq_code_sign_id request),
      sn_code_sign_status = or_empty (rq_code_sign_status request),
      sn_would_use_chain = or_empty (rq_would_use_chain request),
      sn_would_use_group = or_empty (rq_would_use_group request),
      sn_created_ns = now, sn_expires_ns = now + timeout_seconds * 1000000000, sn_waiters = 0\<rparr>"

definition prompt_key :: "ch_prompt_request \<Rightarrow> string" where
  "prompt_key request =
     (let process = (if given (rq_process_path request) then or_empty (rq_process_path request)
                     else if given (rq_process_name request) then or_empty (rq_process_name request)
                     else snprintf 64 (''pid:'' @ dec_int (rq_process_pid request) @ ''|source:'' @ or_empty (rq_source request)))
      in join_with (CHR ''|'') [or_empty (rq_profile request), process, or_empty (rq_network request),
           or_empty (rq_target_host request), or_empty (rq_target_port request)])"

section \<open>The manager\<close>

record prompt_pending =
  pp_ref :: nat
  pp_snapshot :: ch_prompt_snapshot
  pp_key :: string
  pp_resolved :: bool
  pp_allow :: bool

record prompt_silent =
  si_snapshot :: ch_prompt_snapshot
  si_allow :: bool

record ch_prompt_manager =
  pm_enabled :: bool
  pm_default_allow :: bool
  pm_timeout_seconds :: nat
  pm_silent_mode :: string
  pm_sequence :: nat
  pm_pending :: "prompt_pending list"
  pm_silent :: "prompt_silent list"
  pm_silent_count :: nat

definition ch_prompt_manager_create :: ch_prompt_manager where
  "ch_prompt_manager_create =
     \<lparr>pm_enabled = False, pm_default_allow = False, pm_timeout_seconds = 30, pm_silent_mode = [], pm_sequence = 0,
      pm_pending = [], pm_silent = [], pm_silent_count = 0\<rparr>"

definition prompt_resolve_all_locked :: "bool \<Rightarrow> ch_prompt_manager \<Rightarrow> ch_prompt_manager" where
  "prompt_resolve_all_locked allow m =
     m\<lparr>pm_pending := map (\<lambda>p. if pp_resolved p then p else p\<lparr>pp_resolved := True, pp_allow := allow\<rparr>) (pm_pending m)\<rparr>"

definition ch_prompt_manager_cancel_all :: "ch_prompt_manager \<Rightarrow> ch_prompt_manager" where
  "ch_prompt_manager_cancel_all m = prompt_resolve_all_locked False m"

text \<open>\<^verbatim>\<open>ch_prompt_manager_destroy\<close> up to its wait for the blocked threads, and the condition that ends the wait.\<close>

definition destroy_begin :: "ch_prompt_manager \<Rightarrow> ch_prompt_manager" where
  "destroy_begin m = prompt_resolve_all_locked False (m\<lparr>pm_enabled := False\<rparr>)"

definition destroy_waits :: "ch_prompt_manager \<Rightarrow> bool" where
  "destroy_waits m \<longleftrightarrow> list_ex (\<lambda>p. 0 < sn_waiters (pp_snapshot p)) (pm_pending m)"

text \<open>A field of the prompt section: its default when it is absent, else the reader's answer.\<close>

definition prompt_field ::
  "toml_table option \<Rightarrow> string \<Rightarrow> 'a \<Rightarrow> (toml_table option \<Rightarrow> string \<Rightarrow> 'a result) \<Rightarrow> 'a result" where
  "prompt_field prompt key default_value get =
     (if ch_config_table_has prompt key then get prompt key else Inr default_value)"

definition ch_prompt_manager_configure :: "ch_config option \<Rightarrow> ch_prompt_manager \<Rightarrow> ch_prompt_manager result" where
  "ch_prompt_manager_configure config m =
     (let prompt = Option.bind config (\<lambda>c. ch_config_table_get_table (Some (cf_root c)) ''prompt'') in
      bind_result (prompt_field prompt ''enabled'' False ch_config_table_get_bool) (\<lambda>enabled.
      bind_result (prompt_field prompt ''default_allow'' False ch_config_table_get_bool) (\<lambda>default_allow.
      bind_result (prompt_field prompt ''timeout_seconds'' 0 ch_config_table_get_int) (\<lambda>timeout.
      bind_result (prompt_field prompt ''silent_mode'' [] ch_config_table_get_string) (\<lambda>silent_mode.
        Inr ((prompt_resolve_all_locked False m)
          \<lparr>pm_enabled := enabled, pm_default_allow := default_allow,
           pm_timeout_seconds := (if 0 < timeout then nat (min timeout 3600) else 30),
           pm_silent_mode := snprintf 6 silent_mode\<rparr>))))))"

definition ch_prompt_manager_enabled :: "ch_prompt_manager option \<Rightarrow> bool" where
  "ch_prompt_manager_enabled m = (case m of None \<Rightarrow> False | Some m \<Rightarrow> pm_enabled m)"

definition prompt_pending_key :: "ch_prompt_manager \<Rightarrow> string \<Rightarrow> prompt_pending option" where
  "prompt_pending_key m key = find (\<lambda>p. \<not> pp_resolved p \<and> pp_key p = key) (pm_pending m)"

text \<open>\<^verbatim>\<open>++manager->sequence\<close> of a 64-bit counter.\<close>

definition next_sequence :: "ch_prompt_manager \<Rightarrow> nat" where
  "next_sequence m = (pm_sequence m + 1) mod 2 ^ 64"

definition prompt_record_silent_locked :: "nat \<Rightarrow> ch_prompt_request \<Rightarrow> bool \<Rightarrow> ch_prompt_manager \<Rightarrow> ch_prompt_manager" where
  "prompt_record_silent_locked now request allow m =
     (let ident = snprintf 64 (''silent-'' @ dec_nat (next_sequence m));
          snapshot = (prompt_snapshot_from_request request ident now 0)\<lparr>sn_expires_ns := 0\<rparr>;
          entries = \<lparr>si_snapshot = snapshot, si_allow = allow\<rparr> # pm_silent m;
          count = pm_silent_count m + 1;
          m = m\<lparr>pm_sequence := next_sequence m\<rparr>
      in if count \<le> 256 then m\<lparr>pm_silent := entries, pm_silent_count := count\<rparr>
         else m\<lparr>pm_silent := butlast entries, pm_silent_count := count - 1\<rparr>)"

section \<open>Waiting for a decision\<close>

text \<open>A thread has its answer, \<^verbatim>\<open>out_allow\<close> and \<^verbatim>\<open>out_gated\<close>, or sleeps on a prompt.\<close>

datatype await = Answered bool bool | Sleeping nat

definition add_waiter :: "nat \<Rightarrow> prompt_pending \<Rightarrow> prompt_pending" where
  "add_waiter ref p =
     (if pp_ref p = ref
      then p\<lparr>pp_snapshot := (pp_snapshot p)\<lparr>sn_waiters := sn_waiters (pp_snapshot p) + 1\<rparr>\<rparr> else p)"

text \<open>\<open>ref\<close> is the address that \<^verbatim>\<open>calloc\<close> gives a new prompt.\<close>

definition await_begin :: "nat \<Rightarrow> nat \<Rightarrow> ch_prompt_request \<Rightarrow> ch_prompt_manager \<Rightarrow> ch_prompt_manager \<times> await" where
  "await_begin ref now request m =
     (if \<not> pm_enabled m then (m, Answered False False)
      else if pm_silent_mode m \<noteq> [] then
        (let allow = (pm_silent_mode m = ''allow'') in
         (prompt_record_silent_locked now request allow m, Answered allow True))
      else
        (case prompt_pending_key m (prompt_key request) of
           Some p \<Rightarrow> (m\<lparr>pm_pending := map (add_waiter (pp_ref p)) (pm_pending m)\<rparr>, Sleeping (pp_ref p))
         | None \<Rightarrow>
             let ident = snprintf 64 (''prompt-'' @ dec_nat (next_sequence m));
                 snapshot = (prompt_snapshot_from_request request ident now (pm_timeout_seconds m))\<lparr>sn_waiters := 1\<rparr>;
                 p = \<lparr>pp_ref = ref, pp_snapshot = snapshot, pp_key = prompt_key request, pp_resolved = False,
                      pp_allow = False\<rparr>
             in (m\<lparr>pm_sequence := next_sequence m, pm_pending := p # pm_pending m\<rparr>, Sleeping ref)))"

text \<open>How \<^verbatim>\<open>pthread_cond_timedwait\<close> returns.\<close>

datatype wait_status = Wait_Woken | Wait_EINTR | Wait_ETIMEDOUT | Wait_Failed

definition prompt_woken :: "wait_status \<Rightarrow> bool \<Rightarrow> prompt_pending \<Rightarrow> prompt_pending" where
  "prompt_woken status default_allow p =
     (if status = Wait_ETIMEDOUT \<and> \<not> pp_resolved p then p\<lparr>pp_resolved := True, pp_allow := default_allow\<rparr>
      else if status \<noteq> Wait_Woken \<and> status \<noteq> Wait_EINTR then p\<lparr>pp_resolved := True, pp_allow := False\<rparr>
      else p)"

definition drop_waiter :: "prompt_pending \<Rightarrow> prompt_pending" where
  "drop_waiter p = p\<lparr>pp_snapshot := (pp_snapshot p)\<lparr>sn_waiters := sn_waiters (pp_snapshot p) - 1\<rparr>\<rparr>"

text \<open>One pass of the loop of a thread that sleeps on the prompt at \<open>ref\<close>.  \<^term>\<open>None\<close>: there is no such prompt any
  more, and the thread would read freed memory.\<close>

definition await_wake :: "nat \<Rightarrow> wait_status \<Rightarrow> ch_prompt_manager \<Rightarrow> (ch_prompt_manager \<times> await) option" where
  "await_wake ref status m =
     (case find (\<lambda>p. pp_ref p = ref) (pm_pending m) of
        None \<Rightarrow> None
      | Some p \<Rightarrow>
          let p = prompt_woken status (pm_default_allow m) p;
              put = (\<lambda>q. m\<lparr>pm_pending := map (\<lambda>x. if pp_ref x = ref then q else x) (pm_pending m)\<rparr>)
          in if \<not> pp_resolved p then Some (put p, Sleeping ref)
             else if sn_waiters (pp_snapshot (drop_waiter p)) = 0
             then Some (m\<lparr>pm_pending := filter (\<lambda>x. pp_ref x \<noteq> ref) (pm_pending m)\<rparr>, Answered (pp_allow p) True)
             else Some (put (drop_waiter p), Answered (pp_allow p) True))"

definition ch_prompt_manager_resolve ::
  "string \<Rightarrow> bool \<Rightarrow> ch_prompt_manager \<Rightarrow> (ch_prompt_manager \<times> ch_prompt_snapshot) result" where
  "ch_prompt_manager_resolve ident allow m =
     (if ident = [] then Inl CH_ERROR_INVALID_ARGUMENT
      else
        (case find (\<lambda>p. \<not> pp_resolved p \<and> sn_id (pp_snapshot p) = ident) (pm_pending m) of
           None \<Rightarrow> Inl CH_ERROR_NOT_FOUND
         | Some p \<Rightarrow>
             Inr (m\<lparr>pm_pending := map (\<lambda>x. if pp_ref x = pp_ref p then x\<lparr>pp_resolved := True, pp_allow := allow\<rparr> else x)
                    (pm_pending m)\<rparr>, pp_snapshot p)))"

definition ch_prompt_manager_silent_decision ::
  "string \<Rightarrow> ch_prompt_manager \<Rightarrow> (ch_prompt_snapshot \<times> bool) result" where
  "ch_prompt_manager_silent_decision ident m =
     (case find (\<lambda>s. sn_id (si_snapshot s) = ident) (pm_silent m) of
        None \<Rightarrow> Inl CH_ERROR_NOT_FOUND
      | Some s \<Rightarrow> Inr (si_snapshot s, si_allow s))"

section \<open>Documents\<close>

text \<open>\<^verbatim>\<open>gmtime_r\<close>: the date of a day counted from 1 January 1970.  Days are regrouped into cycles of 400 years that
  start in March.\<close>

definition gmtime_date :: "nat \<Rightarrow> nat \<times> nat \<times> nat" where
  "gmtime_date days =
     (let z = days + 719468;
          era = z div 146097;
          doe = z mod 146097;
          yoe = (doe - doe div 1460 + doe div 36524 - doe div 146096) div 365;
          doy = doe - (365 * yoe + yoe div 4 - yoe div 100);
          mp = (5 * doy + 2) div 153;
          mday = doy - (153 * mp + 2) div 5 + 1;
          mon = (if mp < 10 then mp + 3 else mp - 9)
      in (yoe + era * 400 + (if mon \<le> 2 then 1 else 0), mon, mday))"

definition dec_pad :: "nat \<Rightarrow> nat \<Rightarrow> string" where
  "dec_pad width n = replicate (width - length (dec_nat n)) (CHR ''0'') @ dec_nat n"

definition prompt_append_time :: "nat \<Rightarrow> string" where
  "prompt_append_time timestamp_ns =
     (let seconds = timestamp_ns div 1000000000;
          nanoseconds = timestamp_ns mod 1000000000;
          (year, mon, mday) = gmtime_date (seconds div 86400);
          rest = seconds mod 86400
      in string_text (dec_pad 4 year @ ''-'' @ dec_pad 2 mon @ ''-'' @ dec_pad 2 mday @ ''T'' @
           dec_pad 2 (rest div 3600) @ '':'' @ dec_pad 2 (rest mod 3600 div 60) @ '':'' @ dec_pad 2 (rest mod 60) @
           ''.'' @ dec_pad 9 nanoseconds @ ''Z''))"

definition prompt_append_snapshot :: "ch_prompt_snapshot \<Rightarrow> string" where
  "prompt_append_snapshot s =
     ''{'' @ json_key ''id'' @ string_text (sn_id s) @
     '','' @ json_key ''conn_id'' @ string_text (sn_conn_id s) @
     '','' @ json_key ''profile'' @ string_text (sn_profile s) @
     '','' @ json_key ''network'' @ string_text (sn_network s) @
     '','' @ json_key ''target'' @ string_text (sn_target s) @
     '','' @ json_key ''target_host'' @ string_text (sn_target_host s) @
     '','' @ json_key ''target_port'' @ string_text (sn_target_port s) @
     '','' @ json_key ''pid'' @ dec_int (sn_process_pid s) @
     '','' @ json_key ''process_name'' @ string_text (sn_process_name s) @
     '','' @ json_key ''process_path'' @ string_text (sn_process_path s) @
     '','' @ json_key ''created_at'' @ prompt_append_time (sn_created_ns s) @
     '','' @ json_key ''expires_at'' @ prompt_append_time (sn_expires_ns s) @
     '','' @ json_key ''waiters'' @ dec_nat (sn_waiters s) @
     '','' @ json_key ''would_use_chain'' @ string_text (sn_would_use_chain s) @
     '','' @ json_key ''would_use_group'' @ string_text (sn_would_use_group s) @
     '','' @ json_key ''code_sign_id'' @ string_text (sn_code_sign_id s) @
     '','' @ json_key ''code_sign_status'' @ string_text (sn_code_sign_status s) @ ''}''"

definition ch_prompt_manager_pending_json :: "ch_prompt_manager option \<Rightarrow> string" where
  "ch_prompt_manager_pending_json m =
     ''{'' @ json_key ''prompts'' @ ''['' @
     (case m of
        None \<Rightarrow> []
      | Some m \<Rightarrow> join_with (CHR '','')
          (map (\<lambda>p. prompt_append_snapshot (pp_snapshot p)) (filter (\<lambda>p. \<not> pp_resolved p) (pm_pending m)))) @ '']}''"

definition silent_entry :: "prompt_silent \<Rightarrow> string" where
  "silent_entry silent =
     (let s = si_snapshot silent in
      ''{'' @ json_key ''id'' @ string_text (sn_id s) @
      '','' @ json_key ''profile'' @ string_text (sn_profile s) @
      '','' @ json_key ''network'' @ string_text (sn_network s) @
      '','' @ json_key ''target'' @ string_text (sn_target s) @
      '','' @ json_key ''target_host'' @ string_text (sn_target_host s) @
      '','' @ json_key ''target_port'' @ string_text (sn_target_port s) @
      '','' @ json_key ''pid'' @ dec_int (sn_process_pid s) @
      '','' @ json_key ''process_name'' @ string_text (sn_process_name s) @
      '','' @ json_key ''process_path'' @ string_text (sn_process_path s) @
      '','' @ json_key ''code_sign_id'' @ string_text (sn_code_sign_id s) @
      '','' @ json_key ''action'' @ string_text (if si_allow silent then ''allow'' else ''deny'') @
      '','' @ json_key ''ts_ns'' @ dec_nat (sn_created_ns s) @ ''}'')"

definition ch_prompt_manager_silent_json :: "ch_prompt_manager option \<Rightarrow> string" where
  "ch_prompt_manager_silent_json m =
     ''{'' @ json_key ''decisions'' @ ''['' @
     (case m of None \<Rightarrow> [] | Some m \<Rightarrow> join_with (CHR '','') (map silent_entry (pm_silent m))) @ '']}''"

text \<open>The rule that remembers an answer.\<close>

definition remembered_action :: "ch_config \<Rightarrow> string \<Rightarrow> bool \<Rightarrow> string" where
  "remembered_action config profile allow =
     (if \<not> allow then ''block''
      else
        let chains = ch_config_table_get_array (ch_config_profile_named config (Some profile)) ''chain'';
            first = ch_config_array_get_table chains 0
        in case (if first = None then Inl CH_ERROR_NOT_FOUND else ch_config_table_get_string first ''name'') of
             Inl _ \<Rightarrow> ''direct''
           | Inr name \<Rightarrow> ''chain:'' @ name)"

definition ch_prompt_rule_request_json ::
  "ch_prompt_snapshot \<Rightarrow> ch_config \<Rightarrow> bool \<Rightarrow> bool \<Rightarrow> bool \<Rightarrow> bool \<Rightarrow> string result" where
  "ch_prompt_rule_request_json s config allow with_host with_port with_protocol =
     (let process = (if sn_process_path s \<noteq> [] then sn_process_path s else sn_process_name s) in
      if process = [] then Inl CH_ERROR_INVALID_ARGUMENT
      else
        let label = (if sn_process_name s \<noteq> [] then sn_process_name s else process);
            host = with_host \<and> sn_target_host s \<noteq> [];
            rule_name = ''prompt '' @ (if allow then ''allow'' else ''block'') @ '' '' @ label @
              (if host then '' '' @ sn_target_host s else [])
        in Inr (''{'' @ json_key ''profile'' @ string_text (sn_profile s) @
             '','' @ json_key ''rule'' @ ''{'' @ json_key ''name'' @ string_text rule_name @
             '','' @ json_key ''action'' @ string_text (remembered_action config (sn_profile s) allow) @
             '','' @ json_key ''processes'' @ ''['' @ string_text process @ '']'' @
             (if host then '','' @ json_key ''domains'' @ ''['' @ string_text (sn_target_host s) @ '']'' else []) @
             (if with_port \<and> sn_target_port s \<noteq> [] then
                (case strtol_full (sn_target_port s) of
                   None \<Rightarrow> []
                 | Some port \<Rightarrow>
                     if 0 < port \<and> port \<le> 65535 then '','' @ json_key ''ports'' @ ''['' @ dec_int port @ '']'' else [])
              else []) @
             (if with_protocol \<and> sn_network s \<noteq> []
              then '','' @ json_key ''networks'' @ ''['' @ string_text (sn_network s) @ '']'' else []) @
             ''},'' @ json_key ''position'' @ string_text (if allow then ''append'' else ''prepend'') @ ''}''))"

section \<open>Executions\<close>

text \<open>The manager together with the threads that sleep on its prompts, after \<open>n\<close> calls of
  \<^verbatim>\<open>ch_prompt_manager_await\<close>.  A new prompt is allocated at an address that no live prompt has.\<close>

definition still_asleep :: "await \<Rightarrow> nat multiset" where
  "still_asleep a = (case a of Answered allow gated \<Rightarrow> {#} | Sleeping ref \<Rightarrow> {#ref#})"

inductive prompt_reach :: "nat \<Rightarrow> ch_prompt_manager \<Rightarrow> nat multiset \<Rightarrow> bool" where
  create: "prompt_reach 0 ch_prompt_manager_create {#}"
| configure: "prompt_reach n m w \<Longrightarrow> ch_prompt_manager_configure config m = Inr m' \<Longrightarrow> prompt_reach n m' w"
| cancel: "prompt_reach n m w \<Longrightarrow> prompt_reach n (ch_prompt_manager_cancel_all m) w"
| destroy: "prompt_reach n m w \<Longrightarrow> prompt_reach n (destroy_begin m) w"
| await: "prompt_reach n m w \<Longrightarrow> ref \<notin> pp_ref ` set (pm_pending m) \<Longrightarrow>
    await_begin ref now request m = (m', a) \<Longrightarrow> prompt_reach (Suc n) m' (w + still_asleep a)"
| wake: "prompt_reach n m w \<Longrightarrow> ref \<in># w \<Longrightarrow> await_wake ref status m = Some (m', a) \<Longrightarrow>
    prompt_reach n m' (w - {#ref#} + still_asleep a)"
| resolve: "prompt_reach n m w \<Longrightarrow> ch_prompt_manager_resolve ident allow m = Inr (m', s) \<Longrightarrow> prompt_reach n m' w"

definition pending_ok :: "nat multiset \<Rightarrow> prompt_pending list \<Rightarrow> bool" where
  "pending_ok w ps \<longleftrightarrow>
     distinct (map pp_ref ps) \<and> set_mset w = pp_ref ` set ps \<and>
     (\<forall>p \<in> set ps. sn_waiters (pp_snapshot p) = count w (pp_ref p)) \<and>
     distinct (map pp_key (filter (\<lambda>p. \<not> pp_resolved p) ps))"

definition prompt_ids :: "prompt_pending list \<Rightarrow> string list" where
  "prompt_ids ps = map (\<lambda>p. sn_id (pp_snapshot p)) ps"

text \<open>Identifiers that were drawn from the sequence.\<close>

definition drawn :: "string \<Rightarrow> nat \<Rightarrow> string list \<Rightarrow> bool" where
  "drawn tag n xs \<longleftrightarrow> distinct xs \<and> (\<forall>x \<in> set xs. \<exists>k \<le> n. x = snprintf 64 (tag @ dec_nat k))"

definition prompt_inv :: "nat \<Rightarrow> ch_prompt_manager \<Rightarrow> nat multiset \<Rightarrow> bool" where
  "prompt_inv n m w \<longleftrightarrow>
     pending_ok w (pm_pending m) \<and> length (pm_silent m) = pm_silent_count m \<and> pm_silent_count m \<le> 256 \<and>
     pm_sequence m \<le> n \<and>
     (n < 2 ^ 64 \<longrightarrow> drawn ''prompt-'' (pm_sequence m) (prompt_ids (pm_pending m)) \<and>
        drawn ''silent-'' (pm_sequence m) (map (\<lambda>s. sn_id (si_snapshot s)) (pm_silent m)))"

subsection \<open>Identifiers\<close>

lemma drawn_inject:
  assumes "k < 2 ^ 64" "l < 2 ^ 64" "length tag \<le> 40" "snprintf 64 (tag @ dec_nat k) = snprintf 64 (tag @ dec_nat l)"
  shows "k = l"
proof -
  have "length (dec_nat k) \<le> 20" "length (dec_nat l) \<le> 20"
    using dec_nat_length [of k 19] dec_nat_length [of l 19] assms(1,2) by simp_all
  then have "dec_nat k = dec_nat l"
    using assms(3,4) by (simp add: snprintf_def)
  then show ?thesis
    by (simp only: dec_nat_inj)
qed

lemma drawn_mono: "drawn tag n xs \<Longrightarrow> n \<le> k \<Longrightarrow> drawn tag k xs"
  unfolding drawn_def by (meson le_trans)

lemma drawn_Cons:
  assumes "drawn tag n xs" "Suc n < 2 ^ 64" "length tag \<le> 40"
  shows "drawn tag (Suc n) (snprintf 64 (tag @ dec_nat (Suc n)) # xs)"
proof -
  have "snprintf 64 (tag @ dec_nat (Suc n)) \<notin> set xs"
  proof
    assume "snprintf 64 (tag @ dec_nat (Suc n)) \<in> set xs"
    then obtain k where "k \<le> n" "snprintf 64 (tag @ dec_nat (Suc n)) = snprintf 64 (tag @ dec_nat k)"
      using assms(1) unfolding drawn_def by blast
    then show False
      using drawn_inject [OF assms(2) _ assms(3), of k] assms(2) by simp
  qed
  then show ?thesis
    using drawn_mono [OF assms(1), of "Suc n"] unfolding drawn_def by auto
qed

lemma drawn_subset: "drawn tag n xs \<Longrightarrow> distinct ys \<Longrightarrow> set ys \<subseteq> set xs \<Longrightarrow> drawn tag n ys"
  unfolding drawn_def by blast

subsection \<open>Pending prompts\<close>

text \<open>A change of the decisions only: prompts stay resolved.\<close>

definition decides :: "(prompt_pending \<Rightarrow> prompt_pending) \<Rightarrow> bool" where
  "decides f \<longleftrightarrow>
     (\<forall>p. pp_ref (f p) = pp_ref p \<and> pp_snapshot (f p) = pp_snapshot p \<and> pp_key (f p) = pp_key p \<and>
        (pp_resolved p \<longrightarrow> pp_resolved (f p)))"

lemma unresolved_keys:
  assumes "\<forall>p \<in> set ps. pp_key (f p) = pp_key p \<and> (pp_resolved p \<longrightarrow> pp_resolved (f p))"
    and "distinct (map pp_key (filter (\<lambda>p. \<not> pp_resolved p) ps))"
  shows "distinct (map pp_key (filter (\<lambda>p. \<not> pp_resolved p) (map f ps)))"
  using assms
proof (induction ps)
  case (Cons p ps)
  have "pp_key x \<in> pp_key ` {x \<in> set ps. \<not> pp_resolved x}" if "x \<in> set (map f ps)" "\<not> pp_resolved x" for x
    using that Cons.prems(1) by auto
  then show ?case
    using Cons by (auto split: if_splits)
qed simp

lemma pending_ok_decides:
  assumes "decides f" "pending_ok w ps"
  shows "pending_ok w (map f ps) \<and> prompt_ids (map f ps) = prompt_ids ps"
  using assms unresolved_keys [of ps f]
  by (auto simp: decides_def pending_ok_def prompt_ids_def o_def image_image)

lemma pending_ok_new:
  assumes "pending_ok w ps" "ref \<notin> pp_ref ` set ps"
    "\<forall>p \<in> set ps. \<not> (\<not> pp_resolved p \<and> pp_key p = pp_key q)" "pp_ref q = ref" "sn_waiters (pp_snapshot q) = 1"
  shows "pending_ok (w + {#ref#}) (q # ps)"
proof -
  have "count w ref = 0"
    using assms(1,2) by (metis count_eq_zero_iff pending_ok_def)
  then show ?thesis
    using assms unfolding pending_ok_def by (auto simp: image_iff)
qed

lemma pending_ok_join:
  assumes "pending_ok w ps" "p \<in> set ps"
  shows "pending_ok (w + {#pp_ref p#}) (map (add_waiter (pp_ref p)) ps) \<and>
    prompt_ids (map (add_waiter (pp_ref p)) ps) = prompt_ids ps"
proof -
  have f: "pp_ref (add_waiter r x) = pp_ref x" "pp_key (add_waiter r x) = pp_key x" "pp_resolved (add_waiter r x) = pp_resolved x"
    "sn_id (pp_snapshot (add_waiter r x)) = sn_id (pp_snapshot x)"
    "sn_waiters (pp_snapshot (add_waiter r x)) = sn_waiters (pp_snapshot x) + (if pp_ref x = r then 1 else 0)" for r x
    by (simp_all add: add_waiter_def)
  have "distinct (map pp_key (filter (\<lambda>p. \<not> pp_resolved p) (map (add_waiter (pp_ref p)) ps)))"
    using assms(1) by (intro unresolved_keys) (simp_all add: f pending_ok_def)
  then show ?thesis
    using assms by (auto simp: pending_ok_def prompt_ids_def o_def f image_image)
qed

lemma pending_ok_leave:
  assumes "pending_ok w ps" "p \<in> set ps" "pp_ref q = pp_ref p" "pp_key q = pp_key p" "pp_resolved q"
    "sn_waiters (pp_snapshot q) = sn_waiters (pp_snapshot p) - 1" "sn_waiters (pp_snapshot q) \<noteq> 0"
    "sn_id (pp_snapshot q) = sn_id (pp_snapshot p)"
  shows "pending_ok (w - {#pp_ref p#}) (map (\<lambda>x. if pp_ref x = pp_ref p then q else x) ps) \<and>
    prompt_ids (map (\<lambda>x. if pp_ref x = pp_ref p then q else x) ps) = prompt_ids ps"
proof -
  define qs where "qs = map (\<lambda>x. if pp_ref x = pp_ref p then q else x) ps"
  have same: "x = p" if "x \<in> set ps" "pp_ref x = pp_ref p" for x
    using assms(1,2) that unfolding pending_ok_def distinct_map inj_on_def by blast
  have n: "count w (pp_ref p) = sn_waiters (pp_snapshot p)"
    using assms(1,2) by (simp add: pending_ok_def)
  have sets: "set_mset (w - {#pp_ref p#}) = set_mset w"
    using assms(6,7) n by (intro set_eqI) (auto simp flip: count_greater_zero_iff)
  have keys: "distinct (map pp_key (filter (\<lambda>p. \<not> pp_resolved p) qs))"
    using assms(1) unfolding qs_def by (intro unresolved_keys) (auto simp: pending_ok_def assms(4,5) dest: same)
  have refs: "map pp_ref qs = map pp_ref ps"
    by (simp add: qs_def assms(3))
  have ids: "prompt_ids qs = prompt_ids ps"
    by (auto simp: qs_def prompt_ids_def assms(8) dest: same)
  have "\<forall>x \<in> set qs. sn_waiters (pp_snapshot x) = count (w - {#pp_ref p#}) (pp_ref x)"
    using assms(1,3,6) n by (auto simp: qs_def pending_ok_def)
  moreover have "pp_ref ` set qs = pp_ref ` set ps"
    using arg_cong [OF refs, of set] by (simp only: set_map)
  ultimately show ?thesis
    using assms(1) sets keys refs ids unfolding pending_ok_def qs_def [symmetric] by simp
qed

lemma pending_ok_remove:
  assumes "pending_ok w ps" "p \<in> set ps" "sn_waiters (pp_snapshot p) \<le> 1"
  shows "pending_ok (w - {#pp_ref p#}) (filter (\<lambda>x. pp_ref x \<noteq> pp_ref p) ps)"
proof -
  have n: "count w (pp_ref p) = 1"
  proof -
    have "0 < count w (pp_ref p)" "count w (pp_ref p) \<le> 1"
      using assms unfolding pending_ok_def by (metis count_greater_zero_iff image_eqI, simp)
    then show ?thesis by linarith
  qed
  have "set_mset (w - {#pp_ref p#}) = set_mset w - {pp_ref p}"
    using n by (intro set_eqI) (auto simp flip: count_greater_zero_iff)
  moreover have "distinct (map pp_key (filter (\<lambda>p. \<not> pp_resolved p) (filter (\<lambda>x. pp_ref x \<noteq> pp_ref p) ps)))"
    using assms(1) distinct_map_filter [of pp_key "filter (\<lambda>p. \<not> pp_resolved p) ps" "\<lambda>x. pp_ref x \<noteq> pp_ref p"]
    unfolding pending_ok_def filter_filter by (simp add: conj_commute)
  ultimately show ?thesis
    using assms(1) unfolding pending_ok_def by (auto simp: distinct_map_filter)
qed


subsection \<open>Steps of an execution\<close>

lemma prompt_inv_pending:
  assumes "prompt_inv n m w" "pending_ok w' ps" "distinct (prompt_ids (pm_pending m)) \<longrightarrow> distinct (prompt_ids ps)"
    "set (prompt_ids ps) \<subseteq> set (prompt_ids (pm_pending m))"
  shows "prompt_inv n (m\<lparr>pm_pending := ps\<rparr>) w'"
  using assms by (auto simp: prompt_inv_def drawn_def)

lemma prompt_inv_decides:
  assumes "prompt_inv n m w" "decides f"
  shows "prompt_inv n (m\<lparr>pm_pending := map f (pm_pending m)\<rparr>) w"
  using pending_ok_decides [OF assms(2)] assms(1) by (intro prompt_inv_pending [OF assms(1)]) (auto simp: prompt_inv_def)

lemma prompt_inv_resolve_all: "prompt_inv n m w \<Longrightarrow> prompt_inv n (prompt_resolve_all_locked allow m) w"
  unfolding prompt_resolve_all_locked_def by (rule prompt_inv_decides) (simp_all add: decides_def)

lemma prompt_inv_settings:
  "prompt_inv n (m\<lparr>pm_enabled := a, pm_default_allow := b, pm_timeout_seconds := c, pm_silent_mode := d\<rparr>) w = prompt_inv n m w"
  "prompt_inv n (m\<lparr>pm_enabled := a\<rparr>) w = prompt_inv n m w"
  by (simp_all add: prompt_inv_def)

lemma prompt_inv_configure:
  "prompt_inv n m w \<Longrightarrow> ch_prompt_manager_configure config m = Inr m' \<Longrightarrow> prompt_inv n m' w"
  by (auto simp: ch_prompt_manager_configure_def Let_def bind_result_Inr_iff prompt_inv_settings prompt_inv_resolve_all)

lemma sequence_step:
  assumes "prompt_inv n m w"
  shows "next_sequence m \<le> Suc n" "Suc n < 2 ^ 64 \<Longrightarrow> next_sequence m = Suc (pm_sequence m)"
proof -
  have "pm_sequence m \<le> n"
    using assms by (simp add: prompt_inv_def)
  then show "next_sequence m \<le> Suc n"
    using mod_less_eq_dividend [of "pm_sequence m + 1" "2 ^ 64"] unfolding next_sequence_def by linarith
  show "next_sequence m = Suc (pm_sequence m)" if "Suc n < 2 ^ 64"
    using that \<open>pm_sequence m \<le> n\<close> unfolding next_sequence_def by (subst mod_less) simp_all
qed

lemma silent_ids:
  "map (\<lambda>s. sn_id (si_snapshot s)) (pm_silent (prompt_record_silent_locked now request allow m)) =
   (let ids = snprintf 64 (''silent-'' @ dec_nat (next_sequence m)) # map (\<lambda>s. sn_id (si_snapshot s)) (pm_silent m)
    in if pm_silent_count m + 1 \<le> 256 then ids else butlast ids)"
  by (simp add: prompt_record_silent_locked_def prompt_snapshot_from_request_def Let_def map_butlast)

lemma prompt_inv_silent:
  assumes "prompt_inv n m w"
  shows "prompt_inv (Suc n) (prompt_record_silent_locked now request allow m) w"
proof -
  let ?m = "prompt_record_silent_locked now request allow m"
  have same: "pm_pending ?m = pm_pending m" "pm_sequence ?m = next_sequence m"
    by (simp_all add: prompt_record_silent_locked_def Let_def)
  have "length (pm_silent ?m) = pm_silent_count ?m \<and> pm_silent_count ?m \<le> 256"
    using assms by (auto simp: prompt_inv_def prompt_record_silent_locked_def Let_def)
  moreover have "drawn ''silent-'' (next_sequence m) (map (\<lambda>s. sn_id (si_snapshot s)) (pm_silent ?m))"
    and "drawn ''prompt-'' (next_sequence m) (prompt_ids (pm_pending m))" if "Suc n < 2 ^ 64"
  proof -
    have d: "drawn ''silent-'' (pm_sequence m) (map (\<lambda>s. sn_id (si_snapshot s)) (pm_silent m))"
      "drawn ''prompt-'' (pm_sequence m) (prompt_ids (pm_pending m))" "pm_sequence m \<le> n"
      using assms that by (simp_all add: prompt_inv_def)
    note sequence = sequence_step(2) [OF assms that]
    show "drawn ''prompt-'' (next_sequence m) (prompt_ids (pm_pending m))"
      using drawn_mono [OF d(2)] by (simp add: sequence)
    have "drawn ''silent-'' (next_sequence m)
        (snprintf 64 (''silent-'' @ dec_nat (next_sequence m)) # map (\<lambda>s. sn_id (si_snapshot s)) (pm_silent m))"
      unfolding sequence using d(1,3) that by (intro drawn_Cons) simp_all
    moreover from this have "drawn ''silent-'' (next_sequence m)
        (butlast (snprintf 64 (''silent-'' @ dec_nat (next_sequence m)) # map (\<lambda>s. sn_id (si_snapshot s)) (pm_silent m)))"
      by (rule drawn_subset) (use calculation in \<open>auto simp only: drawn_def intro: distinct_butlast dest: in_set_butlastD\<close>)
    ultimately show "drawn ''silent-'' (next_sequence m) (map (\<lambda>s. sn_id (si_snapshot s)) (pm_silent ?m))"
      unfolding silent_ids Let_def by (simp only: split: if_split) simp
  qed
  ultimately show ?thesis
    using assms sequence_step(1) [OF assms] unfolding prompt_inv_def same by blast
qed

lemma prompt_inv_new:
  assumes "prompt_inv n m w" "ref \<notin> pp_ref ` set (pm_pending m)" "prompt_pending_key m (pp_key q) = None" "pp_ref q = ref"
    "sn_waiters (pp_snapshot q) = 1" "sn_id (pp_snapshot q) = snprintf 64 (''prompt-'' @ dec_nat (next_sequence m))"
  shows "prompt_inv (Suc n) (m\<lparr>pm_sequence := next_sequence m, pm_pending := q # pm_pending m\<rparr>) (w + {#ref#})"
proof -
  have "pending_ok (w + {#ref#}) (q # pm_pending m)"
    using assms by (intro pending_ok_new) (auto simp: prompt_inv_def prompt_pending_key_def find_None_iff)
  moreover have "drawn ''prompt-'' (next_sequence m) (prompt_ids (q # pm_pending m))"
    and "drawn ''silent-'' (next_sequence m) (map (\<lambda>s. sn_id (si_snapshot s)) (pm_silent m))" if "Suc n < 2 ^ 64"
  proof -
    have d: "drawn ''silent-'' (pm_sequence m) (map (\<lambda>s. sn_id (si_snapshot s)) (pm_silent m))"
      "drawn ''prompt-'' (pm_sequence m) (prompt_ids (pm_pending m))" "pm_sequence m \<le> n"
      using assms(1) that by (simp_all add: prompt_inv_def)
    note sequence = sequence_step(2) [OF assms(1) that]
    show "drawn ''silent-'' (next_sequence m) (map (\<lambda>s. sn_id (si_snapshot s)) (pm_silent m))"
      using drawn_mono [OF d(1)] by (simp add: sequence)
    have "prompt_ids (q # pm_pending m) = snprintf 64 (''prompt-'' @ dec_nat (next_sequence m)) # prompt_ids (pm_pending m)"
      by (simp add: prompt_ids_def assms(6))
    then show "drawn ''prompt-'' (next_sequence m) (prompt_ids (q # pm_pending m))"
      unfolding sequence using d(2,3) that by (simp only:) (intro drawn_Cons, simp_all)
  qed
  ultimately show ?thesis
    using assms(1) sequence_step(1) [OF assms(1)] unfolding prompt_inv_def by simp
qed

lemma prompt_inv_Suc: "prompt_inv n m w \<Longrightarrow> prompt_inv (Suc n) m w"
  by (auto simp: prompt_inv_def)

lemma prompt_inv_await:
  assumes "prompt_inv n m w" "ref \<notin> pp_ref ` set (pm_pending m)" "await_begin ref now request m = (m', a)"
  shows "prompt_inv (Suc n) m' (w + still_asleep a)"
proof (cases "pm_enabled m \<and> pm_silent_mode m = []")
  case False
  then show ?thesis
    using assms prompt_inv_silent [OF assms(1)] prompt_inv_Suc
    by (auto simp: await_begin_def still_asleep_def Let_def split: if_splits)
next
  case True
  show ?thesis
  proof (cases "prompt_pending_key m (prompt_key request)")
    case None
    show ?thesis
      using assms(3) True None prompt_inv_new [OF assms(1,2), of "\<lparr>pp_ref = ref, pp_snapshot =
        (prompt_snapshot_from_request request (snprintf 64 (''prompt-'' @ dec_nat (next_sequence m))) now (pm_timeout_seconds m))
          \<lparr>sn_waiters := 1\<rparr>, pp_key = prompt_key request, pp_resolved = False, pp_allow = False\<rparr>"]
      by (auto simp: await_begin_def still_asleep_def Let_def prompt_snapshot_from_request_def)
  next
    case (Some p)
    then have "p \<in> set (pm_pending m)"
      by (auto simp: prompt_pending_key_def dest: find_SomeD)
    then have "prompt_inv n (m\<lparr>pm_pending := map (add_waiter (pp_ref p)) (pm_pending m)\<rparr>) (w + {#pp_ref p#})"
      using pending_ok_join [of w "pm_pending m" p] assms(1)
      by (intro prompt_inv_pending [OF assms(1)]) (auto simp: prompt_inv_def)
    then show ?thesis
      using assms(3) True Some prompt_inv_Suc by (auto simp: await_begin_def still_asleep_def)
  qed
qed

lemma woken_same [simp]:
  "pp_ref (prompt_woken status d p) = pp_ref p" "pp_key (prompt_woken status d p) = pp_key p"
  "pp_snapshot (prompt_woken status d p) = pp_snapshot p"
  by (simp_all add: prompt_woken_def)

lemma woken_asleep: "\<not> pp_resolved (prompt_woken status d p) \<Longrightarrow> prompt_woken status d p = p"
  by (auto simp: prompt_woken_def split: if_splits)

lemma found_prompt:
  assumes "pending_ok w ps" "find (\<lambda>p. pp_ref p = ref) ps = Some p"
  shows "p \<in> set ps" "pp_ref p = ref" "map (\<lambda>x. if pp_ref x = ref then p else x) ps = ps"
proof -
  show p: "p \<in> set ps" "pp_ref p = ref"
    using find_SomeD [OF assms(2)] by auto
  have "x = p" if "x \<in> set ps" "pp_ref x = ref" for x
    using assms(1) p that unfolding pending_ok_def distinct_map inj_on_def by blast
  then show "map (\<lambda>x. if pp_ref x = ref then p else x) ps = ps"
    by (auto intro!: map_idI)
qed

lemma prompt_inv_wake:
  assumes "prompt_inv n m w" "ref \<in># w" "await_wake ref status m = Some (m', a)"
  shows "prompt_inv n m' (w - {#ref#} + still_asleep a)"
proof -
  have ok: "pending_ok w (pm_pending m)"
    using assms(1) by (simp add: prompt_inv_def)
  obtain p where p: "find (\<lambda>p. pp_ref p = ref) (pm_pending m) = Some p"
    using assms(3) by (auto simp: await_wake_def split: option.splits)
  note found = found_prompt [OF ok p]
  define q where "q = prompt_woken status (pm_default_allow m) p"
  show ?thesis
  proof (cases "pp_resolved q")
    case False
    then have "q = p"
      unfolding q_def by (rule woken_asleep)
    then show ?thesis
      using assms False p found(3) by (auto simp: await_wake_def q_def [symmetric] still_asleep_def)
  next
    case True
    show ?thesis
    proof (cases "sn_waiters (pp_snapshot p) - 1 = 0")
      case gone: True
      then have "prompt_inv n (m\<lparr>pm_pending := filter (\<lambda>x. pp_ref x \<noteq> ref) (pm_pending m)\<rparr>) (w - {#ref#})"
        using pending_ok_remove [OF ok found(1)] found(2)
        by (intro prompt_inv_pending [OF assms(1)]) (auto simp: prompt_ids_def distinct_map_filter)
      then show ?thesis
        using assms(3) p True gone by (auto simp: await_wake_def Let_def q_def still_asleep_def drop_waiter_def)
    next
      case left: False
      have "pending_ok (w - {#pp_ref p#}) (map (\<lambda>x. if pp_ref x = pp_ref p then drop_waiter q else x) (pm_pending m)) \<and>
          prompt_ids (map (\<lambda>x. if pp_ref x = pp_ref p then drop_waiter q else x) (pm_pending m)) = prompt_ids (pm_pending m)"
        using left True by (intro pending_ok_leave [OF ok found(1)]) (simp_all add: drop_waiter_def q_def)
      then have "prompt_inv n (m\<lparr>pm_pending := map (\<lambda>x. if pp_ref x = ref then drop_waiter q else x) (pm_pending m)\<rparr>) (w - {#ref#})"
        unfolding found(2) by (intro prompt_inv_pending [OF assms(1)]) auto
      moreover have "sn_waiters (pp_snapshot (drop_waiter q)) \<noteq> 0"
        using left by (simp add: drop_waiter_def q_def)
      ultimately show ?thesis
        using assms(3) p True by (auto simp: await_wake_def Let_def q_def [symmetric] still_asleep_def)
    qed
  qed
qed

lemma resolve_cases:
  assumes "ch_prompt_manager_resolve ident allow m = Inr (m', s)"
  obtains p where "find (\<lambda>p. \<not> pp_resolved p \<and> sn_id (pp_snapshot p) = ident) (pm_pending m) = Some p" "s = pp_snapshot p"
    "m' = m\<lparr>pm_pending :=
       map (\<lambda>x. if pp_ref x = pp_ref p then x\<lparr>pp_resolved := True, pp_allow := allow\<rparr> else x) (pm_pending m)\<rparr>"
  using assms that unfolding ch_prompt_manager_resolve_def by (simp split: if_splits option.splits)

lemma prompt_inv_resolve:
  assumes "prompt_inv n m w" "ch_prompt_manager_resolve ident allow m = Inr (m', s)"
  shows "prompt_inv n m' w"
proof -
  obtain p where "find (\<lambda>p. \<not> pp_resolved p \<and> sn_id (pp_snapshot p) = ident) (pm_pending m) = Some p" "s = pp_snapshot p"
    "m' = m\<lparr>pm_pending :=
       map (\<lambda>x. if pp_ref x = pp_ref p then x\<lparr>pp_resolved := True, pp_allow := allow\<rparr> else x) (pm_pending m)\<rparr>"
    by (rule resolve_cases [OF assms(2)])
  then show ?thesis
    by (simp only:) (rule prompt_inv_decides [OF assms(1)], simp add: decides_def)
qed

lemma prompt_reach_inv: "prompt_reach n m w \<Longrightarrow> prompt_inv n m w"
proof (induction rule: prompt_reach.induct)
  case create
  then show ?case
    by (simp add: prompt_inv_def ch_prompt_manager_create_def pending_ok_def drawn_def prompt_ids_def)
next
  case (configure n m w config m')
  show ?case by (rule prompt_inv_configure [OF configure.IH configure.hyps(2)])
next
  case (cancel n m w)
  show ?case unfolding ch_prompt_manager_cancel_all_def by (rule prompt_inv_resolve_all [OF cancel.IH])
next
  case (destroy n m w)
  then show ?case
    unfolding destroy_begin_def by (rule_tac prompt_inv_resolve_all) (simp add: prompt_inv_settings)
next
  case (await n m w ref now request m' a)
  show ?case by (rule prompt_inv_await [OF await.IH await.hyps(2,3)])
next
  case (wake n m w ref status m' a)
  show ?case by (rule prompt_inv_wake [OF wake.IH wake.hyps(2,3)])
next
  case (resolve n m w ident allow m' s)
  show ?case by (rule prompt_inv_resolve [OF resolve.IH resolve.hyps(2)])
qed

section \<open>The silent log\<close>

definition silent_inv :: "ch_prompt_manager \<Rightarrow> bool" where
  "silent_inv m \<longleftrightarrow> length (pm_silent m) = pm_silent_count m \<and> pm_silent_count m \<le> 256"

definition silent_mark :: "ch_prompt_manager \<Rightarrow> nat \<times> ch_prompt_request \<times> bool \<Rightarrow> prompt_silent" where
  "silent_mark m = (\<lambda>(now, request, allow).
     \<lparr>si_snapshot = (prompt_snapshot_from_request request (snprintf 64 (''silent-'' @ dec_nat (next_sequence m))) now 0)
        \<lparr>sn_expires_ns := 0\<rparr>, si_allow = allow\<rparr>)"

interpretation silent_log: bounded_log silent_inv "\<lambda>m. 256" "\<lambda>m. rev (pm_silent m)" silent_mark
  "\<lambda>(now, request, allow). prompt_record_silent_locked now request allow"
proof (unfold_locales, goal_cases)
  case (5 m x)
  obtain now request allow where x: "x = (now, request, allow)"
    by (cases x)
  have "rev (butlast (e # s)) = tl (rev s) @ [e]" if "s \<noteq> []" for e :: prompt_silent and s
  proof -
    have "rev (butlast (e # s)) = tl (rev (e # s))"
      by (metis butlast_rev rev_rev_ident)
    then show ?thesis using that by simp
  qed
  moreover have "pm_silent m \<noteq> []" if "\<not> pm_silent_count m + 1 \<le> 256"
    using that 5 by (auto simp: silent_inv_def)
  ultimately show ?case
    using 5 by (auto simp: x prompt_record_silent_locked_def silent_mark_def silent_inv_def Let_def)
qed (auto simp: silent_inv_def prompt_record_silent_locked_def Let_def)

text \<open>The log holds the last 256 silent decisions, in order.\<close>

lemma silent_keeps_last:
  "silent_inv m \<Longrightarrow>
   rev (pm_silent (fold (\<lambda>(now, request, allow). prompt_record_silent_locked now request allow) ds m)) =
   lastn 256 (rev (pm_silent m) @ silent_log.marks m ds)"
  by (rule silent_log.entries_adds)

section \<open>Answers\<close>

text \<open>Several threads that sleep on the same prompt return from their waits one after the other.\<close>

primrec await_wakes :: "nat \<Rightarrow> wait_status list \<Rightarrow> ch_prompt_manager \<Rightarrow> (ch_prompt_manager \<times> await list) option" where
  "await_wakes ref [] m = Some (m, [])"
| "await_wakes ref (status # rest) m =
     (case await_wake ref status m of
        None \<Rightarrow> None
      | Some (m', a) \<Rightarrow> map_option (\<lambda>(m'', as). (m'', a # as)) (await_wakes ref rest m'))"

definition signals :: "wait_status list \<Rightarrow> bool" where
  "signals ss \<longleftrightarrow> set ss \<subseteq> {Wait_Woken, Wait_EINTR}"

lemma find_ref: "distinct (map pp_ref ps) \<Longrightarrow> p \<in> set ps \<Longrightarrow> find (\<lambda>x. pp_ref x = pp_ref p) ps = Some p"
  by (induction ps) (auto simp: image_iff)

lemma filter_put: "pp_ref q = ref \<Longrightarrow>
   filter (\<lambda>x. pp_ref x \<noteq> ref) (map (\<lambda>x. if pp_ref x = ref then q else x) ps) = filter (\<lambda>x. pp_ref x \<noteq> ref) ps"
  by (induction ps) auto

lemma put_refs:
  assumes "distinct (map pp_ref (pm_pending m))" "pp_ref q = ref"
    "m' = m\<lparr>pm_pending := map (\<lambda>x. if pp_ref x = ref then q else x) (pm_pending m)\<rparr>"
  shows "distinct (map pp_ref (pm_pending m'))"
proof -
  have "map pp_ref (pm_pending m') = map pp_ref (pm_pending m)"
    using assms(2) by (simp add: assms(3))
  then show ?thesis using assms(1) by simp
qed

lemma wake_resolved:
  assumes "distinct (map pp_ref (pm_pending m))" "p \<in> set (pm_pending m)" "pp_resolved p" "pp_ref p = ref"
  shows "await_wake ref status m =
    (let q = drop_waiter (prompt_woken status (pm_default_allow m) p) in
     Some (m\<lparr>pm_pending := if sn_waiters (pp_snapshot q) = 0 then filter (\<lambda>x. pp_ref x \<noteq> ref) (pm_pending m)
         else map (\<lambda>x. if pp_ref x = ref then q else x) (pm_pending m)\<rparr>, Answered (pp_allow q) True))"
proof -
  have "pp_resolved (prompt_woken status (pm_default_allow m) p)"
    using assms(3) by (simp add: prompt_woken_def)
  moreover have "pp_allow (drop_waiter x) = pp_allow x" for x
    by (simp add: drop_waiter_def)
  ultimately show ?thesis
    using find_ref [OF assms(1,2)] assms(4) by (simp add: await_wake_def Let_def)
qed

lemma wakes_resolved:
  assumes "distinct (map pp_ref (pm_pending m))" "p \<in> set (pm_pending m)" "pp_resolved p" "pp_ref p = ref"
    "sn_waiters (pp_snapshot p) = length ss" "ss \<noteq> []" "signals ss"
  shows "await_wakes ref ss m =
    Some (m\<lparr>pm_pending := filter (\<lambda>x. pp_ref x \<noteq> ref) (pm_pending m)\<rparr>, replicate (length ss) (Answered (pp_allow p) True))"
  using assms
proof (induction ss arbitrary: m p)
  case (Cons status ss)
  have woken: "prompt_woken status d p = p" for d
    using Cons.prems(7) by (auto simp: prompt_woken_def signals_def)
  define q where "q = drop_waiter p"
  have q: "pp_ref q = ref" "pp_resolved q" "sn_waiters (pp_snapshot q) = length ss" "pp_allow q = pp_allow p"
    using Cons.prems by (simp_all add: q_def drop_waiter_def)
  note step = wake_resolved [OF Cons.prems(1-4), of status, unfolded woken, folded q_def, unfolded Let_def q(3)]
  show ?case
  proof (cases "ss = []")
    case True
    then show ?thesis using step q(4) by simp
  next
    case False
    define m' where "m' = m\<lparr>pm_pending := map (\<lambda>x. if pp_ref x = ref then q else x) (pm_pending m)\<rparr>"
    have "distinct (map pp_ref (pm_pending m'))"
      using put_refs [OF Cons.prems(1) q(1) m'_def] .
    moreover have "q \<in> set (pm_pending m')"
      using Cons.prems(2,4) by (auto simp: m'_def)
    ultimately have "await_wakes ref ss m' =
        Some (m'\<lparr>pm_pending := filter (\<lambda>x. pp_ref x \<noteq> ref) (pm_pending m')\<rparr>, replicate (length ss) (Answered (pp_allow p) True))"
      using Cons.IH [of m' q] Cons.prems(7) q False by (simp add: signals_def)
    then show ?thesis
      using step False q(4) filter_put [OF q(1)] by (simp add: m'_def)
  qed
qed simp

lemma resolved_prompt:
  assumes "prompt_reach n m w" "ch_prompt_manager_resolve ident allow m = Inr (m', s)"
  obtains p where "p \<in> set (pm_pending m')" "pp_resolved p" "pp_allow p = allow" "pp_snapshot p = s" "pp_ref p \<in># w"
    "sn_waiters s = count w (pp_ref p)" "distinct (map pp_ref (pm_pending m'))"
proof -
  obtain p where p: "find (\<lambda>p. \<not> pp_resolved p \<and> sn_id (pp_snapshot p) = ident) (pm_pending m) = Some p" "s = pp_snapshot p"
    "m' = m\<lparr>pm_pending :=
       map (\<lambda>x. if pp_ref x = pp_ref p then x\<lparr>pp_resolved := True, pp_allow := allow\<rparr> else x) (pm_pending m)\<rparr>"
    by (rule resolve_cases [OF assms(2)])
  let ?q = "p\<lparr>pp_resolved := True, pp_allow := allow\<rparr>"
  have mem: "p \<in> set (pm_pending m)"
    using find_SomeD [OF p(1)] by simp
  have "prompt_inv n m' w"
    by (rule prompt_inv_resolve [OF prompt_reach_inv [OF assms(1)] assms(2)])
  then have ok: "pending_ok w (pm_pending m')"
    by (simp add: prompt_inv_def)
  have q: "?q \<in> set (pm_pending m')"
    using mem by (auto simp: p(3))
  have "pp_ref ?q \<in># w"
    using ok imageI [OF q, of pp_ref] unfolding pending_ok_def by (elim conjE) (simp only:)
  moreover have "sn_waiters (pp_snapshot ?q) = count w (pp_ref ?q)" "distinct (map pp_ref (pm_pending m'))"
    using ok q unfolding pending_ok_def by (blast, elim conjE)
  ultimately show thesis
    using that [OF q] p(2) by simp
qed


section \<open>A sample execution\<close>

text \<open>Prompts are switched on, and two connections of the same program to the same host ask.\<close>

definition sample_prompt_config :: ch_config where
  "sample_prompt_config =
     \<lparr>cf_root = Toml_Table [] [] [(''prompt'', Toml_Table [(''enabled'', ''true'')] [] [])], cf_source_path = None, cf_document = []\<rparr>"

definition sample_request_prompt :: ch_prompt_request where
  "sample_request_prompt =
     \<lparr>rq_conn_id = None, rq_profile = Some ''work'', rq_network = Some ''tcp'', rq_target = None,
      rq_target_host = Some ''nas.lan'', rq_target_port = Some ''445'', rq_process_pid = 1, rq_process_name = Some ''curl'',
      rq_process_path = None, rq_code_sign_id = None, rq_code_sign_status = None, rq_would_use_chain = None,
      rq_would_use_group = None, rq_source = None\<rparr>"

definition sample_pending :: "nat \<Rightarrow> prompt_pending" where
  "sample_pending waiters =
     \<lparr>pp_ref = 7, pp_snapshot = (prompt_snapshot_from_request sample_request_prompt ''prompt-1'' 0 30)\<lparr>sn_waiters := waiters\<rparr>,
      pp_key = prompt_key sample_request_prompt, pp_resolved = False, pp_allow = False\<rparr>"

definition sample_manager :: "prompt_pending list \<Rightarrow> nat \<Rightarrow> ch_prompt_manager" where
  "sample_manager ps n = ch_prompt_manager_create\<lparr>pm_enabled := True, pm_sequence := n, pm_pending := ps\<rparr>"

lemma sample_configured:
  "ch_prompt_manager_configure (Some sample_prompt_config) ch_prompt_manager_create = Inr (sample_manager [] 0)"
  by code_simp

lemma prompt_one: "snprintf 64 (''prompt-'' @ dec_nat (Suc 0)) = ''prompt-1''"
  by (simp add: snprintf_def dec_nat.simps digit_char_def char_of_def bit_Suc_0_iff)

lemma sample_asks:
  "await_begin 7 0 sample_request_prompt (sample_manager [] 0) = (sample_manager [sample_pending 1] 1, Sleeping 7)"
  "await_begin 8 0 sample_request_prompt (sample_manager [sample_pending 1] 1) = (sample_manager [sample_pending 2] 1, Sleeping 7)"
  by (simp_all add: await_begin_def sample_manager_def sample_pending_def ch_prompt_manager_create_def prompt_pending_key_def
      next_sequence_def prompt_one [simplified] add_waiter_def Let_def)

lemma sample_resolved:
  "ch_prompt_manager_resolve ''prompt-1'' True (sample_manager [sample_pending 2] 1) =
     Inr (sample_manager [(sample_pending 2)\<lparr>pp_resolved := True, pp_allow := True\<rparr>] 1, pp_snapshot (sample_pending 2))"
  by (simp add: ch_prompt_manager_resolve_def sample_manager_def sample_pending_def ch_prompt_manager_create_def
      prompt_snapshot_from_request_def)

lemma sample_prompt_reach: "prompt_reach 2 (sample_manager [sample_pending 2] 1) {#7, 7#}"
proof -
  have "prompt_reach 0 (sample_manager [] 0) {#}"
    by (rule prompt_reach.configure [OF prompt_reach.create sample_configured])
  then have "prompt_reach (Suc 0) (sample_manager [sample_pending 1] 1) ({#} + still_asleep (Sleeping 7))"
    by (rule prompt_reach.await [OF _ _ sample_asks(1)]) (simp add: sample_manager_def)
  then have "prompt_reach (Suc (Suc 0)) (sample_manager [sample_pending 2] 1)
      ({#} + still_asleep (Sleeping 7) + still_asleep (Sleeping 7))"
    by (rule prompt_reach.await [OF _ _ sample_asks(2)]) (simp add: sample_manager_def sample_pending_def)
  then show ?thesis
    by (simp add: still_asleep_def numeral_2_eq_2)
qed

section \<open>Properties\<close>

text \<open>C38: No thread is lost and none touches freed memory: in every reachable state each sleeping thread finds its
  prompt, the waiter counts are exact, so that the destructor waits exactly while somebody sleeps, at most one
  unresolved prompt exists per key, and identifiers are unique as long as the 64-bit sequence has not wrapped.
  The log of silent decisions never exceeds 256 entries.\<close>

theorem prompt_waiters_safe:
  assumes "prompt_reach n m w"
  shows "(\<forall>ref status. ref \<in># w \<longrightarrow> await_wake ref status m \<noteq> None) \<and>
    (\<forall>p \<in> set (pm_pending m). sn_waiters (pp_snapshot p) = count w (pp_ref p) \<and> 0 < count w (pp_ref p)) \<and>
    (destroy_waits m \<longleftrightarrow> w \<noteq> {#}) \<and>
    distinct (map pp_key (filter (\<lambda>p. \<not> pp_resolved p) (pm_pending m))) \<and>
    (n < 2 ^ 64 \<longrightarrow> distinct (prompt_ids (pm_pending m))) \<and>
    length (pm_silent m) = pm_silent_count m \<and> pm_silent_count m \<le> 256"
proof -
  have inv: "prompt_inv n m w"
    by (rule prompt_reach_inv [OF assms])
  then have sets: "set_mset w = pp_ref ` set (pm_pending m)"
    and waiters: "\<forall>p \<in> set (pm_pending m). sn_waiters (pp_snapshot p) = count w (pp_ref p)"
    by (simp_all add: prompt_inv_def pending_ok_def)
  have "await_wake ref status m \<noteq> None" if "ref \<in># w" for ref status
  proof -
    have "find (\<lambda>p. pp_ref p = ref) (pm_pending m) \<noteq> None"
      using that sets unfolding find_some_iff_ex by auto
    then show ?thesis
      unfolding await_wake_def Let_def by (cases "find (\<lambda>p. pp_ref p = ref) (pm_pending m)") simp_all
  qed
  moreover have pos: "\<forall>p \<in> set (pm_pending m). 0 < count w (pp_ref p)"
    using sets by auto
  moreover have "destroy_waits m \<longleftrightarrow> w \<noteq> {#}"
  proof -
    have "destroy_waits m \<longleftrightarrow> pm_pending m \<noteq> []"
      using waiters pos by (cases "pm_pending m") (auto simp: destroy_waits_def list_ex_iff)
    also have "\<dots> \<longleftrightarrow> w \<noteq> {#}"
      using sets by (metis image_is_empty set_empty set_mset_eq_empty_iff)
    finally show ?thesis .
  qed
  ultimately show ?thesis
    using inv waiters by (auto simp: prompt_inv_def pending_ok_def drawn_def)
qed

theorem prompt_waiters_safe_witness:
  "prompt_reach 2 (sample_manager [sample_pending 2] 1) {#7, 7#} \<and> destroy_waits (sample_manager [sample_pending 2] 1) \<and>
   await_wake 7 Wait_EINTR (sample_manager [sample_pending 2] 1) \<noteq> None"
  using prompt_waiters_safe [OF sample_prompt_reach] sample_prompt_reach by simp



text \<open>C40: A late time-out overrides the user: when the user has allowed the connection and the wait of one thread
  then returns with \<^verbatim>\<open>ETIMEDOUT\<close>, the loop takes the branch for failed waits, so that this thread and all
  others of the prompt are denied.\<close>

theorem late_timeout_denies:
  assumes "prompt_reach n m w" and "ch_prompt_manager_resolve ident True m = Inr (m', s)"
  shows "\<exists>ref. ref \<in># w \<and>
    (\<forall>ss. Suc (length ss) = count w ref \<and> signals ss \<longrightarrow>
      (\<exists>m''. await_wakes ref (Wait_ETIMEDOUT # ss) m' = Some (m'', replicate (count w ref) (Answered False True))))"
proof -
  obtain p where p: "p \<in> set (pm_pending m')" "pp_resolved p" "pp_allow p = True" "pp_snapshot p = s" "pp_ref p \<in># w"
    "sn_waiters s = count w (pp_ref p)" "distinct (map pp_ref (pm_pending m'))"
    by (rule resolved_prompt [OF assms])
  define q where "q = drop_waiter (prompt_woken Wait_ETIMEDOUT (pm_default_allow m') p)"
  have q: "pp_ref q = pp_ref p" "pp_resolved q" "\<not> pp_allow q" "sn_waiters (pp_snapshot q) = count w (pp_ref p) - 1"
    using p(2,4,6) by (simp_all add: q_def drop_waiter_def prompt_woken_def)
  note step = wake_resolved [OF p(7,1,2) refl, of Wait_ETIMEDOUT, folded q_def, unfolded Let_def]
  have "\<exists>m''. await_wakes (pp_ref p) (Wait_ETIMEDOUT # ss) m' = Some (m'', replicate (count w (pp_ref p)) (Answered False True))"
    if ss: "Suc (length ss) = count w (pp_ref p)" "signals ss" for ss
  proof -
    have len: "sn_waiters (pp_snapshot q) = length ss" "count w (pp_ref p) = Suc (length ss)"
      using q(4) ss(1) by linarith+
    show ?thesis
    proof (cases "ss = []")
      case True
      then show ?thesis
        using step q(3) by (simp add: len)
    next
      case False
      define m2 where "m2 = m'\<lparr>pm_pending := map (\<lambda>x. if pp_ref x = pp_ref p then q else x) (pm_pending m')\<rparr>"
      have "q \<in> set (pm_pending m2)"
        using p(1) by (auto simp: m2_def)
      from wakes_resolved [OF put_refs [OF p(7) q(1) m2_def] this q(2,1) len(1) False ss(2)]
      show ?thesis
        using step False q(3) unfolding m2_def by (simp add: len)
    qed
  qed
  then show ?thesis
    using p(5) by blast
qed

theorem late_timeout_denies_witness:
  "\<exists>m. await_wakes 7 [Wait_ETIMEDOUT, Wait_Woken]
     (sample_manager [(sample_pending 2)\<lparr>pp_resolved := True, pp_allow := True\<rparr>] 1) = Some (m, [Answered False True, Answered False True])"
proof -
  have two: "count {#7, 7 :: nat#} 7 = 2" "signals [Wait_Woken]"
    by (simp_all add: signals_def)
  obtain ref where "ref \<in># {#7, 7 :: nat#}"
    and all: "\<forall>ss. Suc (length ss) = count {#7, 7 :: nat#} ref \<and> signals ss \<longrightarrow>
      (\<exists>m''. await_wakes ref (Wait_ETIMEDOUT # ss)
        (sample_manager [(sample_pending 2)\<lparr>pp_resolved := True, pp_allow := True\<rparr>] 1) =
        Some (m'', replicate (count {#7, 7 :: nat#} ref) (Answered False True)))"
    using late_timeout_denies [OF sample_prompt_reach sample_resolved] by blast
  then have "ref = 7" by simp
  then show ?thesis
    using spec [OF all, of "[Wait_Woken]"] two by (simp add: numeral_2_eq_2)
qed

end
