(* ===== verification/Dns_Cache.thy ===== *)
theory Dns_Cache
  imports Ip_Packets
begin

text \<open>
  Names and addresses in \<^verbatim>\<open>src/native/src/ip_stack.c\<close>: textual endpoints, names in DNS messages, and the cache
  that remembers which name an address was resolved from.  \<open>now\<close> is the value of \<^verbatim>\<open>sys_now\<close>, a 32-bit
  millisecond counter that wraps; while one response is cached, its value at the n-th answer is \<open>clock n\<close>.
\<close>

unbundle bit_operations_syntax

section \<open>Endpoints\<close>

definition ch_ip_stack_format_endpoint :: "family \<Rightarrow> byte list \<Rightarrow> nat \<Rightarrow> string option" where
  "ch_ip_stack_format_endpoint f address port =
     (let host = inet_ntop f address;
          endpoint = (case f of
              AF_INET6 \<Rightarrow> ''['' @ host @ '']:'' @ dec_nat port
            | AF_INET \<Rightarrow> host @ '':'' @ dec_nat port)
      in if 0 < length endpoint \<and> length endpoint < 56 then Some endpoint else None)"

text \<open>The host and the port of an endpoint.\<close>

definition endpoint_parts :: "family \<Rightarrow> string \<Rightarrow> (string \<times> string) option" where
  "endpoint_parts f endpoint =
     (case f of
        AF_INET6 \<Rightarrow>
          if endpoint = [] \<or> hd endpoint \<noteq> CHR ''['' then None
          else (case strchr (tl endpoint) (CHR '']'') of
              None \<Rightarrow> None
            | Some (host, rest) \<Rightarrow>
                if rest = [] \<or> hd rest \<noteq> CHR '':'' \<or> tl rest = [] then None else Some (host, tl rest))
      | AF_INET \<Rightarrow>
          (case strrchr endpoint (CHR '':'') of
             None \<Rightarrow> None
           | Some (host, port) \<Rightarrow> if host = [] \<or> port = [] then None else Some (host, port)))"

definition ch_ip_stack_parse_endpoint :: "string option \<Rightarrow> family \<Rightarrow> (byte list \<times> nat) option" where
  "ch_ip_stack_parse_endpoint endpoint f =
     (case endpoint of
        None \<Rightarrow> None
      | Some text \<Rightarrow>
          (case endpoint_parts f text of
             None \<Rightarrow> None
           | Some (host, port_start) \<Rightarrow>
               if host = [] \<or> 46 \<le> length host then None
               else
                 let port = strtoul port_start in
                 if st_range port \<or> \<not> st_converted port \<or> st_rest port \<noteq> [] \<or> st_value port = 0 \<or>
                    65535 < st_value port
                 then None
                 else (case inet_pton f host of
                     None \<Rightarrow> None
                   | Some address \<Rightarrow> Some (address, nat (st_value port)))))"

section \<open>Names in messages\<close>

text \<open>The loop of \<^verbatim>\<open>ch_ip_stack_dns_read_name\<close>; the first argument counts the steps that are left of 128.\<close>

fun dns_name_loop :: "nat \<Rightarrow> byte list \<Rightarrow> nat \<Rightarrow> nat \<Rightarrow> string \<Rightarrow> bool \<Rightarrow> (string \<times> nat) option" where
  "dns_name_loop 0 message cursor nxt name jumped = None"
| "dns_name_loop (Suc steps) message cursor nxt name jumped =
     (if length message \<le> cursor then None
      else
        let label_length = unat (message ! cursor) in
        if 192 \<le> label_length then
          (if length message \<le> cursor + 1 then None
           else
             let pointer = label_length mod 64 * 256 + unat (message ! (cursor + 1)) in
             if length message \<le> pointer then None
             else dns_name_loop steps message pointer (if jumped then nxt else cursor + 2) name True)
        else if 64 \<le> label_length then None
        else if label_length = 0 then
          (if name = [] then None else Some (name, if jumped then nxt else cursor + 1))
        else if length message < cursor + 1 + label_length \<or>
                256 \<le> length name + (if name = [] then 0 else 1) + label_length then None
        else
          let name = (if name = [] then [] else name @ ''.'') @
                     map (\<lambda>b. tolower (char_of (unat b))) (sub_bytes message (cursor + 1) label_length);
              cursor = cursor + 1 + label_length
          in dns_name_loop steps message cursor (if jumped then nxt else cursor) name jumped)"

definition ch_ip_stack_dns_read_name :: "byte list \<Rightarrow> nat \<Rightarrow> (string \<times> nat) option" where
  "ch_ip_stack_dns_read_name message offset = dns_name_loop 128 message offset offset [] False"

section \<open>The cache\<close>

record ch_ip_stack_dns_entry =
  de_address :: "byte list"
  de_family :: family
  de_domain :: string
  de_expires_at :: "32 word"
  de_sequence :: nat

record dns_cache =
  dc_entries :: "ch_ip_stack_dns_entry list"
  dc_sequence :: nat

definition ch_ip_stack_dns_entry_alive :: "ch_ip_stack_dns_entry \<Rightarrow> 32 word \<Rightarrow> bool" where
  "ch_ip_stack_dns_entry_alive e now \<longleftrightarrow> 0 < sint (de_expires_at e - now)"

definition entry_for :: "family \<Rightarrow> byte list \<Rightarrow> ch_ip_stack_dns_entry \<Rightarrow> bool" where
  "entry_for f address e \<longleftrightarrow> de_family e = f \<and> de_address e = address"

text \<open>The search for the slot: the index so far selected and the oldest sequence number seen.\<close>

fun dns_scan ::
  "family \<Rightarrow> byte list \<Rightarrow> 32 word \<Rightarrow> nat \<Rightarrow> nat \<Rightarrow> nat \<Rightarrow> ch_ip_stack_dns_entry list \<Rightarrow> nat" where
  "dns_scan f address now i selected oldest [] = selected"
| "dns_scan f address now i selected oldest (e # es) =
     (if entry_for f address e then i
      else if \<not> ch_ip_stack_dns_entry_alive e now then dns_scan f address now (i + 1) i 0 es
      else if oldest \<noteq> 0 \<and> de_sequence e < oldest then dns_scan f address now (i + 1) i (de_sequence e) es
      else dns_scan f address now (i + 1) selected oldest es)"

fun oldest_entry :: "nat \<Rightarrow> nat \<Rightarrow> ch_ip_stack_dns_entry list \<Rightarrow> ch_ip_stack_dns_entry list \<Rightarrow> nat" where
  "oldest_entry i selected entries [] = selected"
| "oldest_entry i selected entries (e # es) =
     oldest_entry (i + 1) (if de_sequence e < de_sequence (entries ! selected) then i else selected) entries es"

definition dns_ttl :: "nat \<Rightarrow> nat" where
  "dns_ttl ttl_seconds =
     (let ms = ttl_seconds * 1000; ms = (if ms = 0 then 1000 else ms) in min ms 86400000)"

definition ch_ip_stack_dns_cache_store ::
  "32 word \<Rightarrow> family \<Rightarrow> byte list \<Rightarrow> string \<Rightarrow> nat \<Rightarrow> dns_cache \<Rightarrow> dns_cache" where
  "ch_ip_stack_dns_cache_store now f address domain ttl_seconds c =
     (let entries = dc_entries c;
          sequence = (dc_sequence c + 1) mod 2 ^ 64;
          selected = dns_scan f address now 0 (length entries) (2 ^ 64 - 1) entries;
          entry = \<lparr>de_address = address, de_family = f, de_domain = snprintf 256 (c_str domain),
                   de_expires_at = now + word_of_nat (dns_ttl ttl_seconds), de_sequence = sequence\<rparr>
      in if selected = length entries then
           (if length entries < 1024 then \<lparr>dc_entries = entries @ [entry], dc_sequence = sequence\<rparr>
            else if 0 < length entries then
              \<lparr>dc_entries = entries[oldest_entry 1 0 entries (tl entries) := entry], dc_sequence = sequence\<rparr>
            else c)
         else \<lparr>dc_entries = entries[selected := entry], dc_sequence = sequence\<rparr>)"

text \<open>Skipping the questions of a response, and caching its answers.\<close>

fun skip_questions :: "nat \<Rightarrow> byte list \<Rightarrow> nat \<Rightarrow> nat option" where
  "skip_questions 0 response offset = Some offset"
| "skip_questions (Suc n) response offset =
     (case ch_ip_stack_dns_read_name response offset of
        None \<Rightarrow> None
      | Some (_, offset) \<Rightarrow>
          if length response < offset + 4 then None else skip_questions n response (offset + 4))"

fun cache_answers ::
  "nat \<Rightarrow> (nat \<Rightarrow> 32 word) \<Rightarrow> string \<Rightarrow> byte list \<Rightarrow> nat \<Rightarrow> dns_cache \<Rightarrow> dns_cache" where
  "cache_answers 0 clock domain response offset c = c"
| "cache_answers (Suc n) clock domain response offset c =
     (case ch_ip_stack_dns_read_name response offset of
        None \<Rightarrow> c
      | Some (_, offset) \<Rightarrow>
          if length response < offset + 10 then c
          else
            let kind = ch_ip_stack_read_u16 response offset;
                record_class = ch_ip_stack_read_u16 response (offset + 2);
                ttl = ch_ip_stack_read_u32 response (offset + 4);
                data_length = ch_ip_stack_read_u16 response (offset + 8);
                offset = offset + 10
            in if length response < offset + data_length then c
               else
                 let c = (if record_class = 1 \<and> kind = 1 \<and> data_length = 4
                          then ch_ip_stack_dns_cache_store (clock n) AF_INET (sub_bytes response offset 4) domain ttl c
                          else if record_class = 1 \<and> kind = 28 \<and> data_length = 16
                          then ch_ip_stack_dns_cache_store (clock n) AF_INET6 (sub_bytes response offset 16) domain ttl c
                          else c)
                 in cache_answers n clock domain response (offset + data_length) c)"

definition ch_ip_stack_dns_cache_response ::
  "(nat \<Rightarrow> 32 word) \<Rightarrow> byte list \<Rightarrow> byte list \<Rightarrow> dns_cache \<Rightarrow> dns_cache" where
  "ch_ip_stack_dns_cache_response clock query response c =
     (if length query < 12 \<or> length response < 12 \<or> ch_ip_stack_read_u16 query 4 = 0 then c
      else
        case ch_ip_stack_dns_read_name query 12 of
          None \<Rightarrow> c
        | Some (domain, _) \<Rightarrow>
            (case skip_questions (ch_ip_stack_read_u16 response 4) response 12 of
               None \<Rightarrow> c
             | Some offset \<Rightarrow>
                 cache_answers (ch_ip_stack_read_u16 response 6) clock domain response offset c))"

text \<open>The index of the entry a lookup finds; the entry counts as used.\<close>

fun dns_find :: "family \<Rightarrow> byte list \<Rightarrow> 32 word \<Rightarrow> ch_ip_stack_dns_entry list \<Rightarrow> nat option" where
  "dns_find f address now [] = None"
| "dns_find f address now (e # es) =
     (if de_family e = f \<and> ch_ip_stack_dns_entry_alive e now \<and> de_address e = address then Some 0
      else map_option Suc (dns_find f address now es))"

definition ch_ip_stack_dns_cache_lookup ::
  "32 word \<Rightarrow> family \<Rightarrow> byte list \<Rightarrow> dns_cache \<Rightarrow> dns_cache \<times> string option" where
  "ch_ip_stack_dns_cache_lookup now f address c =
     (case dns_find f address now (dc_entries c) of
        None \<Rightarrow> (c, None)
      | Some i \<Rightarrow>
          (let sequence = (dc_sequence c + 1) mod 2 ^ 64;
               e = dc_entries c ! i
           in (\<lparr>dc_entries = (dc_entries c)[i := e\<lparr>de_sequence := sequence\<rparr>], dc_sequence = sequence\<rparr>,
               Some (de_domain e))))"

definition ch_ip_stack_domain_hint ::
  "32 word \<Rightarrow> family \<Rightarrow> byte list \<Rightarrow> nat \<Rightarrow> dns_cache \<Rightarrow> dns_cache \<times> string" where
  "ch_ip_stack_domain_hint now f address port c =
     (case ch_ip_stack_dns_cache_lookup now f address c of
        (c, None) \<Rightarrow> (c, [])
      | (c, Some domain) \<Rightarrow>
          (let hint = domain @ '':'' @ dec_nat port in (c, if 264 \<le> length hint then [] else hint)))"

section \<open>Endpoints survive printing\<close>

lemma colon_not_in_ntop4: "CHR '':'' \<notin> set (inet_ntop4 a)"
  using inet_ntop4_chars [of a] by (auto simp: isdigit_def)

lemma bracket_not_in_ntop6: "CHR '']'' \<notin> set (inet_ntop6 a)"
  using inet_ntop6_chars [of a] by (auto simp: hex_value_def Let_def)

lemma colon_not_in_dec_nat: "CHR '':'' \<notin> set (dec_nat n)"
  using dec_nat_digits [of n] by (auto simp: isdigit_def)

definition address_ok :: "family \<Rightarrow> byte list \<Rightarrow> bool" where
  "address_ok f a \<longleftrightarrow> length a = ch_ip_stack_address_length f"

lemma inet_ntop_round_trip: "address_ok f a \<Longrightarrow> inet_pton f (inet_ntop f a) = Some a"
  by (rule inet_pton_ntop) (simp add: address_ok_def ch_ip_stack_address_length_def split: family.splits)

lemma inet_ntop_length: "address_ok f a \<Longrightarrow> length (inet_ntop f a) \<le> 45"
  using inet_ntop4_length [of a] inet_ntop6_length [of a]
  by (auto simp: address_ok_def ch_ip_stack_address_length_def inet_ntop_def split: family.splits)

lemma inet_ntop_nonempty: "address_ok f a \<Longrightarrow> inet_ntop f a \<noteq> []"
  using inet_ntop_round_trip [of f a]
  by (auto simp: inet_pton_def inet_pton4_def inet_pton6_def octet_def split: family.splits)

lemma endpoint_parts_format:
  assumes "ch_ip_stack_format_endpoint f a port = Some endpoint" "address_ok f a"
  shows "endpoint_parts f endpoint = Some (inet_ntop f a, dec_nat port)"
proof (cases f)
  case AF_INET
  then have "endpoint = inet_ntop4 a @ CHR '':'' # dec_nat port"
    using assms(1) by (auto simp: ch_ip_stack_format_endpoint_def Let_def inet_ntop_def split: if_splits)
  then have "strrchr endpoint (CHR '':'') = Some (inet_ntop4 a, dec_nat port)"
    by (simp add: strrchr_Some colon_not_in_dec_nat)
  then show ?thesis
    using inet_ntop_nonempty [OF assms(2)] AF_INET by (simp add: endpoint_parts_def inet_ntop_def)
next
  case AF_INET6
  then have e: "endpoint = CHR ''['' # inet_ntop6 a @ CHR '']'' # CHR '':'' # dec_nat port"
    using assms(1) by (auto simp: ch_ip_stack_format_endpoint_def Let_def inet_ntop_def split: if_splits)
  then have "strchr (tl endpoint) (CHR '']'') = Some (inet_ntop6 a, CHR '':'' # dec_nat port)"
    by (simp add: strchr_Some bracket_not_in_ntop6)
  then show ?thesis
    using AF_INET6 e by (simp add: endpoint_parts_def inet_ntop_def)
qed

lemma format_endpoint_defined:
  assumes "address_ok f a" "port \<le> 65535"
  shows "\<exists>endpoint. ch_ip_stack_format_endpoint f a port = Some endpoint"
proof -
  have "length (dec_nat port) \<le> 5"
    using dec_nat_length [of port 4] assms(2) by simp
  then show ?thesis
    using inet_ntop_length [OF assms(1)] inet_ntop_nonempty [OF assms(1)]
    by (auto simp: ch_ip_stack_format_endpoint_def Let_def split: family.splits)
qed

section \<open>Names\<close>

lemma sub_bytes_length: "length (sub_bytes m i n) = min n (length m - i)"
  by (simp add: sub_bytes_def)

lemma dns_name_loop_bounds:
  assumes "dns_name_loop steps m cursor nxt name jumped = Some (result, after)"
    and "length name < 256" "if jumped then offset < nxt \<and> nxt \<le> length m else offset \<le> cursor"
  shows "result \<noteq> [] \<and> length result < 256 \<and> offset < after \<and> after \<le> length m"
  using assms
proof (induction steps arbitrary: cursor nxt name jumped)
  case (Suc steps)
  let ?l = "unat (m ! cursor)"
  have cursor: "cursor < length m"
    using Suc.prems(1) by (auto split: if_splits)
  consider (pointer) "192 \<le> ?l" | (reserved) "64 \<le> ?l" "?l < 192" | (stop) "?l = 0" | (label) "0 < ?l" "?l < 64"
    by linarith
  then show ?case
  proof cases
    case pointer
    then have "cursor + 1 < length m"
      and "dns_name_loop steps m (?l mod 64 * 256 + unat (m ! (cursor + 1))) (if jumped then nxt else cursor + 2)
        name True = Some (result, after)"
      using Suc.prems(1) cursor by (auto simp: Let_def split: if_splits)
    then show ?thesis
      using Suc.IH Suc.prems(2,3) by (auto split: if_splits)
  next
    case label
    let ?name = "(if name = [] then [] else name @ ''.'') @
      map (\<lambda>b. tolower (char_of (unat b))) (sub_bytes m (cursor + 1) ?l)"
    have fits: "cursor + 1 + ?l \<le> length m" "length ?name < 256"
      and rest: "dns_name_loop steps m (cursor + 1 + ?l) (if jumped then nxt else cursor + 1 + ?l) ?name jumped =
        Some (result, after)"
      using Suc.prems(1) cursor label by (auto simp: Let_def sub_bytes_length split: if_splits)
    then show ?thesis
      using Suc.prems(3) by (intro Suc.IH [OF rest]) (auto split: if_splits)
  qed (use Suc.prems cursor in \<open>auto split: if_splits\<close>)
qed simp

text \<open>Names as they are written into messages: labels with their lengths, then a zero.\<close>

definition wire_label :: "string \<Rightarrow> byte list" where
  "wire_label l = word_of_nat (length l) # map (\<lambda>c. word_of_nat (code c)) l"

definition wire_name :: "string list \<Rightarrow> byte list" where
  "wire_name ls = concat (map wire_label ls) @ [0]"

definition label_ok :: "string \<Rightarrow> bool" where
  "label_ok l \<longleftrightarrow> l \<noteq> [] \<and> length l \<le> 63"

definition add_label :: "string \<Rightarrow> string \<Rightarrow> string" where
  "add_label name l = (if name = [] then [] else name @ ''.'') @ lower l"

lemma length_wire_label [simp]: "length (wire_label l) = Suc (length l)"
  by (simp add: wire_label_def)

lemma wire_label_bytes:
  assumes "drop cursor m = wire_label l @ rest" "label_ok l"
  shows "cursor + 1 + length l \<le> length m" "unat (m ! cursor) = length l" "cursor < length m"
    "map (\<lambda>b. tolower (char_of (unat b))) (sub_bytes m (cursor + 1) (length l)) = lower l"
    "drop (cursor + 1 + length l) m = rest"
proof -
  have "length m - cursor = length (wire_label l @ rest)"
    using assms(1) by (metis length_drop)
  then show "cursor + 1 + length l \<le> length m" "cursor < length m"
    by simp_all
  have "m ! cursor = hd (drop cursor m)"
    using \<open>cursor < length m\<close> by (simp add: hd_drop_conv_nth)
  then show "unat (m ! cursor) = length l"
    using assms by (simp add: wire_label_def label_ok_def)
  have d: "drop (cursor + 1) m = map (\<lambda>c. word_of_nat (code c)) l @ rest"
    using arg_cong [OF assms(1), of tl] by (simp add: wire_label_def drop_Suc tl_drop)
  have "unat (word_of_nat (code c) :: byte) = code c" for c
    by simp
  then show "map (\<lambda>b. tolower (char_of (unat b))) (sub_bytes m (cursor + 1) (length l)) = lower l"
    unfolding sub_bytes_def d by (simp add: lower_def)
  show "drop (cursor + 1 + length l) m = rest"
    using arg_cong [OF d, of "drop (length l)"] by (simp add: add.commute)
qed

lemma add_label_mono: "length name \<le> length (foldl add_label name ls)"
proof (induction ls arbitrary: name)
  case (Cons l ls)
  have "length name \<le> length (add_label name l)"
    by (simp add: add_label_def)
  then show ?case
    using Cons [of "add_label name l"] by simp
qed simp

lemma add_label_nonempty: "label_ok l \<Longrightarrow> add_label name l \<noteq> []"
  by (simp add: add_label_def label_ok_def)

lemma dns_name_loop_wire:
  assumes "drop cursor m = wire_name ls @ post" "\<forall>l \<in> set ls. label_ok l" "length ls < steps"
    and "name \<noteq> [] \<or> ls \<noteq> []" "length (foldl add_label name ls) < 256"
  shows "dns_name_loop steps m cursor nxt name jumped =
    Some (foldl add_label name ls, if jumped then nxt else cursor + length (wire_name ls))"
  using assms
proof (induction ls arbitrary: cursor nxt name steps)
  case Nil
  obtain k where steps: "steps = Suc k"
    using Nil.prems(3) by (cases steps) auto
  have "drop cursor m = 0 # post"
    using Nil.prems(1) by (simp add: wire_name_def)
  then have "cursor < length m" "m ! cursor = 0"
    by (metis drop_eq_Nil list.discI not_le, metis drop_eq_Nil hd_drop_conv_nth list.discI list.sel(1) not_le)
  then show ?case
    using Nil.prems(4) by (simp add: steps wire_name_def)
next
  case (Cons l ls)
  obtain k where steps: "steps = Suc k" "length ls < k"
    using Cons.prems(3) by (cases steps) auto
  have ok: "label_ok l"
    using Cons.prems(2) by simp
  have "drop cursor m = wire_label l @ wire_name ls @ post"
    using Cons.prems(1) by (simp add: wire_name_def)
  note b = wire_label_bytes [OF this ok]
  have small: "length (add_label name l) < 256"
    using add_label_mono [of "add_label name l" ls] Cons.prems(5) by simp
  have "dns_name_loop steps m cursor nxt name jumped =
      dns_name_loop k m (cursor + 1 + length l) (if jumped then nxt else cursor + 1 + length l) (add_label name l) jumped"
    using b small ok by (auto simp: steps(1) Let_def add_label_def label_ok_def)
  also have "\<dots> = Some (foldl add_label (add_label name l) ls,
      if jumped then nxt else cursor + 1 + length l + length (wire_name ls))"
    using Cons.IH [of "cursor + 1 + length l" k "add_label name l"] b(5) Cons.prems steps(2)
      add_label_nonempty [OF ok] by simp
  finally show ?case
    by (simp add: wire_name_def)
qed

lemma foldl_add_label:
  assumes "\<forall>l \<in> set ls. label_ok l" "ls \<noteq> []"
  shows "foldl add_label [] ls = lower (join_with (CHR ''.'') ls)"
proof -
  have "foldl add_label name ls = name @ CHR ''.'' # lower (join_with (CHR ''.'') ls)"
    if "name \<noteq> []" "ls \<noteq> []" "\<forall>l \<in> set ls. label_ok l" for name ls
    using that
  proof (induction "CHR ''.''" ls arbitrary: name rule: join_with.induct)
    case (3 x y ys)
    then show ?case
      using 3(1) [of "name @ CHR ''.'' # lower x"] by (simp add: add_label_def lower_def tolower_def isupper_def)
  qed (simp_all add: add_label_def lower_def)
  note tail = this
  show ?thesis
  proof (cases ls)
    case (Cons l ls')
    then show ?thesis
      using assms tail [of "lower l" ls']
      by (cases ls') (auto simp: add_label_def label_ok_def lower_def tolower_def isupper_def)
  qed (use assms in simp)
qed

section \<open>The cache holds one entry\<close>

text \<open>The requests that reach the cache.\<close>

datatype cache_op =
    Store_Name "32 word" family "byte list" string nat
  | Hint_For "32 word" family "byte list" nat

fun run_cache :: "cache_op \<Rightarrow> dns_cache \<Rightarrow> dns_cache" where
  "run_cache (Store_Name now f address domain ttl) c = ch_ip_stack_dns_cache_store now f address domain ttl c"
| "run_cache (Hint_For now f address port) c = fst (ch_ip_stack_domain_hint now f address port c)"

definition empty_cache :: dns_cache where
  "empty_cache = \<lparr>dc_entries = [], dc_sequence = 0\<rparr>"

definition cache_inv :: "nat \<Rightarrow> dns_cache \<Rightarrow> bool" where
  "cache_inv n c \<longleftrightarrow> length (dc_entries c) \<le> 1 \<and> dc_sequence c \<le> n \<and>
     (\<forall>e \<in> set (dc_entries c). de_sequence e \<le> n)"

lemma store_single:
  assumes "cache_inv n c" "n < 2 ^ 64 - 1"
  shows "dc_entries (ch_ip_stack_dns_cache_store now f a nm ttl c) =
    [\<lparr>de_address = a, de_family = f, de_domain = snprintf 256 (c_str nm),
      de_expires_at = now + word_of_nat (dns_ttl ttl), de_sequence = dc_sequence c + 1\<rparr>]"
    "dc_sequence (ch_ip_stack_dns_cache_store now f a nm ttl c) = dc_sequence c + 1"
proof -
  have seq: "(dc_sequence c + 1) mod 2 ^ 64 = dc_sequence c + 1"
    using assms by (simp add: cache_inv_def)
  consider "dc_entries c = []" | e where "dc_entries c = [e]" "de_sequence e < 2 ^ 64 - 1"
    using assms by (cases "dc_entries c"; cases "tl (dc_entries c)") (auto simp: cache_inv_def)
  then show "dc_entries (ch_ip_stack_dns_cache_store now f a nm ttl c) =
      [\<lparr>de_address = a, de_family = f, de_domain = snprintf 256 (c_str nm),
        de_expires_at = now + word_of_nat (dns_ttl ttl), de_sequence = dc_sequence c + 1\<rparr>]"
    "dc_sequence (ch_ip_stack_dns_cache_store now f a nm ttl c) = dc_sequence c + 1"
    using seq by (cases; simp add: ch_ip_stack_dns_cache_store_def Let_def)+
qed

lemma cache_inv_store:
  assumes "cache_inv n c" "n < 2 ^ 64 - 1"
  shows "cache_inv (Suc n) (ch_ip_stack_dns_cache_store now f a nm ttl c)"
  using store_single [OF assms, of now f a nm ttl] assms(1) by (simp add: cache_inv_def)

lemma dns_find_less: "dns_find f a now es = Some i \<Longrightarrow> i < length es"
  by (induction es arbitrary: i) (auto split: if_splits)

lemma cache_inv_hint:
  assumes "cache_inv n c" "n < 2 ^ 64 - 1"
  shows "cache_inv (Suc n) (fst (ch_ip_stack_domain_hint now f a port c))"
proof -
  have "(dc_sequence c + 1) mod 2 ^ 64 = dc_sequence c + 1"
    using assms by (simp add: cache_inv_def)
  then show ?thesis
    using assms
    by (auto simp: ch_ip_stack_domain_hint_def ch_ip_stack_dns_cache_lookup_def cache_inv_def Let_def le_Suc_eq
        dest: set_update_subset_insert [THEN subsetD] split: option.splits)
qed

lemma cache_inv_runs:
  "cache_inv n c \<Longrightarrow> n + length ops < 2 ^ 64 \<Longrightarrow> cache_inv (n + length ops) (fold run_cache ops c)"
proof (induction ops arbitrary: n c)
  case (Cons x xs)
  then have "cache_inv (Suc n) (run_cache x c)"
    by (cases x) (auto intro: cache_inv_store cache_inv_hint)
  then show ?case
    using Cons.IH [of "Suc n"] Cons.prems(2) by simp
qed simp

section \<open>Lifetimes\<close>





section \<open>Properties\<close>

text \<open>C22: A formatted endpoint parses back to the same address and port, for IPv4 and IPv6 and every port
  but zero; formatting never fails on a well-formed address.\<close>

theorem endpoint_round_trip:
  assumes "address_ok f a" "0 < port" "port \<le> 65535"
  shows "\<exists>endpoint. ch_ip_stack_format_endpoint f a port = Some endpoint \<and>
    ch_ip_stack_parse_endpoint (Some endpoint) f = Some (a, port)"
proof -
  obtain endpoint where e: "ch_ip_stack_format_endpoint f a port = Some endpoint"
    using format_endpoint_defined assms by blast
  have "int port \<le> ulong_max"
    using assms(3) by (simp add: ulong_max_def)
  then have "ch_ip_stack_parse_endpoint (Some endpoint) f = Some (a, port)"
    using endpoint_parts_format [OF e assms(1)] inet_ntop_length [OF assms(1)] inet_ntop_nonempty [OF assms(1)]
      inet_ntop_round_trip [OF assms(1)] assms(2,3)
    by (simp add: ch_ip_stack_parse_endpoint_def strtoul_dec_nat)
  with e show ?thesis by blast
qed

theorem endpoint_round_trip_witness:
  "\<exists>endpoint. ch_ip_stack_format_endpoint AF_INET6 (replicate 15 0 @ [1]) 443 = Some endpoint \<and>
    ch_ip_stack_parse_endpoint (Some endpoint) AF_INET6 = Some (replicate 15 0 @ [1], 443)"
  by (rule endpoint_round_trip) (simp_all add: address_ok_def ch_ip_stack_address_length_def)

text \<open>C21: A name written into a message is read back in lower case with the offset behind it, and a
  compression pointer to it, from anywhere in the message, reads the same name and ends behind the
  pointer.\<close>

theorem dns_name_round_trip:
  assumes "ls \<noteq> []" "\<forall>l \<in> set ls. label_ok l" "length (join_with (CHR ''.'') ls) < 256" "length ls < 127"
    and "length pre < 16384"
    and "m = pre @ wire_name ls @ mid @ [word_of_nat (192 + length pre div 256), word_of_nat (length pre mod 256)] @ post"
  shows "ch_ip_stack_dns_read_name m (length pre) =
      Some (lower (join_with (CHR ''.'') ls), length pre + length (wire_name ls)) \<and>
    ch_ip_stack_dns_read_name m (length (pre @ wire_name ls @ mid)) =
      Some (lower (join_with (CHR ''.'') ls), length (pre @ wire_name ls @ mid) + 2)"
proof -
  have at: "drop (length pre) m = wire_name ls @
      (mid @ [word_of_nat (192 + length pre div 256), word_of_nat (length pre mod 256)] @ post)"
    by (simp add: assms(6))
  have name: "foldl add_label [] ls = lower (join_with (CHR ''.'') ls)"
    by (rule foldl_add_label) (use assms in auto)
  have loop: "dns_name_loop steps m (length pre) nxt [] jumped =
      Some (lower (join_with (CHR ''.'') ls), if jumped then nxt else length pre + length (wire_name ls))"
    if "length ls < steps" for steps nxt jumped
    using dns_name_loop_wire [OF at assms(2) that, of "[]" nxt jumped] assms(1,3) name
    by (simp del: dns_name_loop.simps)
  let ?o = "length (pre @ wire_name ls @ mid)"
  have "unat (word_of_nat (192 + length pre div 256) :: byte) = 192 + length pre div 256"
    by (rule unat_byte_of_nat) (use assms(5) in linarith)
  moreover have d: "drop ?o m = word_of_nat (192 + length pre div 256) # word_of_nat (length pre mod 256) # post"
    by (simp only: assms(6) append.assoc [symmetric]) (simp del: of_nat_add)
  then have "m ! ?o = word_of_nat (192 + length pre div 256)"
    by (rule nth_via_drop)
  moreover have "drop (?o + 1) m = word_of_nat (length pre mod 256) # post"
    using arg_cong [OF d, of tl] by (simp only: Suc_eq_plus1 [symmetric] drop_Suc tl_drop list.sel)
  then have "m ! (?o + 1) = word_of_nat (length pre mod 256)"
    by (rule nth_via_drop)
  moreover have "?o + 1 < length m"
    by (simp add: assms(6))
  ultimately have ptr: "unat (m ! ?o) = 192 + length pre div 256" "unat (m ! (?o + 1)) = length pre mod 256" "?o + 1 < length m"
    by simp_all
  have mods: "(192 + length pre div 256) mod 64 * 256 + length pre mod 256 = length pre"
  proof -
    have "length pre div 256 < 64"
      by (rule less_mult_imp_div_less) (use assms(5) in simp)
    then have "(192 + length pre div 256) mod 64 = length pre div 256"
      using mod_mult_self1 [of "length pre div 256" 3 64] by (simp add: add.commute)
    then show ?thesis
      by (simp only: div_mult_mod_eq)
  qed
  have "dns_name_loop (Suc 127) m ?o ?o [] False = dns_name_loop 127 m (length pre) (?o + 2) [] True"
    unfolding dns_name_loop.simps(2) Let_def ptr(1,2) mods using ptr(3) by simp
  then show ?thesis
    using loop [of 128 "length pre" False] loop [of 127 "?o + 2" True] assms(4)
    by (simp add: ch_ip_stack_dns_read_name_def del: dns_name_loop.simps)
qed

theorem dns_name_round_trip_witness:
  "ch_ip_stack_dns_read_name (replicate 12 0 @ wire_name [''Www'', ''example''] @ [0xC0, 12]) 12 = Some (''www.example'', 25) \<and>
   ch_ip_stack_dns_read_name (replicate 12 0 @ wire_name [''Www'', ''example''] @ [0xC0, 12]) 25 = Some (''www.example'', 27)"
proof -
  have len: "length (wire_name [''Www'', ''example'']) = 13" and low: "lower ''Www.example'' = ''www.example''"
    by code_simp+
  show ?thesis
    using dns_name_round_trip [of "[''Www'', ''example'']" "replicate 12 0" "replicate 12 0 @ wire_name [''Www'', ''example''] @ [0xC0, 12]" "[]" "[]"]
    by (simp add: label_ok_def len low)
qed

text \<open>Reading a name never answers an offset outside the message: it ends behind where it started and at
  most at the end, and the name has between 1 and 255 characters, whatever bytes the message holds.\<close>

theorem dns_name_in_bounds:
  assumes "ch_ip_stack_dns_read_name m offset = Some (name, after)"
  shows "0 < length name \<and> length name < 256 \<and> offset < after \<and> after \<le> length m"
  using dns_name_loop_bounds [of 128 m offset offset "[]" False name after offset] assms
  by (simp add: ch_ip_stack_dns_read_name_def del: dns_name_loop.simps)

theorem dns_name_in_bounds_witness:
  "ch_ip_stack_dns_read_name [1, 97, 0, 7] 0 = Some (''a'', 3) \<and> (3::nat) \<le> length [1, 97, 0, 7 :: byte]"
proof -
  have "ch_ip_stack_dns_read_name [1, 97, 0, 7] 0 = Some (''a'', 3)"
    by code_simp
  with dns_name_in_bounds [OF this] show ?thesis
    by simp
qed

text \<open>C24: The cache never holds more than one entry.  The search for a slot starts with the largest sequence
  number as the oldest, so every live entry for another address is taken for the oldest and overwritten;
  the capacity of 1024 entries is never used.\<close>

theorem dns_cache_single_entry:
  assumes "length ops < 2 ^ 64"
  shows "length (dc_entries (fold run_cache ops empty_cache)) \<le> 1"
  using cache_inv_runs [of 0 empty_cache ops] assms by (simp add: cache_inv_def empty_cache_def)

theorem dns_cache_single_entry_witness:
  "length (dc_entries (fold run_cache [Store_Name 0 AF_INET [1, 1, 1, 1] ''one.example'' 60,
     Store_Name 1 AF_INET [2, 2, 2, 2] ''two.example'' 60] empty_cache)) \<le> 1"
  by (rule dns_cache_single_entry) simp



end
