(* ===== verification/Tcp_Relay.thy ===== *)
theory Tcp_Relay
  imports Dns_Cache "HOL-Library.Sublist"
begin

text \<open>
  One TCP flow of \<^verbatim>\<open>src/native/src/ip_stack.c\<close> after its creation: the byte queues, the callbacks that lwIP
  runs for the client's connection, and the tick that moves bytes between the client and the dialled
  socket.  What an operation does to its surroundings is the list of its \<open>effect\<close>s in order.  The results
  of lwIP and of the socket calls are arguments: a tick gets the list of results that successive \<^verbatim>\<open>send\<close>
  and \<^verbatim>\<open>recv\<close> calls give, and a call behind the end of the list would block.  A descriptor is \<^term>\<open>None\<close>
  for -1; an open one carries whether \<^verbatim>\<open>shutdown\<close> has closed its sending side, after which \<^verbatim>\<open>send\<close> fails.
  A buffer is the list of its bytes, so its capacity is the length of the list.
\<close>

section \<open>Flows and effects\<close>

datatype err_t = ERR_OK | ERR_MEM | ERR_BUF | ERR_ABRT | ERR_USE | ERR_ARG | ERR_OTHER

record ch_ip_stack_tcp_flow =
  tf_listener :: bool
  tf_client :: bool
  tf_descriptor :: "bool option"
  tf_source_address :: "byte list"
  tf_target_address :: "byte list"
  tf_address_family :: family
  tf_source_port :: nat
  tf_target_port :: nat
  tf_internal_port :: nat
  tf_created_at :: "32 word"
  tf_domain_hint :: string
  tf_pending :: "byte list"
  tf_pending_offset :: nat
  tf_pending_length :: nat
  tf_remote_pending :: "byte list"
  tf_remote_pending_length :: nat
  tf_client_eof :: bool
  tf_remote_eof :: bool
  tf_dead :: bool
  tf_flow_id :: nat
  tf_close_observed :: bool

datatype effect =
    From_Client "byte list"
  | To_Remote "byte list"
  | From_Remote "byte list"
  | To_Client "byte list"
  | Flow_Bytes nat nat nat
  | Flow_Close nat string
  | Write_Shut
  | Descriptor_Closed
  | Client_Shut
  | Client_Aborted
  | Client_Closed
  | Packet_Written "byte list"
  | Datagram_Sent nat string "byte list"
  | Connection_Closed nat

text \<open>Which of the two optional observers of the stack are set.\<close>

record observers =
  ob_bytes :: bool
  ob_close :: bool

text \<open>An operation gives the new flow, the effects, and whether the caller goes on.\<close>

type_synonym moved = "ch_ip_stack_tcp_flow \<times> effect list \<times> bool"

fun proceed :: "moved \<Rightarrow> (ch_ip_stack_tcp_flow \<Rightarrow> moved) \<Rightarrow> moved" where
  "proceed (f, es, go) k = (if go then (case k f of (f, es', go) \<Rightarrow> (f, es @ es', go)) else (f, es, False))"

section \<open>Buffers\<close>

text \<open>Growing by doubling up to a limit; \<^term>\<open>None\<close> when the limit is too small.\<close>

function grow :: "nat \<Rightarrow> nat \<Rightarrow> nat \<Rightarrow> nat option" where
  "grow limit grown needed =
     (if needed \<le> grown then Some grown
      else
        let next = (if limit div 2 < grown then limit else grown * 2)
        in if next = grown then None else grow limit next needed)"
  by auto

termination
  by (relation "measure (\<lambda>(limit, grown, needed). if grown \<le> limit then limit - grown else limit + 1)")
    (auto split: if_splits)

declare grow.simps [simp del]

text \<open>\<^verbatim>\<open>realloc\<close>: the new tail is uninitialised, \<open>junk\<close> says what it holds.\<close>

definition realloc :: "(nat \<Rightarrow> byte) \<Rightarrow> byte list \<Rightarrow> nat \<Rightarrow> byte list" where
  "realloc junk buffer n = take n buffer @ map junk [length buffer..<n]"

definition regrow :: "(nat \<Rightarrow> byte) \<Rightarrow> byte list \<Rightarrow> nat \<Rightarrow> nat \<Rightarrow> nat \<Rightarrow> byte list" where
  "regrow junk buffer offset len grown =
     (let next = realloc junk buffer grown
      in if 0 < offset \<and> 0 < len then put next 0 (sub_bytes next offset len) else next)"

text \<open>\<^verbatim>\<open>CH_IP_STACK_TCP_QUEUE_LIMIT - amount\<close> in \<^verbatim>\<open>size_t\<close>.\<close>

definition queue_room :: "nat \<Rightarrow> nat" where
  "queue_room amount = (1048576 + 2 ^ 64 - amount) mod 2 ^ 64"

definition ch_ip_stack_buffer_reserve ::
  "(nat \<Rightarrow> byte) \<Rightarrow> byte list \<Rightarrow> nat \<Rightarrow> nat \<Rightarrow> nat \<Rightarrow> (byte list \<times> nat) option" where
  "ch_ip_stack_buffer_reserve junk buffer offset len amount =
     (let capacity = length buffer; needed = len + amount in
      if amount = 0 then Some (buffer, offset)
      else if queue_room amount < len then None
      else if offset \<le> capacity \<and> needed \<le> capacity - offset then Some (buffer, offset)
      else if 0 < offset \<and> 0 < len \<and> needed \<le> capacity then Some (put buffer 0 (sub_bytes buffer offset len), 0)
      else (case grow 1048576 (if capacity = 0 then 16384 else capacity) needed of
          None \<Rightarrow> None
        | Some grown \<Rightarrow> Some (regrow junk buffer offset len grown, 0)))"

section \<open>Observers and closing\<close>

definition ch_ip_stack_observe_bytes :: "observers \<Rightarrow> nat \<Rightarrow> nat \<Rightarrow> nat \<Rightarrow> effect list" where
  "ch_ip_stack_observe_bytes ob flow_id rx tx =
     (if ob_bytes ob \<and> flow_id \<noteq> 0 \<and> (rx \<noteq> 0 \<or> tx \<noteq> 0) then [Flow_Bytes flow_id rx tx] else [])"

definition ch_ip_stack_tcp_observe_close ::
  "observers \<Rightarrow> string \<Rightarrow> ch_ip_stack_tcp_flow \<Rightarrow> ch_ip_stack_tcp_flow \<times> effect list" where
  "ch_ip_stack_tcp_observe_close ob reason f =
     (if tf_close_observed f then (f, [])
      else (f\<lparr>tf_close_observed := True\<rparr>,
            if ob_close ob \<and> tf_flow_id f \<noteq> 0 then [Flow_Close (tf_flow_id f) reason] else []))"

definition ch_ip_stack_tcp_close_descriptor ::
  "ch_ip_stack_tcp_flow \<Rightarrow> ch_ip_stack_tcp_flow \<times> effect list" where
  "ch_ip_stack_tcp_close_descriptor f =
     (if tf_descriptor f = None then (f, []) else (f\<lparr>tf_descriptor := None\<rparr>, [Descriptor_Closed]))"

definition ch_ip_stack_tcp_error ::
  "observers \<Rightarrow> ch_ip_stack_tcp_flow \<Rightarrow> ch_ip_stack_tcp_flow \<times> effect list" where
  "ch_ip_stack_tcp_error ob f =
     (case ch_ip_stack_tcp_observe_close ob ''TCP stack error'' (f\<lparr>tf_client := False, tf_dead := True\<rparr>) of
        (f, es) \<Rightarrow> (case ch_ip_stack_tcp_close_descriptor f of (f, es') \<Rightarrow> (f, es @ es')))"

text \<open>Aborting also aborts the connections lwIP has half open for the flow.\<close>

definition ch_ip_stack_tcp_flow_abort ::
  "observers \<Rightarrow> ch_ip_stack_tcp_flow \<Rightarrow> ch_ip_stack_tcp_flow \<times> effect list" where
  "ch_ip_stack_tcp_flow_abort ob f =
     (let aborted = (if tf_client f then [Client_Aborted] else [])
      in case ch_ip_stack_tcp_close_descriptor (f\<lparr>tf_listener := False, tf_client := False\<rparr>) of
        (f, es) \<Rightarrow>
          (case ch_ip_stack_tcp_observe_close ob ''TCP flow aborted'' (f\<lparr>tf_dead := True\<rparr>) of
             (f, es') \<Rightarrow> (f, aborted @ es @ es')))"

definition abort_tick :: "observers \<Rightarrow> ch_ip_stack_tcp_flow \<Rightarrow> moved" where
  "abort_tick ob f = (case ch_ip_stack_tcp_flow_abort ob f of (f, es) \<Rightarrow> (f, es, False))"

section \<open>Callbacks\<close>

text \<open>The packet is \<^term>\<open>None\<close> when the client has closed its side.  The callback's argument is NULL once the
  flow has let go of the connection.\<close>

definition ch_ip_stack_tcp_receive ::
  "(nat \<Rightarrow> byte) \<Rightarrow> byte list option \<Rightarrow> err_t \<Rightarrow> ch_ip_stack_tcp_flow option \<Rightarrow>
     ch_ip_stack_tcp_flow option \<times> effect list \<times> err_t" where
  "ch_ip_stack_tcp_receive junk packet error context =
     (case context of
        None \<Rightarrow> (None, [], if error = ERR_OK then ERR_ABRT else error)
      | Some f \<Rightarrow>
          if tf_dead f \<or> error \<noteq> ERR_OK then (Some f, [], if error = ERR_OK then ERR_ABRT else error)
          else (case packet of
              None \<Rightarrow>
                (Some (f\<lparr>tf_client_eof := True, tf_descriptor := map_option (\<lambda>_. True) (tf_descriptor f)\<rparr>),
                 if tf_descriptor f = None then [] else [Write_Shut], ERR_OK)
            | Some bytes \<Rightarrow>
                if bytes = [] then (Some f, [], ERR_OK)
                else
                  let queued = tf_pending_length f - tf_pending_offset f in
                  (case ch_ip_stack_buffer_reserve junk (tf_pending f) (tf_pending_offset f) queued (length bytes) of
                     None \<Rightarrow> (Some f, [], ERR_MEM)
                   | Some (buffer, offset) \<Rightarrow>
                       (Some (f\<lparr>tf_pending := put buffer (offset + queued) bytes, tf_pending_offset := offset,
                                tf_pending_length := offset + queued + length bytes\<rparr>),
                        [From_Client bytes], ERR_OK))))"

definition ch_ip_stack_tcp_poll :: "ch_ip_stack_tcp_flow option \<Rightarrow> err_t" where
  "ch_ip_stack_tcp_poll context =
     (case context of None \<Rightarrow> ERR_ABRT | Some f \<Rightarrow> if tf_dead f then ERR_ABRT else ERR_OK)"

text \<open>The dialer answers a status, a descriptor and a flow identifier for a target, a source and a hint.
  Aborting the accepted connection makes lwIP run the error callback, which is already installed.\<close>

type_synonym tcp_dialer = "string \<Rightarrow> string \<Rightarrow> string \<Rightarrow> ch_status \<times> int \<times> nat"

definition accept_endpoint :: "family \<Rightarrow> byte list \<Rightarrow> nat \<Rightarrow> string" where
  "accept_endpoint f address port =
     snprintf 56 (case f of
         AF_INET6 \<Rightarrow> ''['' @ inet_ntop f address @ '']:'' @ dec_nat port
       | AF_INET \<Rightarrow> inet_ntop f address @ '':'' @ dec_nat port)"

definition ch_ip_stack_tcp_accept ::
  "observers \<Rightarrow> tcp_dialer \<Rightarrow> bool \<Rightarrow> bool \<Rightarrow> err_t \<Rightarrow> ch_ip_stack_tcp_flow option \<Rightarrow>
     ch_ip_stack_tcp_flow option \<times> effect list \<times> err_t" where
  "ch_ip_stack_tcp_accept ob dialer nonblocking client error context =
     (case context of
        None \<Rightarrow> (None, if client then [Client_Aborted] else [], ERR_ABRT)
      | Some f \<Rightarrow>
          if tf_dead f \<or> \<not> client \<or> error \<noteq> ERR_OK
          then (Some f, if client then [Client_Aborted] else [], ERR_ABRT)
          else
            let f = f\<lparr>tf_client := True, tf_listener := False\<rparr>;
                target = accept_endpoint (tf_address_family f) (tf_target_address f) (tf_target_port f);
                source = accept_endpoint (tf_address_family f) (tf_source_address f) (tf_source_port f)
            in case dialer target source (tf_domain_hint f) of
                 (status, descriptor, flow_id) \<Rightarrow>
                   if status \<noteq> CH_OK \<or> descriptor < 0 \<or> \<not> nonblocking
                   then (case ch_ip_stack_tcp_error ob (f\<lparr>tf_dead := True\<rparr>) of
                       (f, es) \<Rightarrow> (Some f, Client_Aborted # es, ERR_ABRT))
                   else (Some (f\<lparr>tf_descriptor := Some False, tf_flow_id := flow_id\<rparr>), [], ERR_OK))"

section \<open>The tick\<close>

datatype send_result = Accepts nat | Send_Interrupted | Send_Blocks | Send_Fails

text \<open>\<^verbatim>\<open>send\<close> takes at most the bytes it is given, and fails once the sending side is shut down.\<close>

definition ch_ip_stack_send :: "bool option \<Rightarrow> send_result \<Rightarrow> nat \<Rightarrow> send_result" where
  "ch_ip_stack_send descriptor r len =
     (if descriptor \<noteq> Some False then Send_Fails
      else (case r of Accepts n \<Rightarrow> Accepts (min n len) | _ \<Rightarrow> r))"

fun send_loop :: "observers \<Rightarrow> send_result list \<Rightarrow> ch_ip_stack_tcp_flow \<Rightarrow> moved" where
  "send_loop ob [] f =
     (if tf_pending_offset f < tf_pending_length f \<and>
         ch_ip_stack_send (tf_descriptor f) Send_Blocks (tf_pending_length f - tf_pending_offset f) = Send_Fails
      then abort_tick ob f else (f, [], True))"
| "send_loop ob (r # rs) f =
     (if tf_pending_offset f < tf_pending_length f then
        (case ch_ip_stack_send (tf_descriptor f) r (tf_pending_length f - tf_pending_offset f) of
           Accepts written \<Rightarrow>
             if 0 < written then
               proceed (f\<lparr>tf_pending_offset := tf_pending_offset f + written\<rparr>,
                        To_Remote (sub_bytes (tf_pending f) (tf_pending_offset f) written) #
                          ch_ip_stack_observe_bytes ob (tf_flow_id f) 0 written, True)
                 (send_loop ob rs)
             else abort_tick ob f
         | Send_Interrupted \<Rightarrow> send_loop ob rs f
         | Send_Blocks \<Rightarrow> (f, [], True)
         | Send_Fails \<Rightarrow> abort_tick ob f)
      else (f, [], True))"

definition reset_pending :: "ch_ip_stack_tcp_flow \<Rightarrow> moved" where
  "reset_pending f =
     (if tf_pending_offset f = tf_pending_length f
      then f\<lparr>tf_pending_offset := 0, tf_pending_length := 0\<rparr> else f, [], True)"

text \<open>Bytes from the remote side that lwIP had no memory for go first; \<open>available\<close> is \<^verbatim>\<open>tcp_sndbuf\<close>.\<close>

definition flush_remote ::
  "observers \<Rightarrow> nat \<Rightarrow> err_t \<Rightarrow> err_t \<Rightarrow> ch_ip_stack_tcp_flow \<Rightarrow> moved" where
  "flush_remote ob available write output f =
     (let len = tf_remote_pending_length f; amount = min len available in
      if len = 0 then (f, [], True)
      else if available = 0 \<or> write = ERR_MEM then (f, [], False)
      else if write \<noteq> ERR_OK then abort_tick ob f
      else if output \<noteq> ERR_OK then proceed (f, [To_Client (take amount (tf_remote_pending f))], True) (abort_tick ob)
      else if amount < len then
        (f\<lparr>tf_remote_pending := put (tf_remote_pending f) 0 (sub_bytes (tf_remote_pending f) amount (len - amount)),
           tf_remote_pending_length := len - amount\<rparr>, [To_Client (take amount (tf_remote_pending f))], False)
      else (f\<lparr>tf_remote_pending_length := 0\<rparr>, [To_Client (take amount (tf_remote_pending f))], True))"

datatype recv_result = Delivers "byte list" | Recv_Interrupted | Recv_Blocks | Recv_Fails

record recv_step =
  rs_available :: nat
  rs_result :: recv_result
  rs_write :: err_t
  rs_output :: err_t
  rs_shutdown :: err_t

text \<open>The first number counts the attempts that are left; an interrupted call is not counted.\<close>

fun recv_loop ::
  "observers \<Rightarrow> (nat \<Rightarrow> byte) \<Rightarrow> nat \<Rightarrow> recv_step list \<Rightarrow> ch_ip_stack_tcp_flow \<Rightarrow> moved" where
  "recv_loop ob junk attempts [] f = (f, [], True)"
| "recv_loop ob junk attempts (r # rs) f =
     (if attempts = 0 \<or> tf_remote_eof f \<or> rs_available r = 0 then (f, [], True)
      else (case rs_result r of
          Delivers bytes \<Rightarrow>
            let bytes = take (min (rs_available r) 16384) bytes in
            if bytes = [] then
              (if rs_shutdown r \<noteq> ERR_OK then abort_tick ob (f\<lparr>tf_remote_eof := True\<rparr>)
               else (f\<lparr>tf_remote_eof := True\<rparr>, [Client_Shut], True))
            else if rs_write r = ERR_MEM then
              (case ch_ip_stack_buffer_reserve junk (tf_remote_pending f) 0 0 (length bytes) of
                 None \<Rightarrow> proceed (f, [From_Remote bytes], True) (abort_tick ob)
               | Some (buffer, _) \<Rightarrow>
                   (f\<lparr>tf_remote_pending := put buffer 0 bytes, tf_remote_pending_length := length bytes\<rparr>,
                    [From_Remote bytes], True))
            else if rs_write r \<noteq> ERR_OK then proceed (f, [From_Remote bytes], True) (abort_tick ob)
            else if rs_output r \<noteq> ERR_OK then proceed (f, [From_Remote bytes, To_Client bytes], True) (abort_tick ob)
            else
              proceed (f, From_Remote bytes # To_Client bytes #
                            ch_ip_stack_observe_bytes ob (tf_flow_id f) (length bytes) 0, True)
                (recv_loop ob junk (attempts - 1) rs)
        | Recv_Interrupted \<Rightarrow> recv_loop ob junk attempts rs f
        | Recv_Blocks \<Rightarrow> (f, [], True)
        | Recv_Fails \<Rightarrow> abort_tick ob f))"

definition close_finished :: "observers \<Rightarrow> err_t \<Rightarrow> ch_ip_stack_tcp_flow \<Rightarrow> moved" where
  "close_finished ob closed f =
     (if tf_client_eof f \<and> tf_remote_eof f \<and> tf_pending_length f = 0 \<and> tf_remote_pending_length f = 0 \<and>
         tf_client f \<and> closed = ERR_OK
      then (case ch_ip_stack_tcp_observe_close ob ''closed'' (f\<lparr>tf_client := False, tf_dead := True\<rparr>) of
          (f, es) \<Rightarrow>
            (case ch_ip_stack_tcp_close_descriptor f of (f, es') \<Rightarrow> (f, Client_Closed # es @ es', False)))
      else (f, [], True))"

record tick_results =
  tk_now :: "32 word"
  tk_sends :: "send_result list"
  tk_available :: nat
  tk_write :: err_t
  tk_output :: err_t
  tk_receives :: "recv_step list"
  tk_close :: err_t

text \<open>The tick of a connected flow, behind and including the send loop.\<close>

definition tick_rest :: "observers \<Rightarrow> (nat \<Rightarrow> byte) \<Rightarrow> tick_results \<Rightarrow> ch_ip_stack_tcp_flow \<Rightarrow> moved" where
  "tick_rest ob junk t f =
     proceed (proceed (proceed (reset_pending f)
       (flush_remote ob (tk_available t) (tk_write t) (tk_output t)))
       (recv_loop ob junk 4 (tk_receives t)))
       (close_finished ob (tk_close t))"

definition tick_connected ::
  "observers \<Rightarrow> (nat \<Rightarrow> byte) \<Rightarrow> tick_results \<Rightarrow> ch_ip_stack_tcp_flow \<Rightarrow> moved" where
  "tick_connected ob junk t f = proceed (send_loop ob (tk_sends t) f) (tick_rest ob junk t)"

definition ch_ip_stack_tcp_flow_tick ::
  "observers \<Rightarrow> (nat \<Rightarrow> byte) \<Rightarrow> tick_results \<Rightarrow> ch_ip_stack_tcp_flow \<Rightarrow> ch_ip_stack_tcp_flow \<times> effect list" where
  "ch_ip_stack_tcp_flow_tick ob junk t f =
     (if tf_dead f then (f, [])
      else if \<not> tf_client f \<and> 30000 \<le> unat (tk_now t - tf_created_at f) then ch_ip_stack_tcp_flow_abort ob f
      else if tf_descriptor f = None \<or> \<not> tf_client f then (f, [])
      else (case tick_connected ob junk t f of (f, es, _) \<Rightarrow> (f, es)))"

section \<open>Streams\<close>

text \<open>The bytes that pass each of the four ends, and the bytes that wait in the two queues.\<close>

fun from_client :: "effect list \<Rightarrow> byte list" where
  "from_client [] = []"
| "from_client (From_Client bs # es) = bs @ from_client es"
| "from_client (_ # es) = from_client es"

fun to_remote :: "effect list \<Rightarrow> byte list" where
  "to_remote [] = []"
| "to_remote (To_Remote bs # es) = bs @ to_remote es"
| "to_remote (_ # es) = to_remote es"

fun from_remote :: "effect list \<Rightarrow> byte list" where
  "from_remote [] = []"
| "from_remote (From_Remote bs # es) = bs @ from_remote es"
| "from_remote (_ # es) = from_remote es"

fun to_client :: "effect list \<Rightarrow> byte list" where
  "to_client [] = []"
| "to_client (To_Client bs # es) = bs @ to_client es"
| "to_client (_ # es) = to_client es"

definition queue :: "ch_ip_stack_tcp_flow \<Rightarrow> byte list" where
  "queue f = sub_bytes (tf_pending f) (tf_pending_offset f) (tf_pending_length f - tf_pending_offset f)"

definition remote_queue :: "ch_ip_stack_tcp_flow \<Rightarrow> byte list" where
  "remote_queue f = take (tf_remote_pending_length f) (tf_remote_pending f)"

definition flow_inv :: "ch_ip_stack_tcp_flow \<Rightarrow> bool" where
  "flow_inv f \<longleftrightarrow> tf_pending_offset f \<le> tf_pending_length f \<and> tf_pending_length f \<le> length (tf_pending f) \<and>
     length (tf_pending f) \<le> 1048576 \<and>
     tf_remote_pending_length f \<le> length (tf_remote_pending f) \<and> length (tf_remote_pending f) \<le> 1048576"

named_theorems streams \<open>what effects contribute to the four streams\<close>

lemma from_client_append [streams, simp]: "from_client (es @ es') = from_client es @ from_client es'"
  by (induction es rule: from_client.induct) auto

lemma to_remote_append [streams, simp]: "to_remote (es @ es') = to_remote es @ to_remote es'"
  by (induction es rule: to_remote.induct) auto

lemma from_remote_append [streams, simp]: "from_remote (es @ es') = from_remote es @ from_remote es'"
  by (induction es rule: from_remote.induct) auto

lemma to_client_append [streams, simp]: "to_client (es @ es') = to_client es @ to_client es'"
  by (induction es rule: to_client.induct) auto

text \<open>Effects that move no bytes.\<close>

definition quiet :: "effect list \<Rightarrow> bool" where
  "quiet es \<longleftrightarrow> from_client es = [] \<and> to_remote es = [] \<and> from_remote es = [] \<and> to_client es = []"

lemma quiet_observe [simp]:
  "from_client (ch_ip_stack_observe_bytes ob i rx tx) = []" "to_remote (ch_ip_stack_observe_bytes ob i rx tx) = []"
  "from_remote (ch_ip_stack_observe_bytes ob i rx tx) = []" "to_client (ch_ip_stack_observe_bytes ob i rx tx) = []"
  by (simp_all add: ch_ip_stack_observe_bytes_def)

text \<open>Operations that only close things keep the queues.\<close>

definition same_queues :: "ch_ip_stack_tcp_flow \<Rightarrow> ch_ip_stack_tcp_flow \<Rightarrow> bool" where
  "same_queues f f' \<longleftrightarrow> tf_pending f' = tf_pending f \<and> tf_pending_offset f' = tf_pending_offset f \<and>
     tf_pending_length f' = tf_pending_length f \<and> tf_remote_pending f' = tf_remote_pending f \<and>
     tf_remote_pending_length f' = tf_remote_pending_length f"

lemma same_queues_streams:
  assumes "same_queues f f'"
  shows "queue f' = queue f" "remote_queue f' = remote_queue f" "flow_inv f' \<longleftrightarrow> flow_inv f"
  using assms by (simp_all add: same_queues_def queue_def remote_queue_def flow_inv_def)

lemmas closing_defs = ch_ip_stack_tcp_observe_close_def ch_ip_stack_tcp_close_descriptor_def

lemma flow_abort_closes:
  assumes "ch_ip_stack_tcp_flow_abort ob f = (f', es)"
  shows "tf_dead f' \<and> quiet es \<and> same_queues f f'"
  using assms
  by (auto simp: ch_ip_stack_tcp_flow_abort_def closing_defs quiet_def same_queues_def split: if_splits)

lemma tcp_error_closes:
  assumes "ch_ip_stack_tcp_error ob f = (f', es)"
  shows "tf_dead f' \<and> quiet es \<and> same_queues f f'"
  using assms
  by (auto simp: ch_ip_stack_tcp_error_def closing_defs quiet_def same_queues_def split: if_splits)

section \<open>Buffers keep their contents\<close>

lemma grow_bounds: "grow limit g n = Some r \<Longrightarrow> g \<le> limit \<Longrightarrow> n \<le> r \<and> g \<le> r \<and> r \<le> limit"
proof (induction limit g n rule: grow.induct)
  case (1 limit g n)
  show ?case
    using "1.prems" "1.IH" by (subst (asm) (1) grow.simps) (fastforce simp: Let_def split: if_splits)
qed

lemma grow_succeeds: "0 < g \<Longrightarrow> g \<le> limit \<Longrightarrow> n \<le> limit \<Longrightarrow> \<exists>r. grow limit g n = Some r"
proof (induction limit g n rule: grow.induct)
  case (1 limit g n)
  then show ?case
    by (subst grow.simps) (auto simp: Let_def)
qed

lemma length_realloc: "length buffer \<le> n \<Longrightarrow> length (realloc junk buffer n) = n"
  by (simp add: realloc_def)

lemma sub_bytes_realloc:
  "i + n \<le> length buffer \<Longrightarrow> length buffer \<le> m \<Longrightarrow> sub_bytes (realloc junk buffer m) i n = sub_bytes buffer i n"
  by (simp add: realloc_def sub_bytes_def)

lemma length_sub_bytes [simp]: "i + n \<le> length b \<Longrightarrow> length (sub_bytes b i n) = n"
  by (simp add: sub_bytes_def)

lemma sub_bytes_empty [simp]: "sub_bytes b i 0 = []"
  by (simp add: sub_bytes_def)

lemma buffer_reserve_cases:
  assumes "ch_ip_stack_buffer_reserve junk b i n amount = Some (b', i')" "i + n \<le> length b"
  obtains (fits) "b' = b" "i' = i" "i + n + amount \<le> length b"
    | (moved) "b' = put b 0 (sub_bytes b i n)" "i' = 0" "n + amount \<le> length b"
    | (grown) g where "grow 1048576 (if length b = 0 then 16384 else length b) (n + amount) = Some g"
        "b' = regrow junk b i n g" "i' = 0"
proof (cases "amount = 0 \<or> i \<le> length b \<and> n + amount \<le> length b - i")
  case True
  with assms show ?thesis
    by (intro fits) (auto simp: ch_ip_stack_buffer_reserve_def Let_def split: if_split_asm)
next
  case no_room: False
  show ?thesis
  proof (cases "0 < i \<and> 0 < n \<and> n + amount \<le> length b")
    case True
    with assms no_room show ?thesis
      by (intro moved) (auto simp: ch_ip_stack_buffer_reserve_def Let_def split: if_split_asm)
  next
    case False
    with no_room have "ch_ip_stack_buffer_reserve junk b i n amount =
        (if queue_room amount < n then None
         else case grow 1048576 (if length b = 0 then 16384 else length b) (n + amount) of
           None \<Rightarrow> None | Some g \<Rightarrow> Some (regrow junk b i n g, 0))"
      unfolding ch_ip_stack_buffer_reserve_def Let_def by (simp only: if_False simp_thms de_Morgan_disj)
    with assms(1) show ?thesis
      by (auto intro: grown split: if_split_asm option.split_asm)
  qed
qed

lemma buffer_reserve_keeps:
  assumes "ch_ip_stack_buffer_reserve junk b i n amount = Some (b', i')" "i + n \<le> length b" "length b \<le> 1048576"
  shows "sub_bytes b' i' n = sub_bytes b i n \<and> i' + n + amount \<le> length b' \<and> length b' \<le> 1048576"
  using assms(1,2)
proof (cases rule: buffer_reserve_cases)
  case (grown g)
  have g: "n + amount \<le> g" "length b \<le> g" "g \<le> 1048576"
    using grow_bounds [OF grown(1)] assms(3) by (cases "b = []"; simp)+
  have "i + n \<le> length (realloc junk b g)"
    using assms(2) g by (simp add: length_realloc)
  then show ?thesis
    using grown(2,3) assms(2) g
    by (auto simp: regrow_def Let_def sub_bytes_put' length_realloc sub_bytes_realloc)
qed (use assms in \<open>auto simp: sub_bytes_put'\<close>)

section \<open>Every step keeps the streams\<close>

text \<open>
  A step from one flow to the next keeps the order of the bytes: what went out followed by what is queued
  is what was queued followed by what came in.  Towards the client this holds while the flow lives; an
  abort may lose the bytes at hand.
\<close>

definition relays :: "(ch_ip_stack_tcp_flow \<Rightarrow> bool) \<Rightarrow> ch_ip_stack_tcp_flow \<Rightarrow> moved \<Rightarrow> bool" where
  "relays P f m \<longleftrightarrow> (case m of (f', es, go) \<Rightarrow>
     flow_inv f' \<and> to_remote es @ queue f' = queue f @ from_client es \<and>
     prefix (to_client es) (remote_queue f @ from_remote es) \<and>
     (\<not> tf_dead f' \<longrightarrow> to_client es @ remote_queue f' = remote_queue f @ from_remote es) \<and>
     (go \<longrightarrow> \<not> tf_dead f' \<and> P f'))"

lemma relays_proceed:
  assumes "relays P f m" "\<And>f'. flow_inv f' \<Longrightarrow> \<not> tf_dead f' \<Longrightarrow> P f' \<Longrightarrow> relays Q f' (k f')"
  shows "relays Q f (proceed m k)"
proof -
  obtain f' es go where m: "m = (f', es, go)"
    by (metis prod_cases3)
  obtain f'' es' go' where k: "k f' = (f'', es', go')"
    by (metis prod_cases3)
  show ?thesis
  proof (cases go)
    case True
    with assms(1) m have 1: "relays P f (f', es, True)"
      by simp
    then have 2: "relays Q f' (f'', es', go')"
      using assms(2) [of f'] k by (simp add: relays_def)
    from 1 have eqs: "remote_queue f @ from_remote es = to_client es @ remote_queue f'"
      "queue f @ from_client es = to_remote es @ queue f'"
      by (simp_all add: relays_def)
    have longer: "remote_queue f @ from_remote es @ from_remote es' = to_client es @ remote_queue f' @ from_remote es'"
      "queue f @ from_client es @ from_client es' = to_remote es @ queue f' @ from_client es'"
      using eqs by (metis append.assoc)+
    have "prefix (to_client es @ to_client es') (remote_queue f @ from_remote es @ from_remote es')"
      unfolding longer(1) using 2 by (simp add: relays_def)
    with 2 m k True eqs show ?thesis
      by (simp add: relays_def longer)
  qed (use assms(1) m in \<open>simp add: relays_def\<close>)
qed

lemma relays_stay: "flow_inv f \<Longrightarrow> \<not> tf_dead f \<Longrightarrow> (go \<longrightarrow> P f) \<Longrightarrow> relays P f (f, [], go)"
  by (simp add: relays_def)

lemma relays_closed:
  assumes "flow_inv f" "tf_dead f'" "quiet es" "same_queues f f'"
  shows "relays P f (f', es, False)"
  using assms same_queues_streams [OF assms(4)] by (simp add: relays_def quiet_def)

lemma relays_abort: "flow_inv f \<Longrightarrow> relays P f (abort_tick ob f)"
  by (auto simp: abort_tick_def intro!: relays_closed dest: flow_abort_closes split: prod.split)

lemma sub_bytes_split: "w \<le> n \<Longrightarrow> sub_bytes b i n = sub_bytes b i w @ sub_bytes b (i + w) (n - w)"
  unfolding sub_bytes_def by (metis add.commute drop_drop le_add_diff_inverse take_add)

lemma relays_send_loop: "flow_inv f \<Longrightarrow> \<not> tf_dead f \<Longrightarrow> relays (\<lambda>_. True) f (send_loop ob rs f)"
proof (induction rs arbitrary: f)
  case Nil
  then show ?case
    by (simp add: relays_stay relays_abort)
next
  case (Cons r rs)
  have sent: "relays (\<lambda>_. True) f (f\<lparr>tf_pending_offset := tf_pending_offset f + w\<rparr>,
      To_Remote (sub_bytes (tf_pending f) (tf_pending_offset f) w) # ch_ip_stack_observe_bytes ob i rx tx, True)"
    if "w \<le> tf_pending_length f - tf_pending_offset f" for w i rx tx
    using Cons.prems that sub_bytes_split [OF that, of "tf_pending f" "tf_pending_offset f"]
    by (auto simp: relays_def flow_inv_def queue_def remote_queue_def diff_diff_add)
  have accepts: "w \<le> tf_pending_length f - tf_pending_offset f"
    if "ch_ip_stack_send (tf_descriptor f) r (tf_pending_length f - tf_pending_offset f) = Accepts w" for w
    using that by (auto simp: ch_ip_stack_send_def split: if_splits send_result.splits)
  show ?case
    using Cons.prems
    by (auto intro!: relays_stay relays_abort relays_proceed [OF sent] Cons.IH accepts split: send_result.split
        simp del: proceed.simps)
qed

lemma relays_reset_pending:
  "flow_inv f \<Longrightarrow> \<not> tf_dead f \<Longrightarrow> relays (\<lambda>_. True) f (reset_pending f)"
  by (simp add: reset_pending_def relays_def flow_inv_def queue_def remote_queue_def)

lemma put_start: "length bs \<le> length b \<Longrightarrow> take (length bs) (put b 0 bs) = bs"
  by (simp add: put_def)

lemma relays_abort_after:
  assumes "flow_inv f" "prefix (to_client es) (remote_queue f @ from_remote es)" "to_remote es = []" "from_client es = []"
  shows "relays P f (proceed (f, es, True) (abort_tick ob))"
proof -
  obtain f' es' where abort: "ch_ip_stack_tcp_flow_abort ob f = (f', es')"
    by (cases "ch_ip_stack_tcp_flow_abort ob f")
  note closed = flow_abort_closes [OF abort]
  then show ?thesis
    using assms same_queues_streams [of f f'] abort by (simp add: abort_tick_def relays_def quiet_def)
qed

lemma relays_flush_remote:
  assumes "flow_inv f" "\<not> tf_dead f"
  shows "relays (\<lambda>f. tf_remote_pending_length f = 0) f (flush_remote ob available write output f)"
proof -
  let ?len = "tf_remote_pending_length f" and ?b = "tf_remote_pending f"
  let ?amount = "min ?len available"
  let ?rest = "sub_bytes ?b ?amount (?len - ?amount)"
  have rest: "take ?len ?b = take ?amount ?b @ ?rest"
    using sub_bytes_split [of ?amount ?len ?b 0] by (simp add: sub_bytes_def)
  have len: "length ?rest = ?len - ?amount" "?len - ?amount \<le> length ?b"
    using assms(1) by (auto simp: flow_inv_def)
  have kept: "take (?len - ?amount) (put ?b 0 ?rest) = ?rest"
    using put_start [of ?rest ?b] len by simp
  have some: "relays P f (f\<lparr>tf_remote_pending := put ?b 0 ?rest, tf_remote_pending_length := ?len - ?amount\<rparr>,
      [To_Client (take ?amount ?b)], False)" for P
    using assms rest kept len by (simp add: relays_def remote_queue_def queue_def flow_inv_def)
  have all: "relays (\<lambda>f. tf_remote_pending_length f = 0) f
      (f\<lparr>tf_remote_pending_length := 0\<rparr>, [To_Client (take ?amount ?b)], True)" if "\<not> ?amount < ?len"
    using assms that by (simp add: relays_def remote_queue_def queue_def flow_inv_def)
  have "relays P f (proceed (f, [To_Client (take ?amount ?b)], True) (abort_tick ob))" for P
    using assms rest by (intro relays_abort_after) (simp_all add: remote_queue_def)
  with some all show ?thesis
    using assms unfolding flush_remote_def Let_def by (auto intro: relays_stay relays_abort)
qed

lemma relays_stored:
  assumes "flow_inv f" "\<not> tf_dead f" "tf_remote_pending_length f = 0"
    "ch_ip_stack_buffer_reserve junk (tf_remote_pending f) 0 0 (length bs) = Some (buffer, i)"
  shows "relays (\<lambda>_. True) f
    (f\<lparr>tf_remote_pending := put buffer 0 bs, tf_remote_pending_length := length bs\<rparr>, [From_Remote bs], True)"
proof -
  have "length bs \<le> length buffer" "length buffer \<le> 1048576"
    using buffer_reserve_keeps [OF assms(4)] assms(1) by (simp_all add: flow_inv_def)
  then show ?thesis
    using assms(1-3) put_start [of bs buffer] by (simp add: relays_def flow_inv_def queue_def remote_queue_def)
qed

lemma relays_recv_loop:
  "flow_inv f \<Longrightarrow> \<not> tf_dead f \<Longrightarrow> tf_remote_pending_length f = 0 \<Longrightarrow>
    relays (\<lambda>_. True) f (recv_loop ob junk attempts rs f)"
proof (induction rs arbitrary: attempts)
  case Nil
  then show ?case
    by (simp add: relays_stay)
next
  case (Cons r rs)
  note f = Cons.prems
  have eof: "relays (\<lambda>_. True) f (abort_tick ob (f\<lparr>tf_remote_eof := True\<rparr>))"
    "relays (\<lambda>_. True) f (f\<lparr>tf_remote_eof := True\<rparr>, [Client_Shut], True)"
  proof -
    have same: "same_queues f (f\<lparr>tf_remote_eof := True\<rparr>)"
      by (simp add: same_queues_def)
    show "relays (\<lambda>_. True) f (f\<lparr>tf_remote_eof := True\<rparr>, [Client_Shut], True)"
      using f same_queues_streams [OF same] by (simp add: relays_def)
    show "relays (\<lambda>_. True) f (abort_tick ob (f\<lparr>tf_remote_eof := True\<rparr>))"
      using f relays_abort [of "f\<lparr>tf_remote_eof := True\<rparr>" "\<lambda>_. True" ob] same_queues_streams [OF same]
      by (simp add: relays_def)
  qed
  have lost: "relays (\<lambda>_. True) f (proceed (f, [From_Remote bs], True) (abort_tick ob))"
    "relays (\<lambda>_. True) f (proceed (f, [From_Remote bs, To_Client bs], True) (abort_tick ob))" for bs
    by (rule relays_abort_after; use f in \<open>simp add: remote_queue_def\<close>)+
  have moved: "relays (\<lambda>f'. f' = f) f
      (f, From_Remote bs # To_Client bs # ch_ip_stack_observe_bytes ob i n m, True)" for bs i n m
    using f by (simp add: relays_def remote_queue_def)
  have next_step: "relays (\<lambda>_. True) f (proceed (f, From_Remote bs # To_Client bs #
      ch_ip_stack_observe_bytes ob i n m, True) (recv_loop ob junk (attempts - 1) rs))" for bs i n m
    by (rule relays_proceed [OF moved]) (use f Cons.IH in simp)
  note branches = relays_stay relays_abort eof lost next_step relays_stored Cons.IH
  have "relays (\<lambda>_. True) f (recv_loop ob junk attempts (r # rs) f)" if "rs_result r = Delivers xs" for xs
  proof -
    define bs where "bs = take (min (rs_available r) 16384) xs"
    from f show ?thesis
      unfolding recv_loop.simps Let_def that recv_result.case bs_def [symmetric]
      by (auto intro!: branches split: option.split simp del: proceed.simps One_nat_def)
  qed
  then show ?case
    using f by (cases "rs_result r") (auto intro!: branches)
qed

lemma relays_close_finished:
  "flow_inv f \<Longrightarrow> \<not> tf_dead f \<Longrightarrow> relays (\<lambda>_. True) f (close_finished ob closed f)"
  by (auto simp: close_finished_def closing_defs relays_def queue_def remote_queue_def flow_inv_def)

lemma relays_tick_rest: "flow_inv f \<Longrightarrow> \<not> tf_dead f \<Longrightarrow> relays (\<lambda>_. True) f (tick_rest ob junk t f)"
  unfolding tick_rest_def
  by (intro relays_proceed [where P = "\<lambda>_. True"] relays_close_finished
      relays_proceed [where P = "\<lambda>f. tf_remote_pending_length f = 0"] relays_recv_loop relays_flush_remote
      relays_reset_pending)

lemma relays_tick_connected:
  "flow_inv f \<Longrightarrow> \<not> tf_dead f \<Longrightarrow> relays (\<lambda>_. True) f (tick_connected ob junk t f)"
  unfolding tick_connected_def by (intro relays_proceed [where P = "\<lambda>_. True"] relays_send_loop relays_tick_rest)

section \<open>A flow from its creation on\<close>

text \<open>The flow that \<^verbatim>\<open>ch_ip_stack_tcp_flow_create\<close> puts into the table.\<close>

definition new_tcp_flow ::
  "family \<Rightarrow> byte list \<Rightarrow> nat \<Rightarrow> byte list \<Rightarrow> nat \<Rightarrow> 32 word \<Rightarrow> string \<Rightarrow> nat \<Rightarrow> ch_ip_stack_tcp_flow" where
  "new_tcp_flow family source_address source_port target_address target_port now hint port =
     \<lparr>tf_listener = True, tf_client = False, tf_descriptor = None, tf_source_address = source_address,
      tf_target_address = target_address, tf_address_family = family, tf_source_port = source_port,
      tf_target_port = target_port, tf_internal_port = port, tf_created_at = now, tf_domain_hint = hint,
      tf_pending = [], tf_pending_offset = 0, tf_pending_length = 0, tf_remote_pending = [],
      tf_remote_pending_length = 0, tf_client_eof = False, tf_remote_eof = False, tf_dead = False,
      tf_flow_id = 0, tf_close_observed = False\<rparr>"

text \<open>What can happen to a flow, in any order.\<close>

datatype relay_op =
    Accept tcp_dialer bool bool err_t
  | Receive "byte list option" err_t
  | Stack_Error
  | Tick tick_results

fun run_relay ::
  "observers \<Rightarrow> (nat \<Rightarrow> byte) \<Rightarrow> relay_op \<Rightarrow> ch_ip_stack_tcp_flow \<Rightarrow> ch_ip_stack_tcp_flow \<times> effect list" where
  "run_relay ob junk (Accept dialer nonblocking client error) f =
     (case ch_ip_stack_tcp_accept ob dialer nonblocking client error (Some f) of (c, es, _) \<Rightarrow> (the c, es))"
| "run_relay ob junk (Receive packet error) f =
     (case ch_ip_stack_tcp_receive junk packet error (Some f) of (c, es, _) \<Rightarrow> (the c, es))"
| "run_relay ob junk Stack_Error f = ch_ip_stack_tcp_error ob f"
| "run_relay ob junk (Tick t) f = ch_ip_stack_tcp_flow_tick ob junk t f"

fun run_relays ::
  "observers \<Rightarrow> (nat \<Rightarrow> byte) \<Rightarrow> relay_op list \<Rightarrow> ch_ip_stack_tcp_flow \<Rightarrow> ch_ip_stack_tcp_flow \<times> effect list" where
  "run_relays ob junk [] f = (f, [])"
| "run_relays ob junk (a # ops) f =
     (case run_relay ob junk a f of (f, es) \<Rightarrow> (case run_relays ob junk ops f of (f, es') \<Rightarrow> (f, es @ es')))"

lemma relays_forget: "relays P f (f', es, go) \<Longrightarrow> relays (\<lambda>_. True) f (f', es, \<not> tf_dead f')"
  by (simp add: relays_def)

lemma relays_receive:
  assumes "flow_inv f" "\<not> tf_dead f" "ch_ip_stack_tcp_receive junk packet error (Some f) = (c, es, e)"
  shows "relays (\<lambda>_. True) f (the c, es, \<not> tf_dead (the c))"
proof (cases "error = ERR_OK \<and> packet \<noteq> None \<and> packet \<noteq> Some []")
  case False
  with assms show ?thesis
    by (cases packet)
      (auto simp: ch_ip_stack_tcp_receive_def relays_def queue_def remote_queue_def flow_inv_def split: if_splits)
next
  case True
  then obtain bs where bs: "packet = Some bs" "bs \<noteq> []" "error = ERR_OK"
    by auto
  let ?q = "tf_pending_length f - tf_pending_offset f"
  show ?thesis
  proof (cases "ch_ip_stack_buffer_reserve junk (tf_pending f) (tf_pending_offset f) ?q (length bs)")
    case None
    with assms bs show ?thesis
      by (auto simp: ch_ip_stack_tcp_receive_def Let_def intro!: relays_stay)
  next
    case (Some r)
    obtain b i where r: "r = (b, i)"
      by (cases r)
    have kept: "sub_bytes b i ?q = queue f" "i + ?q + length bs \<le> length b" "length b \<le> 1048576"
      using buffer_reserve_keeps [OF Some [unfolded r]] assms(1) by (auto simp: flow_inv_def queue_def)
    have "sub_bytes (put b (i + ?q) bs) i (?q + length bs) = queue f @ bs"
      using kept sub_bytes_split [of ?q "?q + length bs" "put b (i + ?q) bs" i]
      by (simp add: sub_bytes_put' sub_bytes_put_other)
    then show ?thesis
      using assms bs Some r kept
      by (auto simp: ch_ip_stack_tcp_receive_def Let_def relays_def flow_inv_def queue_def remote_queue_def add.assoc)
  qed
qed

lemma relays_accept:
  assumes "flow_inv f" "\<not> tf_dead f" "ch_ip_stack_tcp_accept ob dialer nb client error (Some f) = (c, es, e)"
  shows "relays (\<lambda>_. True) f (the c, es, \<not> tf_dead (the c))"
proof -
  have step: "relays (\<lambda>_. True) f (f', es, \<not> tf_dead f')" if "quiet es" "same_queues f f'" for f' es
    using assms(1) that same_queues_streams [OF that(2)] by (simp add: relays_def quiet_def)
  have "quiet es \<and> same_queues f (the c)"
    using assms(2,3)
    by (auto simp: ch_ip_stack_tcp_accept_def Let_def quiet_def same_queues_def
        dest!: tcp_error_closes split: if_splits prod.splits)
  then show ?thesis
    using step by blast
qed

lemma relay_op_relays:
  assumes "flow_inv f" "\<not> tf_dead f" "run_relay ob junk a f = (f', es)"
  shows "relays (\<lambda>_. True) f (f', es, \<not> tf_dead f')"
proof (cases a)
  case (Accept dialer nonblocking client error)
  with assms show ?thesis
    using relays_accept [OF assms(1,2)] by (auto split: prod.splits)
next
  case (Receive packet error)
  with assms show ?thesis
    using relays_receive [OF assms(1,2)] by (auto split: prod.splits)
next
  case Stack_Error
  with assms show ?thesis
    using relays_closed [of f f' es "\<lambda>_. True"] tcp_error_closes [of ob f f' es] by (auto dest: relays_forget)
next
  case (Tick t)
  have "relays (\<lambda>_. True) f (f', es, False)" if "ch_ip_stack_tcp_flow_abort ob f = (f', es)"
    using flow_abort_closes [OF that] relays_closed assms(1) by blast
  moreover have "relays (\<lambda>_. True) f (f', es, go)" if "tick_connected ob junk t f = (f', es, go)" for go
    using relays_tick_connected [OF assms(1,2), of ob junk t] that by simp
  ultimately show ?thesis
    using Tick assms relays_stay [OF assms(1,2)]
    by (auto simp: ch_ip_stack_tcp_flow_tick_def split: if_splits prod.splits intro: relays_forget)
qed

text \<open>Nothing happens any more to a dead flow, except that it is closed again.\<close>

lemma dead_stays:
  assumes "tf_dead f" "run_relay ob junk a f = (f', es)"
  shows "tf_dead f' \<and> quiet es \<and> same_queues f f'"
proof (cases a)
  case Stack_Error
  with assms tcp_error_closes show ?thesis
    by auto
qed (use assms in \<open>auto simp: ch_ip_stack_tcp_accept_def ch_ip_stack_tcp_receive_def
       ch_ip_stack_tcp_flow_tick_def quiet_def same_queues_def\<close>)

lemma dead_runs:
  "tf_dead f \<Longrightarrow> run_relays ob junk ops f = (f', es) \<Longrightarrow> tf_dead f' \<and> quiet es \<and> same_queues f f'"
proof (induction ops arbitrary: f es)
  case Nil
  then show ?case
    by (simp add: quiet_def same_queues_def)
next
  case (Cons a ops)
  obtain f1 es1 es2 where run: "run_relay ob junk a f = (f1, es1)" "run_relays ob junk ops f1 = (f', es2)" "es = es1 @ es2"
    using Cons.prems(2) by (auto split: prod.splits)
  with dead_stays [OF Cons.prems(1) run(1)] Cons.IH [of f1 es2] show ?case
    by (simp add: quiet_def same_queues_def)
qed

lemma relays_runs:
  "flow_inv f \<Longrightarrow> \<not> tf_dead f \<Longrightarrow> run_relays ob junk ops f = (f', es) \<Longrightarrow>
    relays (\<lambda>_. True) f (f', es, \<not> tf_dead f')"
proof (induction ops arbitrary: f es)
  case Nil
  then show ?case
    by (auto intro: relays_stay)
next
  case (Cons a ops)
  obtain f1 es1 es2 where run: "run_relay ob junk a f = (f1, es1)" "run_relays ob junk ops f1 = (f', es2)" "es = es1 @ es2"
    using Cons.prems(3) by (auto split: prod.splits)
  have first: "relays (\<lambda>_. True) f (f1, es1, \<not> tf_dead f1)"
    by (rule relay_op_relays [OF Cons.prems(1,2) run(1)])
  show ?case
  proof (cases "tf_dead f1")
    case True
    have closed: "tf_dead f'" "quiet es2" "same_queues f1 f'"
      using dead_runs [OF True run(2)] by simp_all
    then show ?thesis
      using first True run(3) same_queues_streams [OF closed(3)] by (simp add: relays_def quiet_def)
  next
    case False
    have "relays (\<lambda>_. True) f (proceed (f1, es1, \<not> tf_dead f1) (\<lambda>f. (f', es2, \<not> tf_dead f')))"
      by (rule relays_proceed [where P = "\<lambda>f. f = f1"])
        (use first False Cons.IH [OF _ _ run(2)] in \<open>auto simp: relays_def\<close>)
    with False run(3) show ?thesis
      by simp
  qed
qed

text \<open>Reserving succeeds as long as the bytes fit under the limit of one megabyte.\<close>

lemma buffer_reserve_succeeds:
  assumes "n + amount \<le> 1048576" "length b \<le> 1048576"
  shows "\<exists>b' i'. ch_ip_stack_buffer_reserve junk b i n amount = Some (b', i')"
proof -
  have "1048576 + 2 ^ 64 - amount = (1048576 - amount) + 2 ^ 64"
    using assms(1) by simp
  then have "n \<le> queue_room amount"
    using assms(1) unfolding queue_room_def by (simp only: mod_add_self2) simp
  moreover obtain g where "grow 1048576 (if length b = 0 then 16384 else length b) (n + amount) = Some g"
    using grow_succeeds [of "if length b = 0 then 16384 else length b" 1048576 "n + amount"] assms
    by (cases "b = []") auto
  ultimately show ?thesis
    by (simp add: ch_ip_stack_buffer_reserve_def Let_def)
qed

lemma receive_accepts:
  assumes "flow_inv f" "\<not> tf_dead f" "bs \<noteq> []" "length (queue f) + length bs \<le> 1048576"
  obtains b i where "ch_ip_stack_tcp_receive junk (Some bs) ERR_OK (Some f) =
    (Some (f\<lparr>tf_pending := b, tf_pending_offset := i, tf_pending_length := i + length (queue f) + length bs\<rparr>),
     [From_Client bs], ERR_OK)"
proof -
  have len: "length (queue f) = tf_pending_length f - tf_pending_offset f"
    using assms(1) by (simp add: queue_def flow_inv_def)
  obtain b i where "ch_ip_stack_buffer_reserve junk (tf_pending f) (tf_pending_offset f)
      (tf_pending_length f - tf_pending_offset f) (length bs) = Some (b, i)"
    using buffer_reserve_succeeds [of "tf_pending_length f - tf_pending_offset f" "length bs" "tf_pending f"] assms len
    by (fastforce simp: flow_inv_def)
  with assms(2,3) len show ?thesis
    by (intro that) (simp add: ch_ip_stack_tcp_receive_def Let_def)
qed

text \<open>After the sending side is shut down the first attempt to send aborts the flow.\<close>

lemma send_loop_shut:
  "tf_descriptor f = Some True \<Longrightarrow> tf_pending_offset f < tf_pending_length f \<Longrightarrow> send_loop ob rs f = abort_tick ob f"
  by (cases rs) (simp_all add: ch_ip_stack_send_def)

lemma tick_shut:
  assumes "tf_descriptor f = Some True" "tf_pending_offset f < tf_pending_length f" "\<not> tf_dead f" "tf_client f"
  shows "ch_ip_stack_tcp_flow_tick ob junk t f = ch_ip_stack_tcp_flow_abort ob f"
  using assms
  by (simp add: ch_ip_stack_tcp_flow_tick_def tick_connected_def send_loop_shut abort_tick_def split: prod.split)

definition rx_observed :: "effect list \<Rightarrow> nat" where
  "rx_observed es = sum_list (map (\<lambda>e. case e of Flow_Bytes _ rx _ \<Rightarrow> rx | _ \<Rightarrow> 0) es)"

section \<open>Draining the queue\<close>

fun takes_bytes :: "send_result \<Rightarrow> bool" where
  "takes_bytes (Accepts n) \<longleftrightarrow> 0 < n"
| "takes_bytes Send_Interrupted \<longleftrightarrow> True"
| "takes_bytes _ \<longleftrightarrow> False"

fun accepted :: "send_result list \<Rightarrow> nat" where
  "accepted [] = 0"
| "accepted (Accepts n # rs) = n + accepted rs"
| "accepted (_ # rs) = accepted rs"

lemma send_loop_drains:
  "flow_inv f \<Longrightarrow> \<not> tf_dead f \<Longrightarrow> tf_descriptor f = Some False \<Longrightarrow> list_all takes_bytes rs \<Longrightarrow>
    length (queue f) \<le> accepted rs \<Longrightarrow>
    \<exists>f' es. send_loop ob rs f = (f', es, True) \<and> to_remote es = queue f \<and> queue f' = [] \<and> flow_inv f' \<and> \<not> tf_dead f'"
proof (induction rs arbitrary: f)
  case Nil
  then have "\<not> tf_pending_offset f < tf_pending_length f"
    by (auto simp: queue_def flow_inv_def)
  with Nil show ?case
    by simp
next
  case (Cons r rs)
  let ?n = "tf_pending_length f - tf_pending_offset f"
  have len: "length (queue f) = ?n"
    using Cons.prems(1) by (simp add: queue_def flow_inv_def)
  show ?case
  proof (cases "tf_pending_offset f < tf_pending_length f \<and> r \<noteq> Send_Interrupted")
    case False
    then show ?thesis
      using Cons len by (auto simp: ch_ip_stack_send_def)
  next
    case True
    then obtain k where k: "r = Accepts k" "0 < k"
      using Cons.prems(4) by (cases r) auto
    let ?w = "min k ?n"
    let ?g = "f\<lparr>tf_pending_offset := tf_pending_offset f + ?w\<rparr>"
    have split: "queue f = sub_bytes (tf_pending f) (tf_pending_offset f) ?w @ queue ?g"
      using sub_bytes_split [of ?w ?n "tf_pending f" "tf_pending_offset f"] by (simp add: queue_def diff_diff_add)
    have g: "flow_inv ?g" "\<not> tf_dead ?g" "tf_descriptor ?g = Some False" "length (queue ?g) \<le> accepted rs"
      using Cons.prems k len by (auto simp: flow_inv_def queue_def)
    obtain f' es where "send_loop ob rs ?g = (f', es, True)" "to_remote es = queue ?g" "queue f' = []" "flow_inv f'"
      "\<not> tf_dead f'"
      using Cons.IH [OF g(1-3) _ g(4)] Cons.prems(4) by auto
    then show ?thesis
      using True Cons.prems(3) k split by (simp add: ch_ip_stack_send_def)
  qed
qed

text \<open>The tick behind the send loop reads nothing from the client.\<close>

definition no_input :: "moved \<Rightarrow> bool" where
  "no_input m \<longleftrightarrow> (case m of (f, es, go) \<Rightarrow> from_client es = [])"

lemma no_input_proceed: "no_input m \<Longrightarrow> (\<And>f. no_input (k f)) \<Longrightarrow> no_input (proceed m k)"
  by (cases m) (force simp: no_input_def split: prod.splits)

lemma no_input_abort: "no_input (abort_tick ob f)"
  using flow_abort_closes [of ob f] by (auto simp: abort_tick_def no_input_def quiet_def split: prod.split)

lemma no_input_recv_loop: "no_input (recv_loop ob junk attempts rs f)"
proof (induction rs arbitrary: attempts f)
  case Nil
  then show ?case
    by (simp add: no_input_def)
next
  case (Cons r rs)
  have flat: "no_input (f, es, go) \<longleftrightarrow> from_client es = []" for f es go
    by (simp add: no_input_def)
  note branches = no_input_abort no_input_proceed Cons.IH
  have "no_input (recv_loop ob junk attempts (r # rs) f)" if "rs_result r = Delivers xs" for xs
  proof -
    define bs where "bs = take (min (rs_available r) 16384) xs"
    show ?thesis
      unfolding recv_loop.simps Let_def that recv_result.case bs_def [symmetric]
      by (auto intro!: branches simp: flat simp del: proceed.simps One_nat_def split: option.split)
  qed
  then show ?case
    by (cases "rs_result r") (auto intro!: branches simp: flat)
qed

lemma no_input_tick_rest: "no_input (tick_rest ob junk t f)"
  unfolding tick_rest_def
  by (intro no_input_proceed no_input_recv_loop)
    (auto simp: reset_pending_def flush_remote_def close_finished_def closing_defs no_input_def [of "(_, _, _)"] Let_def
      simp del: proceed.simps intro!: no_input_abort no_input_proceed)

section \<open>Properties\<close>

text \<open>C29: A TCP flow relays both directions in order and without loss: whatever lwIP, the sockets and the
  dialer answer, the bytes sent to the remote side followed by the bytes still queued are the bytes received
  from the client, and the bytes handed to the client are a prefix of the bytes read from the remote side;
  while the flow lives the rest of them is queued.\<close>

theorem relay_streams_in_order:
  assumes "run_relays ob junk ops (new_tcp_flow family sa sp ta tp now hint port) = (f, es)"
  shows "to_remote es @ queue f = from_client es \<and> prefix (to_client es) (from_remote es) \<and>
    (\<not> tf_dead f \<longrightarrow> to_client es @ remote_queue f = from_remote es)"
proof -
  let ?f = "new_tcp_flow family sa sp ta tp now hint port"
  have "flow_inv ?f" "\<not> tf_dead ?f" "queue ?f = []" "remote_queue ?f = []"
    by (simp_all add: new_tcp_flow_def flow_inv_def queue_def remote_queue_def)
  with relays_runs [OF _ _ assms] show ?thesis
    by (simp add: relays_def)
qed

lemmas tick_defs = ch_ip_stack_tcp_flow_tick_def tick_connected_def tick_rest_def reset_pending_def flush_remote_def
  close_finished_def Let_def

definition sample_dialer :: tcp_dialer where
  "sample_dialer target source hint = (CH_OK, 7, 42)"

definition sample_tick :: "recv_step list \<Rightarrow> tick_results" where
  "sample_tick receives = \<lparr>tk_now = 10, tk_sends = [Send_Interrupted, Accepts 100], tk_available = 1000,
     tk_write = ERR_OK, tk_output = ERR_OK, tk_receives = receives, tk_close = ERR_OK\<rparr>"

definition sample_recv :: "byte list \<Rightarrow> recv_step" where
  "sample_recv bs = \<lparr>rs_available = 1000, rs_result = Delivers bs, rs_write = ERR_OK, rs_output = ERR_OK,
     rs_shutdown = ERR_OK\<rparr>"

definition sample_tcp_flow :: ch_ip_stack_tcp_flow where
  "sample_tcp_flow = new_tcp_flow AF_INET [10, 0, 0, 2] 5000 [1, 1, 1, 1] 80 0 [] 20000"

theorem relay_streams_in_order_witness:
  "to_client (snd (run_relays \<lparr>ob_bytes = True, ob_close = True\<rparr> (\<lambda>_. 0)
       [Accept sample_dialer True True ERR_OK, Tick (sample_tick [sample_recv [7, 8], sample_recv [9]])]
       sample_tcp_flow)) = [7, 8, 9] \<and>
   prefix [7, 8, 9] (from_remote (snd (run_relays \<lparr>ob_bytes = True, ob_close = True\<rparr> (\<lambda>_. 0)
       [Accept sample_dialer True True ERR_OK, Tick (sample_tick [sample_recv [7, 8], sample_recv [9]])]
       sample_tcp_flow)))"
proof -
  let ?r = "run_relays \<lparr>ob_bytes = True, ob_close = True\<rparr> (\<lambda>_. 0)
       [Accept sample_dialer True True ERR_OK, Tick (sample_tick [sample_recv [7, 8], sample_recv [9]])]
       sample_tcp_flow"
  have "to_client (snd ?r) = [7, 8, 9]"
    by (simp add: sample_tcp_flow_def sample_tick_def sample_recv_def sample_dialer_def new_tcp_flow_def
        ch_ip_stack_tcp_accept_def tick_defs)
  moreover have "prefix (to_client (snd ?r)) (from_remote (snd ?r))"
    using relay_streams_in_order [OF prod.collapse [symmetric]] unfolding sample_tcp_flow_def by blast
  ultimately show ?thesis
    by simp
qed

text \<open>C31: Bytes and the end of the client's stream that arrive between two ticks are lost: the end shuts down
  the sending side of the socket while the bytes are still queued, and the next tick aborts the flow without
  having sent any of them.  lwIP delivers both callbacks in a row for a segment that carries data and FIN.\<close>

theorem fin_discards_queue:
  assumes "flow_inv f" "\<not> tf_dead f" "tf_client f" "tf_descriptor f = Some False"
    and "bs \<noteq> []" "length (queue f) + length bs \<le> 1048576"
    and "run_relays ob junk [Receive (Some bs) ERR_OK, Receive None ERR_OK, Tick t] f = (f', es)"
  shows "from_client es = bs \<and> to_remote es = [] \<and> tf_dead f'"
proof -
  obtain b i where received: "ch_ip_stack_tcp_receive junk (Some bs) ERR_OK (Some f) =
    (Some (f\<lparr>tf_pending := b, tf_pending_offset := i, tf_pending_length := i + length (queue f) + length bs\<rparr>),
     [From_Client bs], ERR_OK)"
    using receive_accepts [OF assms(1,2,5,6)] by blast
  define g where "g = f\<lparr>tf_pending := b, tf_pending_offset := i, tf_pending_length := i + length (queue f) + length bs,
    tf_client_eof := True, tf_descriptor := Some True\<rparr>"
  obtain f3 es3 where aborted: "ch_ip_stack_tcp_flow_abort ob g = (f3, es3)"
    by (cases "ch_ip_stack_tcp_flow_abort ob g")
  have "ch_ip_stack_tcp_flow_tick ob junk t g = (f3, es3)"
    using tick_shut [of g ob junk t] aborted assms by (simp add: g_def)
  then have "f' = f3" "es = [From_Client bs, Write_Shut] @ es3"
    using assms(2,4,7) received by (simp_all add: ch_ip_stack_tcp_receive_def [of junk None] g_def)
  with flow_abort_closes [OF aborted] show ?thesis
    by (simp add: quiet_def)
qed

definition connected_flow :: ch_ip_stack_tcp_flow where
  "connected_flow = sample_tcp_flow\<lparr>tf_client := True, tf_listener := False, tf_descriptor := Some False, tf_flow_id := 42\<rparr>"

theorem fin_discards_queue_witness:
  "from_client (snd (run_relays \<lparr>ob_bytes = True, ob_close = True\<rparr> (\<lambda>_. 0)
     [Receive (Some [1, 2, 3]) ERR_OK, Receive None ERR_OK, Tick (sample_tick [])] connected_flow)) = [1, 2, 3] \<and>
   to_remote (snd (run_relays \<lparr>ob_bytes = True, ob_close = True\<rparr> (\<lambda>_. 0)
     [Receive (Some [1, 2, 3]) ERR_OK, Receive None ERR_OK, Tick (sample_tick [])] connected_flow)) = []"
  using fin_discards_queue [of connected_flow "[1, 2, 3]" "\<lparr>ob_bytes = True, ob_close = True\<rparr>" "\<lambda>_. 0" "sample_tick []",
      OF _ _ _ _ _ _ surjective_pairing]
  by (simp add: connected_flow_def sample_tcp_flow_def new_tcp_flow_def flow_inv_def queue_def)

text \<open>C32: Bytes from the remote side that lwIP has no memory for are handed to the client by a later tick, but
  the byte observer never learns of them.\<close>

theorem rx_bytes_unobserved:
  assumes "bs \<noteq> []" "length bs \<le> 16384" "length bs \<le> a" "length bs \<le> v" "0 \<le> d"
  shows "(let es = snd (run_relays ob junk
      [Accept (\<lambda>_ _ _. (CH_OK, d, i)) True True ERR_OK,
       Tick \<lparr>tk_now = n, tk_sends = ss, tk_available = v', tk_write = w, tk_output = u,
         tk_receives = [\<lparr>rs_available = a, rs_result = Delivers bs, rs_write = ERR_MEM, rs_output = u', rs_shutdown = h\<rparr>],
         tk_close = c\<rparr>,
       Tick \<lparr>tk_now = n', tk_sends = ss', tk_available = v, tk_write = ERR_OK, tk_output = ERR_OK, tk_receives = [],
         tk_close = c'\<rparr>]
      (new_tcp_flow family sa sp ta tp now hint port))
    in to_client es = bs \<and> rx_observed es = 0)"
proof -
  have idle: "send_loop ob rs f = (f, [], True)" if "tf_pending_length f = 0" for rs f
    using that by (cases rs) simp_all
  obtain b j where reserve: "ch_ip_stack_buffer_reserve junk [] 0 0 (length bs) = Some (b, j)"
    using buffer_reserve_succeeds [of 0 "length bs" "[]" junk 0] assms(2) by auto
  have "take (length bs) (put b 0 bs) = bs" "0 < a" "0 < v"
    using assms(1,3,4) by (cases bs; auto simp: put_def)+
  with assms reserve show ?thesis
    by (simp add: ch_ip_stack_tcp_accept_def new_tcp_flow_def tick_defs idle rx_observed_def min_absorb1)
qed

theorem rx_bytes_unobserved_witness:
  "(let es = snd (run_relays \<lparr>ob_bytes = True, ob_close = True\<rparr> (\<lambda>_. 0)
      [Accept (\<lambda>_ _ _. (CH_OK, 7, 42)) True True ERR_OK,
       Tick \<lparr>tk_now = 1, tk_sends = [], tk_available = 0, tk_write = ERR_OK, tk_output = ERR_OK,
         tk_receives = [\<lparr>rs_available = 100, rs_result = Delivers [1, 2], rs_write = ERR_MEM, rs_output = ERR_OK,
           rs_shutdown = ERR_OK\<rparr>], tk_close = ERR_OK\<rparr>,
       Tick \<lparr>tk_now = 2, tk_sends = [], tk_available = 100, tk_write = ERR_OK, tk_output = ERR_OK, tk_receives = [],
         tk_close = ERR_OK\<rparr>]
      (new_tcp_flow AF_INET [10, 0, 0, 2] 5000 [1, 1, 1, 1] 80 0 [] 20000))
    in to_client es = [1, 2] \<and> rx_observed es = 0)"
  by (rule rx_bytes_unobserved) simp_all

text \<open>C30: The queue is drained: when the socket takes bytes without blocking or failing, possibly in small
  pieces and with interruptions, until it has taken as many as are queued, one tick sends exactly the queued
  bytes and leaves nothing behind.\<close>

theorem tick_drains_queue:
  assumes "flow_inv f" "\<not> tf_dead f" "tf_client f" "tf_descriptor f = Some False"
    and "list_all takes_bytes (tk_sends t)" "length (queue f) \<le> accepted (tk_sends t)"
    and "ch_ip_stack_tcp_flow_tick ob junk t f = (f', es)"
  shows "to_remote es = queue f \<and> queue f' = []"
proof -
  obtain f1 es1 where sent: "send_loop ob (tk_sends t) f = (f1, es1, True)" "to_remote es1 = queue f" "queue f1 = []"
      "flow_inv f1" "\<not> tf_dead f1"
    using send_loop_drains [OF assms(1,2,4-6)] by blast
  obtain es2 go where rest: "tick_rest ob junk t f1 = (f', es2, go)" "es = es1 @ es2"
    using assms(2-4,7) sent(1) by (auto simp: ch_ip_stack_tcp_flow_tick_def tick_connected_def split: prod.splits)
  have "to_remote es2 @ queue f' = from_client es2"
    using relays_tick_rest [OF sent(4,5), of ob junk t] rest(1) sent(3) by (simp add: relays_def)
  moreover have "from_client es2 = []"
    using no_input_tick_rest [of ob junk t f1] rest(1) by (simp add: no_input_def)
  ultimately show ?thesis
    using rest(2) sent(2) by simp
qed

theorem tick_drains_queue_witness:
  "to_remote (snd (ch_ip_stack_tcp_flow_tick \<lparr>ob_bytes = True, ob_close = True\<rparr> (\<lambda>_. 0)
     ((sample_tick [])\<lparr>tk_sends := [Accepts 2, Send_Interrupted, Accepts 5]\<rparr>)
     (connected_flow\<lparr>tf_pending := [1, 2, 3], tf_pending_length := 3\<rparr>))) = [1, 2, 3]"
proof -
  let ?f = "connected_flow\<lparr>tf_pending := [1, 2, 3], tf_pending_length := 3\<rparr>"
  let ?t = "(sample_tick [])\<lparr>tk_sends := [Accepts 2, Send_Interrupted, Accepts 5]\<rparr>"
  have queue: "queue ?f = [1, 2, 3]"
    by (simp add: queue_def sub_bytes_def connected_flow_def sample_tcp_flow_def new_tcp_flow_def)
  have "flow_inv ?f" "\<not> tf_dead ?f" "tf_client ?f" "tf_descriptor ?f = Some False" "list_all takes_bytes (tk_sends ?t)"
    "length (queue ?f) \<le> accepted (tk_sends ?t)"
    unfolding queue by (simp_all add: flow_inv_def connected_flow_def sample_tcp_flow_def new_tcp_flow_def)
  from tick_drains_queue [OF this prod.collapse [symmetric]] show ?thesis
    unfolding queue by blast
qed

end
