(* ===== verification/Tcp_Nat.thy ===== *)
theory Tcp_Nat
  imports Tcp_Relay
begin

text \<open>
  The address translation of \<^verbatim>\<open>src/native/src/ip_stack.c\<close>: a client's TCP packet for any address is redirected to
  a listener on the interface's own address and an internal port, one per flow, and the packets lwIP answers
  with are given the original target as their source again.  The table of flows lists the newest first; the
  interface's addresses are \<open>local4\<close> and \<open>local6\<close>.
\<close>

unbundle bit_operations_syntax

section \<open>The table of flows\<close>

record tcp_table =
  tt_flows :: "ch_ip_stack_tcp_flow list"
  tt_count :: nat
  tt_next_port :: nat
  tt_cache :: dns_cache

definition empty_tcp_table :: tcp_table where
  "empty_tcp_table = \<lparr>tt_flows = [], tt_count = 0, tt_next_port = 20000, tt_cache = empty_cache\<rparr>"

definition input_matches ::
  "family \<Rightarrow> byte list \<Rightarrow> nat \<Rightarrow> byte list \<Rightarrow> nat \<Rightarrow> ch_ip_stack_tcp_flow \<Rightarrow> bool" where
  "input_matches family sa sp ta tp f \<longleftrightarrow>
     \<not> tf_dead f \<and> tf_address_family f = family \<and> tf_source_port f = sp \<and> tf_target_port f = tp \<and>
     tf_source_address f = sa \<and> tf_target_address f = ta"

definition ch_ip_stack_tcp_flow_for_input ::
  "tcp_table \<Rightarrow> family \<Rightarrow> byte list \<Rightarrow> nat \<Rightarrow> byte list \<Rightarrow> nat \<Rightarrow> ch_ip_stack_tcp_flow option" where
  "ch_ip_stack_tcp_flow_for_input t family sa sp ta tp = find (input_matches family sa sp ta tp) (tt_flows t)"

definition output_matches :: "family \<Rightarrow> byte list \<Rightarrow> nat \<Rightarrow> nat \<Rightarrow> ch_ip_stack_tcp_flow \<Rightarrow> bool" where
  "output_matches family client client_port port f \<longleftrightarrow>
     \<not> tf_dead f \<and> tf_address_family f = family \<and> tf_source_port f = client_port \<and> tf_internal_port f = port \<and>
     tf_source_address f = client"

definition ch_ip_stack_tcp_flow_for_output ::
  "tcp_table \<Rightarrow> family \<Rightarrow> byte list \<Rightarrow> nat \<Rightarrow> nat \<Rightarrow> ch_ip_stack_tcp_flow option" where
  "ch_ip_stack_tcp_flow_for_output t family client client_port port =
     find (output_matches family client client_port port) (tt_flows t)"

definition ch_ip_stack_tcp_port_in_use :: "ch_ip_stack_tcp_flow list \<Rightarrow> nat \<Rightarrow> bool" where
  "ch_ip_stack_tcp_port_in_use flows port \<longleftrightarrow> list_ex (\<lambda>f. \<not> tf_dead f \<and> tf_internal_port f = port) flows"

section \<open>Creating flows\<close>

text \<open>What lwIP answers: the result of binding a new control block to a port, \<^term>\<open>None\<close> when there is no
  control block, and the result of listening.\<close>

record lwip_results =
  lw_now :: "32 word"
  lw_bind :: "nat \<Rightarrow> err_t option"
  lw_listener :: bool
  lw_listen :: err_t

definition following_port :: "nat \<Rightarrow> nat" where
  "following_port port = (let n = (port + 1) mod 65536 in if 59999 < n then 20000 else n)"

text \<open>The loop over the ports; the first number counts the attempts that are left.  The result is the port, the
  last error and the next port to try.\<close>

fun allocate_port ::
  "nat \<Rightarrow> (nat \<Rightarrow> err_t option) \<Rightarrow> ch_ip_stack_tcp_flow list \<Rightarrow> nat \<Rightarrow> err_t \<Rightarrow> nat option \<times> err_t \<times> nat" where
  "allocate_port 0 bind flows next error = (None, error, next)"
| "allocate_port (Suc attempts) bind flows next error =
     (if ch_ip_stack_tcp_port_in_use flows next
      then allocate_port attempts bind flows (following_port next) error
      else (case bind next of
          None \<Rightarrow> (None, ERR_MEM, following_port next)
        | Some ERR_OK \<Rightarrow> (Some next, ERR_OK, following_port next)
        | Some e \<Rightarrow> allocate_port attempts bind flows (following_port next) e))"

definition ch_ip_stack_tcp_flow_create ::
  "lwip_results \<Rightarrow> tcp_table \<Rightarrow> family \<Rightarrow> byte list \<Rightarrow> nat \<Rightarrow> byte list \<Rightarrow> nat \<Rightarrow>
     tcp_table \<times> ch_ip_stack_tcp_flow result" where
  "ch_ip_stack_tcp_flow_create lw t family sa sp ta tp =
     (if 512 \<le> tt_count t then (t, Inl CH_ERROR_INVALID_STATE)
      else
        case ch_ip_stack_domain_hint (lw_now lw) family ta tp (tt_cache t) of (cache, hint) \<Rightarrow>
        (case allocate_port 40000 (lw_bind lw) (tt_flows t) (tt_next_port t) ERR_USE of (port, error, next) \<Rightarrow>
          let t = t\<lparr>tt_cache := cache, tt_next_port := next\<rparr> in
          (case port of
             None \<Rightarrow> (t, Inl (if error = ERR_MEM then CH_ERROR_OUT_OF_MEMORY else CH_ERROR_INVALID_STATE))
           | Some port \<Rightarrow>
               if \<not> lw_listener lw \<or> lw_listen lw \<noteq> ERR_OK
               then (t, Inl (if lw_listen lw = ERR_MEM then CH_ERROR_OUT_OF_MEMORY else CH_ERROR_INTERNAL))
               else
                 let f = new_tcp_flow family sa sp ta tp (lw_now lw) hint port
                 in (t\<lparr>tt_flows := f # tt_flows t, tt_count := tt_count t + 1\<rparr>, Inr f))))"

section \<open>Packets from the client\<close>

text \<open>The flow of a segment: an existing one, a new one for a segment with SYN and without ACK, or none, in which
  case the packet passes unchanged.\<close>

definition input_flow ::
  "lwip_results \<Rightarrow> tcp_table \<Rightarrow> family \<Rightarrow> byte list \<Rightarrow> nat \<Rightarrow> byte list \<Rightarrow> nat \<Rightarrow> byte \<Rightarrow>
     tcp_table \<times> ch_ip_stack_tcp_flow option result" where
  "input_flow lw t family sa sp ta tp flags =
     (case ch_ip_stack_tcp_flow_for_input t family sa sp ta tp of
        Some f \<Rightarrow> (t, Inr (Some f))
      | None \<Rightarrow>
          if flags AND 0x02 = 0 \<or> flags AND 0x10 \<noteq> 0 then (t, Inr None)
          else (case ch_ip_stack_tcp_flow_create lw t family sa sp ta tp of
              (t, Inl e) \<Rightarrow> (t, Inl e)
            | (t, Inr f) \<Rightarrow> (t, Inr (Some f))))"

definition tcp_header_length :: "byte list \<Rightarrow> nat \<Rightarrow> nat" where
  "tcp_header_length p h = unat (drop_bit 4 (p ! (h + 12))) * 4"

definition ch_ip_stack_prepare_ipv4_tcp_input ::
  "lwip_results \<Rightarrow> byte list \<Rightarrow> bool \<Rightarrow> tcp_table \<Rightarrow> byte list \<Rightarrow> tcp_table \<times> byte list result" where
  "ch_ip_stack_prepare_ipv4_tcp_input lw local4 dialer t p =
     (let h = ipv4_header_length p; total = ch_ip_stack_read_u16 p 2 in
      if h < 20 \<or> length p < h \<or> total < h \<or> total \<noteq> length p then (t, Inl CH_ERROR_PARSE)
      else if p ! 9 \<noteq> 6 \<or> sub_bytes p 16 4 = local4 then (t, Inr p)
      else if \<not> dialer then (t, Inl CH_ERROR_UNSUPPORTED)
      else if ch_ip_stack_read_u16 p 6 mod 0x4000 \<noteq> 0 then (t, Inl CH_ERROR_UNSUPPORTED)
      else if length p < h + 20 then (t, Inl CH_ERROR_PARSE)
      else if tcp_header_length p h < 20 \<or> length p < h + tcp_header_length p h then (t, Inl CH_ERROR_PARSE)
      else
        case input_flow lw t AF_INET (sub_bytes p 12 4) (ch_ip_stack_read_u16 p h) (sub_bytes p 16 4)
               (ch_ip_stack_read_u16 p (h + 2)) (p ! (h + 13)) of
          (t, Inl e) \<Rightarrow> (t, Inl e)
        | (t, Inr None) \<Rightarrow> (t, Inr p)
        | (t, Inr (Some f)) \<Rightarrow>
            (t, Inr (ch_ip_stack_ipv4_checksums
                       (ch_ip_stack_write_u16 (put p 16 local4) (h + 2) (tf_internal_port f)))))"

definition ch_ip_stack_prepare_ipv6_tcp_input ::
  "lwip_results \<Rightarrow> byte list \<Rightarrow> bool \<Rightarrow> tcp_table \<Rightarrow> byte list \<Rightarrow> tcp_table \<times> byte list result" where
  "ch_ip_stack_prepare_ipv6_tcp_input lw local6 dialer t p =
     (if length p < 40 \<or> ch_ip_stack_read_u16 p 4 \<noteq> length p - 40 then (t, Inl CH_ERROR_PARSE)
      else
        case ch_ip_stack_ipv6_transport p of
          None \<Rightarrow> (t, Inl CH_ERROR_PARSE)
        | Some (protocol, h) \<Rightarrow>
            if protocol \<noteq> 6 \<or> sub_bytes p 24 16 = local6 then (t, Inr p)
            else if \<not> dialer then (t, Inl CH_ERROR_UNSUPPORTED)
            else if length p < h + 20 then (t, Inl CH_ERROR_PARSE)
            else if tcp_header_length p h < 20 \<or> length p < h + tcp_header_length p h
            then (t, Inl CH_ERROR_PARSE)
            else
              (case input_flow lw t AF_INET6 (sub_bytes p 8 16) (ch_ip_stack_read_u16 p h) (sub_bytes p 24 16)
                      (ch_ip_stack_read_u16 p (h + 2)) (p ! (h + 13)) of
                 (t, Inl e) \<Rightarrow> (t, Inl e)
               | (t, Inr None) \<Rightarrow> (t, Inr p)
               | (t, Inr (Some f)) \<Rightarrow>
                   (t, Inr (ch_ip_stack_ipv6_tcp_checksum
                              (ch_ip_stack_write_u16 (put p 24 local6) (h + 2) (tf_internal_port f))))))"

definition ch_ip_stack_prepare_tcp_input ::
  "lwip_results \<Rightarrow> byte list \<Rightarrow> byte list \<Rightarrow> bool \<Rightarrow> tcp_table \<Rightarrow> byte list \<Rightarrow> tcp_table \<times> byte list result" where
  "ch_ip_stack_prepare_tcp_input lw local4 local6 dialer t p =
     (let version = drop_bit 4 (p ! 0) in
      if version = 4 then ch_ip_stack_prepare_ipv4_tcp_input lw local4 dialer t p
      else if version = 6 then ch_ip_stack_prepare_ipv6_tcp_input lw local6 dialer t p
      else (t, Inr p))"

section \<open>Packets to the client\<close>

definition ch_ip_stack_rewrite_tcp_output :: "tcp_table \<Rightarrow> byte list \<Rightarrow> byte list" where
  "ch_ip_stack_rewrite_tcp_output t p =
     (let version = drop_bit 4 (p ! 0) in
      if version = 6 then
        (case ch_ip_stack_ipv6_transport p of
           None \<Rightarrow> p
         | Some (protocol, h) \<Rightarrow>
             if protocol \<noteq> 6 \<or> length p < h + 20 then p
             else
               (case ch_ip_stack_tcp_flow_for_output t AF_INET6 (sub_bytes p 24 16)
                       (ch_ip_stack_read_u16 p (h + 2)) (ch_ip_stack_read_u16 p h) of
                  None \<Rightarrow> p
                | Some f \<Rightarrow>
                    ch_ip_stack_ipv6_tcp_checksum
                      (ch_ip_stack_write_u16 (put p 8 (tf_target_address f)) h (tf_target_port f))))
      else if length p < 40 \<or> version \<noteq> 4 \<or> p ! 9 \<noteq> 6 then p
      else
        let h = ipv4_header_length p in
        if h < 20 \<or> length p < h + 20 then p
        else
          (case ch_ip_stack_tcp_flow_for_output t AF_INET (sub_bytes p 16 4)
                  (ch_ip_stack_read_u16 p (h + 2)) (ch_ip_stack_read_u16 p h) of
             None \<Rightarrow> p
           | Some f \<Rightarrow>
               ch_ip_stack_ipv4_checksums
                 (ch_ip_stack_write_u16 (put p 12 (tf_target_address f)) h (tf_target_port f))))"

text \<open>The packet that lwIP emits goes through a buffer that grows to fit it: \<^term>\<open>None\<close> is one of the errors, and
  the result is the packet handed to the writer with the new capacity.\<close>

definition ch_ip_stack_emit :: "tcp_table \<Rightarrow> nat \<Rightarrow> byte list \<Rightarrow> (byte list \<times> nat) option" where
  "ch_ip_stack_emit t capacity p =
     (if p = [] then None
      else if length p \<le> capacity then Some (ch_ip_stack_rewrite_tcp_output t p, capacity)
      else
        case grow 65535 (if capacity = 0 then 2048 else capacity) (length p) of
          None \<Rightarrow> None
        | Some capacity \<Rightarrow> Some (ch_ip_stack_rewrite_tcp_output t p, capacity))"

section \<open>Ticking and sweeping\<close>

definition ch_ip_stack_tcp_sweep :: "tcp_table \<Rightarrow> tcp_table" where
  "ch_ip_stack_tcp_sweep t =
     t\<lparr>tt_flows := filter (\<lambda>f. \<not> tf_dead f) (tt_flows t),
       tt_count := tt_count t - length (filter tf_dead (tt_flows t))\<rparr>"

text \<open>The TCP part of \<^verbatim>\<open>ch_ip_stack_tick\<close>; the n-th flow meets the results \<open>ts n\<close>.\<close>

definition tcp_tick ::
  "observers \<Rightarrow> (nat \<Rightarrow> byte) \<Rightarrow> (nat \<Rightarrow> tick_results) \<Rightarrow> tcp_table \<Rightarrow> tcp_table" where
  "tcp_tick ob junk ts t =
     ch_ip_stack_tcp_sweep (t\<lparr>tt_flows := map (\<lambda>(i, f). fst (ch_ip_stack_tcp_flow_tick ob junk (ts i) f))
       (enumerate 0 (tt_flows t))\<rparr>)"

section \<open>What a flow keeps\<close>

text \<open>No event changes the endpoints or the internal port of a flow.\<close>

definition same_ends :: "ch_ip_stack_tcp_flow \<Rightarrow> ch_ip_stack_tcp_flow \<Rightarrow> bool" where
  "same_ends f g \<longleftrightarrow> tf_address_family g = tf_address_family f \<and> tf_source_address g = tf_source_address f \<and>
     tf_target_address g = tf_target_address f \<and> tf_source_port g = tf_source_port f \<and>
     tf_target_port g = tf_target_port f \<and> tf_internal_port g = tf_internal_port f"

definition keeps_key :: "ch_ip_stack_tcp_flow \<Rightarrow> moved \<Rightarrow> bool" where
  "keeps_key f m \<longleftrightarrow> same_ends f (fst m)"

lemma same_ends_refl [simp]: "same_ends f f"
  by (simp add: same_ends_def)

lemma same_ends_trans: "same_ends f g \<Longrightarrow> same_ends g h \<Longrightarrow> same_ends f h"
  by (simp add: same_ends_def)

lemma keeps_key_proceed:
  assumes "keeps_key f m" "\<And>g. same_ends f g \<Longrightarrow> keeps_key f (k g)"
  shows "keeps_key f (proceed m k)"
  using assms(1) assms(2) [of "fst m"] by (cases m) (auto simp: keeps_key_def split: prod.split)

lemma key_closing:
  "same_ends f (fst (ch_ip_stack_tcp_flow_abort ob f))" "same_ends f (fst (ch_ip_stack_tcp_error ob f))"
  by (simp_all add: ch_ip_stack_tcp_flow_abort_def ch_ip_stack_tcp_error_def closing_defs same_ends_def)

lemma key_abort: "same_ends f g \<Longrightarrow> keeps_key f (abort_tick ob g)"
  using key_closing(1) [of g ob] by (auto simp: abort_tick_def keeps_key_def split: prod.split intro: same_ends_trans)

lemma key_send_loop: "same_ends f g \<Longrightarrow> keeps_key f (send_loop ob rs g)"
proof (induction rs arbitrary: g)
  case Nil
  then show ?case
    by (simp add: key_abort keeps_key_def [of f "(_, _, _)"])
next
  case (Cons r rs)
  have "same_ends f (g\<lparr>tf_pending_offset := n\<rparr>)" for n
    using Cons.prems by (simp add: same_ends_def)
  then show ?case
    using Cons by (auto simp: keeps_key_def [of f "(_, _, _)"] simp del: proceed.simps
        intro!: key_abort keeps_key_proceed split: send_result.split)
qed

lemma key_recv_loop: "same_ends f g \<Longrightarrow> keeps_key f (recv_loop ob junk attempts rs g)"
proof (induction rs arbitrary: attempts g)
  case Nil
  then show ?case
    by (simp add: keeps_key_def)
next
  case (Cons r rs)
  have flat: "keeps_key f (g, es, go) \<longleftrightarrow> same_ends f g" for g es go
    by (simp add: keeps_key_def)
  have updates: "same_ends f (g\<lparr>tf_remote_eof := b\<rparr>)"
    "same_ends f (g\<lparr>tf_remote_pending := bs, tf_remote_pending_length := n\<rparr>)" for b bs n
    using Cons.prems by (simp_all add: same_ends_def)
  note branches = key_abort keeps_key_proceed Cons.IH
  have "keeps_key f (recv_loop ob junk attempts (r # rs) g)" if "rs_result r = Delivers xs" for xs
  proof -
    define bs where "bs = take (min (rs_available r) 16384) xs"
    show ?thesis
      using Cons.prems updates
      unfolding recv_loop.simps Let_def that recv_result.case bs_def [symmetric]
      by (auto intro!: branches simp: flat simp del: proceed.simps One_nat_def split: option.split)
  qed
  then show ?case
    using Cons.prems by (cases "rs_result r") (auto intro!: branches simp: flat)
qed

lemma key_tick: "same_ends f (fst (ch_ip_stack_tcp_flow_tick ob junk t f))"
proof -
  have flat: "keeps_key f (g, es, go) \<longleftrightarrow> same_ends f g" for g es go
    by (simp add: keeps_key_def)
  have reset: "keeps_key f (reset_pending g)" if "same_ends f g" for g
    using that by (simp add: reset_pending_def flat same_ends_def)
  have flush: "keeps_key f (flush_remote ob a w u g)" if "same_ends f g" for a w u g
  proof -
    have "same_ends f (g\<lparr>tf_remote_pending := bs, tf_remote_pending_length := n\<rparr>)"
      "same_ends f (g\<lparr>tf_remote_pending_length := n\<rparr>)" for bs n
      using that by (simp_all add: same_ends_def)
    then show ?thesis
      using that unfolding flush_remote_def Let_def
      by (auto simp: flat simp del: proceed.simps intro!: key_abort keeps_key_proceed)
  qed
  have finish: "keeps_key f (close_finished ob c g)" if "same_ends f g" for c g
    using that by (auto simp: close_finished_def closing_defs flat same_ends_def)
  have "keeps_key f (tick_connected ob junk t f)"
    unfolding tick_connected_def tick_rest_def
    by (intro keeps_key_proceed key_send_loop reset flush key_recv_loop finish) simp_all
  then show ?thesis
    using key_closing(1) by (auto simp: ch_ip_stack_tcp_flow_tick_def keeps_key_def split: prod.split)
qed

lemma key_run_relay: "same_ends f (fst (run_relay ob junk a f))"
proof (cases a)
  case (Accept dialer nonblocking client error)
  then show ?thesis
    by (simp add: ch_ip_stack_tcp_accept_def ch_ip_stack_tcp_error_def closing_defs Let_def same_ends_def split: prod.split)
next
  case (Receive packet error)
  then show ?thesis
    by (auto simp: ch_ip_stack_tcp_receive_def Let_def same_ends_def split: option.split prod.split)
qed (simp_all add: key_closing key_tick)

section \<open>The invariant of the table\<close>

definition live_flows :: "tcp_table \<Rightarrow> ch_ip_stack_tcp_flow list" where
  "live_flows t = filter (\<lambda>f. \<not> tf_dead f) (tt_flows t)"

definition flow_key :: "ch_ip_stack_tcp_flow \<Rightarrow> family \<times> byte list \<times> nat \<times> byte list \<times> nat" where
  "flow_key f = (tf_address_family f, tf_source_address f, tf_source_port f, tf_target_address f, tf_target_port f)"

definition flow_ok :: "ch_ip_stack_tcp_flow \<Rightarrow> bool" where
  "flow_ok f \<longleftrightarrow> 20000 \<le> tf_internal_port f \<and> tf_internal_port f \<le> 59999 \<and>
     tf_target_port f < 65536 \<and> length (tf_target_address f) = ch_ip_stack_address_length (tf_address_family f)"

definition table_inv :: "tcp_table \<Rightarrow> bool" where
  "table_inv t \<longleftrightarrow> tt_count t = length (tt_flows t) \<and> tt_count t \<le> 512 \<and>
     20000 \<le> tt_next_port t \<and> tt_next_port t \<le> 59999 \<and> list_all flow_ok (tt_flows t) \<and>
     distinct (map tf_internal_port (live_flows t)) \<and> distinct (map flow_key (live_flows t))"

lemma following_port_bounds: "20000 \<le> n \<Longrightarrow> n \<le> 59999 \<Longrightarrow> 20000 \<le> following_port n \<and> following_port n \<le> 59999"
  by (simp add: following_port_def Let_def)

lemma allocate_port_bounds:
  "allocate_port k bind flows n e = (port, e', n') \<Longrightarrow> 20000 \<le> n \<Longrightarrow> n \<le> 59999 \<Longrightarrow>
    20000 \<le> n' \<and> n' \<le> 59999 \<and>
    (\<forall>p. port = Some p \<longrightarrow> 20000 \<le> p \<and> p \<le> 59999 \<and> \<not> ch_ip_stack_tcp_port_in_use flows p)"
proof (induction k bind flows n e rule: allocate_port.induct)
  case (2 k bind flows n e)
  note next_ok = following_port_bounds [OF "2.prems"(2,3)]
  show ?case
  proof (cases "ch_ip_stack_tcp_port_in_use flows n")
    case True
    with 2 next_ok show ?thesis
      by simp
  next
    case False
    note IH = "2.IH"(2-) [OF False]
    show ?thesis
      using "2.prems" False next_ok IH by (auto split: option.splits err_t.splits)
  qed
qed auto

lemma distinct_filter_all2:
  "list_all2 (\<lambda>x y. k x = k y \<and> (P y \<longrightarrow> P x)) xs ys \<Longrightarrow> distinct (map k (filter P xs)) \<Longrightarrow>
    distinct (map k (filter P ys)) \<and> k ` set (filter P ys) \<subseteq> k ` set (filter P xs)"
  by (induction rule: list_all2_induct) (auto split: if_splits)

lemma same_ends_laws:
  "same_ends f g \<Longrightarrow> tf_internal_port f = tf_internal_port g" "same_ends f g \<Longrightarrow> flow_key f = flow_key g"
  "same_ends f g \<Longrightarrow> flow_ok f = flow_ok g"
  by (simp_all add: same_ends_def flow_key_def flow_ok_def)

definition ages :: "ch_ip_stack_tcp_flow \<Rightarrow> ch_ip_stack_tcp_flow \<Rightarrow> bool" where
  "ages f g \<longleftrightarrow> same_ends f g \<and> (tf_dead f \<longrightarrow> tf_dead g)"

lemma table_inv_ages:
  assumes "table_inv t" "list_all2 ages (tt_flows t) fs"
  shows "table_inv (t\<lparr>tt_flows := fs\<rparr>)"
proof -
  have two: "list_all2 (\<lambda>x y. tf_internal_port x = tf_internal_port y \<and> (\<not> tf_dead y \<longrightarrow> \<not> tf_dead x)) (tt_flows t) fs"
    "list_all2 (\<lambda>x y. flow_key x = flow_key y \<and> (\<not> tf_dead y \<longrightarrow> \<not> tf_dead x)) (tt_flows t) fs"
    "list_all2 (\<lambda>x y. flow_ok x = flow_ok y) (tt_flows t) fs"
    using assms(2) by (rule list_all2_mono; auto simp: ages_def same_ends_laws)+
  from two(3) have "list_all flow_ok (tt_flows t) = list_all flow_ok fs"
    by (induction rule: list_all2_induct) auto
  then show ?thesis
    using assms(1) distinct_filter_all2 [OF two(1)] distinct_filter_all2 [OF two(2)] list_all2_lengthD [OF assms(2)]
    by (simp add: table_inv_def live_flows_def)
qed

lemma ages_run_relay: "ages f (fst (run_relay ob junk a f))"
  using key_run_relay [of f ob junk a] dead_stays [of f ob junk a] by (auto simp: ages_def) (metis prod.collapse)

lemma ages_refl: "ages f f"
  by (simp add: ages_def)

lemma table_inv_event:
  assumes "table_inv t" "i < length (tt_flows t)"
  shows "table_inv (t\<lparr>tt_flows := (tt_flows t)[i := fst (run_relay ob junk a (tt_flows t ! i))]\<rparr>)"
  using assms by (auto intro!: table_inv_ages simp: list_all2_conv_all_nth nth_list_update ages_refl ages_run_relay)

lemma table_inv_sweep: "table_inv t \<Longrightarrow> table_inv (ch_ip_stack_tcp_sweep t)"
  using sum_length_filter_compl [of tf_dead "tt_flows t"]
  by (auto simp: table_inv_def ch_ip_stack_tcp_sweep_def live_flows_def list_all_iff)

lemma table_inv_tick: "table_inv t \<Longrightarrow> table_inv (tcp_tick ob junk ts t)"
  unfolding tcp_tick_def
  by (intro table_inv_sweep table_inv_ages)
    (auto simp: list_all2_conv_all_nth nth_enumerate_eq ages_run_relay [of _ ob junk "Tick _", simplified])

lemma table_inv_create:
  assumes "table_inv t" "ch_ip_stack_tcp_flow_create lw t family sa sp ta tp = (t', r)"
    and "tp < 65536" "length ta = ch_ip_stack_address_length family"
    and "ch_ip_stack_tcp_flow_for_input t family sa sp ta tp = None"
  shows "table_inv t'"
proof -
  obtain cache hint where hint: "ch_ip_stack_domain_hint (lw_now lw) family ta tp (tt_cache t) = (cache, hint)"
    by (cases "ch_ip_stack_domain_hint (lw_now lw) family ta tp (tt_cache t)")
  obtain port e n where alloc: "allocate_port 40000 (lw_bind lw) (tt_flows t) (tt_next_port t) ERR_USE = (port, e, n)"
    by (metis prod_cases3)
  have n: "20000 \<le> n" "n \<le> 59999"
    using allocate_port_bounds [OF alloc] assms(1) by (simp_all add: table_inv_def)
  have moved: "table_inv (t\<lparr>tt_cache := cache, tt_next_port := n\<rparr>)"
    using assms(1) n by (simp add: table_inv_def live_flows_def)
  have added: "table_inv (t\<lparr>tt_cache := cache, tt_next_port := n, tt_flows := f # tt_flows t, tt_count := tt_count t + 1\<rparr>)"
    if "port = Some p" "tt_count t < 512" "f = new_tcp_flow family sa sp ta tp now hint p" for p f now
  proof -
    have p: "20000 \<le> p" "p \<le> 59999" "\<not> ch_ip_stack_tcp_port_in_use (tt_flows t) p"
      using allocate_port_bounds [OF alloc] assms(1) that(1) by (simp_all add: table_inv_def)
    have "p \<notin> tf_internal_port ` set (live_flows t)"
      using p(3) by (auto simp: ch_ip_stack_tcp_port_in_use_def live_flows_def list_ex_iff)
    moreover have "flow_key f \<notin> flow_key ` set (live_flows t)"
      using assms(5) that(3)
      by (auto simp: ch_ip_stack_tcp_flow_for_input_def find_None_iff input_matches_def live_flows_def flow_key_def
          new_tcp_flow_def)
    moreover have "flow_ok f" "\<not> tf_dead f" "tf_internal_port f = p"
      using p assms(3,4) that(3) by (simp_all add: flow_ok_def new_tcp_flow_def)
    ultimately show ?thesis
      using assms(1) that(2) n by (simp add: table_inv_def live_flows_def)
  qed
  show ?thesis
    using assms(1,2) moved added hint alloc
    by (auto simp: ch_ip_stack_tcp_flow_create_def Let_def split: if_splits option.splits)
qed

section \<open>Reachable tables\<close>

text \<open>Packets, events of single flows, ticks, sweeps and changes of the name cache, in any order.\<close>

inductive nat_reach :: "observers \<Rightarrow> (nat \<Rightarrow> byte) \<Rightarrow> byte list \<Rightarrow> byte list \<Rightarrow> tcp_table \<Rightarrow> bool"
  for ob junk local4 local6 where
  nat_start: "nat_reach ob junk local4 local6 empty_tcp_table"
| nat_input: "nat_reach ob junk local4 local6 t \<Longrightarrow>
    nat_reach ob junk local4 local6 (fst (ch_ip_stack_prepare_tcp_input lw local4 local6 dialer t p))"
| nat_event: "nat_reach ob junk local4 local6 t \<Longrightarrow> i < length (tt_flows t) \<Longrightarrow>
    nat_reach ob junk local4 local6
      (t\<lparr>tt_flows := (tt_flows t)[i := fst (run_relay ob junk a (tt_flows t ! i))]\<rparr>)"
| nat_sweep: "nat_reach ob junk local4 local6 t \<Longrightarrow> nat_reach ob junk local4 local6 (ch_ip_stack_tcp_sweep t)"
| nat_tick: "nat_reach ob junk local4 local6 t \<Longrightarrow> nat_reach ob junk local4 local6 (tcp_tick ob junk ts t)"
| nat_cache: "nat_reach ob junk local4 local6 t \<Longrightarrow> nat_reach ob junk local4 local6 (t\<lparr>tt_cache := c\<rparr>)"

lemma read_u16_less: "ch_ip_stack_read_u16 p i < 65536"
  using unat_byte [of "p ! i"] unat_byte [of "p ! (i + 1)"] unfolding ch_ip_stack_read_u16_def by linarith

lemma table_inv_input_flow:
  assumes "table_inv t" "input_flow lw t family sa sp ta tp flags = (t', r)"
    "tp < 65536" "length ta = ch_ip_stack_address_length family"
  shows "table_inv t'"
  using assms table_inv_create [OF assms(1) _ assms(3,4)]
  by (auto simp: input_flow_def split: option.splits if_splits prod.splits sum.splits)

lemma table_inv_input:
  assumes "table_inv t"
  shows "table_inv (fst (ch_ip_stack_prepare_tcp_input lw local4 local6 dialer t p))"
proof -
  have v4: "table_inv (fst (ch_ip_stack_prepare_ipv4_tcp_input lw local4 dialer t p))"
  proof -
    let ?h = "ipv4_header_length p"
    have "table_inv t'" if "input_flow lw t AF_INET (sub_bytes p 12 4) (ch_ip_stack_read_u16 p ?h) (sub_bytes p 16 4)
        (ch_ip_stack_read_u16 p (?h + 2)) (p ! (?h + 13)) = (t', r)" "20 \<le> ?h" "?h \<le> length p" for t' r
      using table_inv_input_flow [OF assms that(1) read_u16_less] that(2,3)
      by (simp add: ch_ip_stack_address_length_def)
    then show ?thesis
      using assms by (auto simp: ch_ip_stack_prepare_ipv4_tcp_input_def Let_def split: prod.splits sum.splits option.splits)
  qed
  have v6: "table_inv (fst (ch_ip_stack_prepare_ipv6_tcp_input lw local6 dialer t p))"
  proof -
    have "table_inv t'" if "input_flow lw t AF_INET6 (sub_bytes p 8 16) (ch_ip_stack_read_u16 p h) (sub_bytes p 24 16)
        (ch_ip_stack_read_u16 p (h + 2)) (p ! (h + 13)) = (t', r)" "40 \<le> length p" for t' r h
      using table_inv_input_flow [OF assms that(1) read_u16_less] that(2)
      by (simp add: ch_ip_stack_address_length_def)
    then show ?thesis
      using assms by (auto simp: ch_ip_stack_prepare_ipv6_tcp_input_def split: prod.splits sum.splits option.splits)
  qed
  show ?thesis
    using v4 v6 assms by (simp add: ch_ip_stack_prepare_tcp_input_def Let_def)
qed

lemma table_inv_reach: "nat_reach ob junk local4 local6 t \<Longrightarrow> table_inv t"
proof (induction rule: nat_reach.induct)
  case nat_start
  then show ?case
    by (simp add: table_inv_def live_flows_def empty_tcp_table_def)
next
  case (nat_cache t c)
  then show ?case
    by (simp add: table_inv_def live_flows_def)
qed (simp_all add: table_inv_input table_inv_sweep table_inv_event table_inv_tick)

section \<open>Packets that differ in a few bytes\<close>

definition agree :: "nat set \<Rightarrow> byte list \<Rightarrow> byte list \<Rightarrow> bool" where
  "agree S p q \<longleftrightarrow> length q = length p \<and> (\<forall>i. i \<notin> S \<longrightarrow> q ! i = p ! i)"

lemma agree_read: "agree S p q \<Longrightarrow> i \<notin> S \<Longrightarrow> i + 1 \<notin> S \<Longrightarrow> ch_ip_stack_read_u16 q i = ch_ip_stack_read_u16 p i"
  by (simp add: agree_def ch_ip_stack_read_u16_def)

lemma agree_sub_bytes:
  "agree S p q \<Longrightarrow> {i..<i + n} \<inter> S = {} \<Longrightarrow> sub_bytes q i n = sub_bytes p i n"
  by (rule nth_equalityI) (auto simp: agree_def sub_bytes_def disjoint_iff)

lemma agree_trans: "agree S p q \<Longrightarrow> agree T q r \<Longrightarrow> S \<subseteq> U \<Longrightarrow> T \<subseteq> U \<Longrightarrow> agree U p r"
  by (simp add: agree_def) (metis subsetD)

lemma agree_checksums4:
  "agree {10, 11, ipv4_header_length p + 16, ipv4_header_length p + 17} p (ch_ip_stack_ipv4_checksums p)"
  by (auto simp: agree_def ch_ip_stack_ipv4_checksums_def ipv4_header_checksum_def Let_def nth_write_u16)

lemma agree_checksum6:
  "ch_ip_stack_ipv6_transport p = Some (protocol, h) \<Longrightarrow> agree {h + 16, h + 17} p (ch_ip_stack_ipv6_tcp_checksum p)"
  by (auto simp: agree_def ch_ip_stack_ipv6_tcp_checksum_def Let_def nth_write_u16)

lemma agree_put: "i + length bs \<le> length p \<Longrightarrow> agree {i..<i + length bs} p (put p i bs)"
  by (simp add: agree_def nth_put)

lemma agree_write: "agree {i, i + 1} p (ch_ip_stack_write_u16 p i v)"
  by (simp add: agree_def nth_write_u16)

text \<open>The walk over the extension headers reads nothing at or behind the transport header.\<close>

lemma extension_walk_agree:
  "extension_walk p left protocol offset nho = Some (protocol', h, nho') \<Longrightarrow>
    (\<And>i. offset \<le> i \<Longrightarrow> i < h \<Longrightarrow> q ! i = p ! i) \<Longrightarrow> length q = length p \<Longrightarrow>
    4 dvd offset \<Longrightarrow> offset \<le> length p \<Longrightarrow> offset \<le> 512 \<Longrightarrow> nho < offset \<Longrightarrow>
    extension_walk q left protocol offset nho = Some (protocol', h, nho')"
proof (induction p left protocol offset nho rule: extension_walk.induct)
  case (1 p left protocol offset nho)
  show ?case
  proof (cases "extension_protocol protocol")
    case False
    then show ?thesis
      using "1.prems"(1) by (simp add: extension_walk.simps)
  next
    case True
    define len where "len = extension_length p protocol offset"
    from True "1.prems"(1) obtain left' where left: "left = Suc left'"
      and ok: "offset + 2 \<le> length p" "8 \<le> len" "offset + len \<le> length p" "offset + len \<le> 512"
      and walk: "extension_walk p left' (p ! offset) (offset + len) offset = Some (protocol', h, nho')"
      by (auto simp: extension_walk.simps [of p left] len_def Let_def split: nat.splits if_splits)
    have dvd: "4 dvd offset + len"
      using "1.prems"(4) extension_length_dvd by (simp add: len_def dvd_add)
    have "offset + len \<le> h"
      using extension_walk_bounds [OF walk dvd] ok by simp
    then have "q ! offset = p ! offset" "extension_length q protocol offset = len"
      using ok "1.prems"(2) by (auto simp: extension_length_def len_def)
    moreover have "extension_walk q left' (p ! offset) (offset + len) offset = Some (protocol', h, nho')"
      using "1.IH" [OF _ left _ refl, folded len_def] True ok walk "1.prems"(2,3) dvd by simp
    ultimately show ?thesis
      using True left ok "1.prems"(3) unfolding extension_walk.simps [of q left] by (simp add: Let_def)
  qed
qed

lemma transport_agree:
  assumes "agree S p q" "ch_ip_stack_ipv6_transport p = Some (protocol, h)" "S \<inter> {0..<8} = {}" "S \<inter> {40..<h} = {}"
  shows "ch_ip_stack_ipv6_transport q = Some (protocol, h)"
proof -
  obtain nho where w: "extension_walk p 16 (p ! 6) 40 6 = Some (protocol, h, nho)"
    and ok: "40 \<le> length p" "protocol \<noteq> 44" "drop_bit 4 (p ! 0) = 6" "ch_ip_stack_read_u16 p 4 = length p - 40"
    using assms(2) by (auto simp: ch_ip_stack_ipv6_transport_def split: if_splits option.splits)
  have same: "q ! i = p ! i" if "i < 8 \<or> 40 \<le> i \<and> i < h" for i
    using assms(1,3,4) that by (auto simp: agree_def disjoint_iff)
  have "extension_walk q 16 (q ! 6) 40 6 = Some (protocol, h, nho)"
    using extension_walk_agree [OF w, of q] same assms(1) ok by (simp add: agree_def)
  moreover have "ch_ip_stack_read_u16 q 4 = ch_ip_stack_read_u16 p 4"
    by (simp add: ch_ip_stack_read_u16_def same)
  ultimately show ?thesis
    using ok assms(1) same [of 0] by (simp add: ch_ip_stack_ipv6_transport_def agree_def)
qed

section \<open>Segments\<close>

text \<open>A complete TCP segment of a family with its transport offset and its two endpoints.\<close>

fun tcp_segment :: "family \<Rightarrow> byte list \<Rightarrow> nat \<Rightarrow> byte list \<Rightarrow> nat \<Rightarrow> byte list \<Rightarrow> nat \<Rightarrow> bool" where
  "tcp_segment AF_INET p h sa sp ta tp \<longleftrightarrow>
     drop_bit 4 (p ! 0) = 4 \<and> ipv4_header_length p = h \<and> 20 \<le> h \<and> h + 20 \<le> length p \<and> p ! 9 = 6 \<and>
     sub_bytes p 12 4 = sa \<and> ch_ip_stack_read_u16 p h = sp \<and>
     sub_bytes p 16 4 = ta \<and> ch_ip_stack_read_u16 p (h + 2) = tp"
| "tcp_segment AF_INET6 p h sa sp ta tp \<longleftrightarrow>
     ch_ip_stack_ipv6_transport p = Some (6, h) \<and> h + 20 \<le> length p \<and>
     sub_bytes p 8 16 = sa \<and> ch_ip_stack_read_u16 p h = sp \<and>
     sub_bytes p 24 16 = ta \<and> ch_ip_stack_read_u16 p (h + 2) = tp"

lemma segment_version:
  "tcp_segment AF_INET6 p h sa sp ta tp \<Longrightarrow> drop_bit 4 (p ! 0) = 6 \<and> 40 \<le> h"
  using ipv6_transport_bounds(2) [of p 6 h] by (auto simp: ch_ip_stack_ipv6_transport_def split: if_splits)

lemma redirected4:
  assumes "tcp_segment AF_INET p h sa sp ta tp" "length a = 4" "n < 65536"
  shows "tcp_segment AF_INET (ch_ip_stack_ipv4_checksums (ch_ip_stack_write_u16 (put p 16 a) (h + 2) n)) h sa sp a n"
    and "tcp_segment AF_INET (ch_ip_stack_ipv4_checksums (ch_ip_stack_write_u16 (put p 12 a) h n)) h a n ta tp"
proof -
  have h: "ipv4_header_length p = h" "20 \<le> h" "h + 20 \<le> length p"
    using assms(1) by simp_all
  have fields: "tcp_segment AF_INET (ch_ip_stack_ipv4_checksums q) h sa' sp' ta' tp'"
    if agree: "agree U p q" and U: "U \<inter> {0..<12} = {}"
      and q: "sub_bytes q 12 4 = sa'" "sub_bytes q 16 4 = ta'" "ch_ip_stack_read_u16 q h = sp'"
        "ch_ip_stack_read_u16 q (h + 2) = tp'" for q U sa' ta' sp' tp'
  proof -
    let ?C = "{10, 11, h + 16, h + 17}"
    have same: "q ! 0 = p ! 0" "q ! 9 = p ! 9" "length q = length p"
      using agree U by (auto simp: agree_def disjoint_iff)
    then have "ipv4_header_length q = h"
      using h(1) by (simp add: ipv4_header_length_def)
    then have C: "agree ?C q (ch_ip_stack_ipv4_checksums q)"
      using agree_checksums4 [of q] by simp
    then have same': "ch_ip_stack_ipv4_checksums q ! 0 = p ! 0" "ch_ip_stack_ipv4_checksums q ! 9 = p ! 9"
      "length (ch_ip_stack_ipv4_checksums q) = length p"
      using same h by (simp_all add: agree_def)
    show ?thesis
      using assms(1) q same' h agree_sub_bytes [OF C, of 12 4] agree_sub_bytes [OF C, of 16 4] agree_read [OF C, of h]
        agree_read [OF C, of "h + 2"]
      by (simp add: ipv4_header_length_def)
  qed
  have "agree ({16..<20} \<union> {h + 2, h + 2 + 1}) p (ch_ip_stack_write_u16 (put p 16 a) (h + 2) n)"
    using assms(2) h agree_put [of 16 a p] by (intro agree_trans [OF _ agree_write]) auto
  then show "tcp_segment AF_INET (ch_ip_stack_ipv4_checksums (ch_ip_stack_write_u16 (put p 16 a) (h + 2) n)) h sa sp a n"
    by (rule fields) (use assms h in \<open>auto simp: packet_reads\<close>)
  have "agree ({12..<16} \<union> {h, h + 1}) p (ch_ip_stack_write_u16 (put p 12 a) h n)"
    using assms(2) h agree_put [of 12 a p] by (intro agree_trans [OF _ agree_write]) auto
  then show "tcp_segment AF_INET (ch_ip_stack_ipv4_checksums (ch_ip_stack_write_u16 (put p 12 a) h n)) h a n ta tp"
    by (rule fields) (use assms h in \<open>auto simp: packet_reads\<close>)
qed

lemma redirected6:
  assumes "tcp_segment AF_INET6 p h sa sp ta tp" "length a = 16" "n < 65536"
  shows "tcp_segment AF_INET6 (ch_ip_stack_ipv6_tcp_checksum (ch_ip_stack_write_u16 (put p 24 a) (h + 2) n)) h sa sp a n"
    and "tcp_segment AF_INET6 (ch_ip_stack_ipv6_tcp_checksum (ch_ip_stack_write_u16 (put p 8 a) h n)) h a n ta tp"
proof -
  have h: "ch_ip_stack_ipv6_transport p = Some (6, h)" "40 \<le> h" "h + 20 \<le> length p"
    using assms(1) segment_version [OF assms(1)] by simp_all
  have fields: "tcp_segment AF_INET6 (ch_ip_stack_ipv6_tcp_checksum q) h sa' sp' ta' tp'"
    if agree: "agree U p q" and U: "U \<inter> {0..<8} = {}" "U \<inter> {40..<h} = {}"
      and q: "sub_bytes q 8 16 = sa'" "sub_bytes q 24 16 = ta'" "ch_ip_stack_read_u16 q h = sp'"
        "ch_ip_stack_read_u16 q (h + 2) = tp'" for q U sa' ta' sp' tp'
  proof -
    let ?C = "{h + 16, h + 17}"
    have t: "ch_ip_stack_ipv6_transport q = Some (6, h)"
      by (rule transport_agree [OF agree h(1) U])
    note C = agree_checksum6 [OF t]
    have "ch_ip_stack_ipv6_transport (ch_ip_stack_ipv6_tcp_checksum q) = Some (6, h)"
      by (rule transport_agree [OF C t]) (use h in auto)
    moreover have "length (ch_ip_stack_ipv6_tcp_checksum q) = length p"
      using C agree by (simp add: agree_def)
    ultimately show ?thesis
      using q h agree_sub_bytes [OF C, of 8 16] agree_sub_bytes [OF C, of 24 16] agree_read [OF C, of h]
        agree_read [OF C, of "h + 2"]
      by simp
  qed
  have "agree ({24..<40} \<union> {h + 2, h + 2 + 1}) p (ch_ip_stack_write_u16 (put p 24 a) (h + 2) n)"
    using assms(2) h agree_put [of 24 a p] by (intro agree_trans [OF _ agree_write]) auto
  then show "tcp_segment AF_INET6 (ch_ip_stack_ipv6_tcp_checksum (ch_ip_stack_write_u16 (put p 24 a) (h + 2) n)) h sa sp a n"
    by (rule fields) (use assms h in \<open>auto simp: packet_reads\<close>)
  have "agree ({8..<24} \<union> {h, h + 1}) p (ch_ip_stack_write_u16 (put p 8 a) h n)"
    using assms(2) h agree_put [of 8 a p] by (intro agree_trans [OF _ agree_write]) auto
  then show "tcp_segment AF_INET6 (ch_ip_stack_ipv6_tcp_checksum (ch_ip_stack_write_u16 (put p 8 a) h n)) h a n ta tp"
    by (rule fields) (use assms h in \<open>auto simp: packet_reads\<close>)
qed

lemma input_flow_live:
  assumes "input_flow lw t family sa sp ta tp flags = (t', Inr (Some f))"
  shows "f \<in> set (live_flows t') \<and> flow_key f = (family, sa, sp, ta, tp)"
proof (cases "ch_ip_stack_tcp_flow_for_input t family sa sp ta tp")
  case None
  with assms have "ch_ip_stack_tcp_flow_create lw t family sa sp ta tp = (t', Inr f)"
    by (auto simp: input_flow_def split: if_splits prod.splits sum.splits)
  then show ?thesis
    by (auto simp: ch_ip_stack_tcp_flow_create_def Let_def live_flows_def flow_key_def new_tcp_flow_def
        split: if_splits prod.splits option.splits)
next
  case (Some g)
  with assms show ?thesis
    by (auto simp: input_flow_def ch_ip_stack_tcp_flow_for_input_def input_matches_def live_flows_def flow_key_def
        dest!: find_SomeD)
qed

lemma output_finds:
  assumes "table_inv t" "f \<in> set (live_flows t)" "flow_key f = (family, sa, sp, ta, tp)"
  shows "ch_ip_stack_tcp_flow_for_output t family sa sp (tf_internal_port f) = Some f"
proof -
  have "output_matches family sa sp (tf_internal_port f) f" "f \<in> set (tt_flows t)"
    using assms(2,3) by (auto simp: output_matches_def flow_key_def live_flows_def)
  then obtain g where g: "find (output_matches family sa sp (tf_internal_port f)) (tt_flows t) = Some g"
    using find_some_iff_ex by (metis not_None_eq)
  then have "g \<in> set (live_flows t)" "tf_internal_port g = tf_internal_port f"
    by (auto simp: output_matches_def live_flows_def dest!: find_SomeD)
  then have "g = f"
    using assms(1,2) by (auto simp: table_inv_def distinct_map dest: inj_onD)
  with g show ?thesis
    by (simp add: ch_ip_stack_tcp_flow_for_output_def)
qed

fun local_address :: "family \<Rightarrow> byte list \<Rightarrow> byte list \<Rightarrow> byte list" where
  "local_address AF_INET local4 local6 = local4"
| "local_address AF_INET6 local4 local6 = local6"

lemma input_redirects:
  assumes "ch_ip_stack_prepare_tcp_input lw local4 local6 dialer t p = (t', Inr q)" "q \<noteq> p"
    and "tcp_segment family p h sa sp ta tp" "length local4 = 4" "length local6 = 16" "table_inv t"
  obtains f where "f \<in> set (live_flows t')" "flow_key f = (family, sa, sp, ta, tp)" "table_inv t'"
    "tcp_segment family q h sa sp (local_address family local4 local6) (tf_internal_port f)"
proof -
  have t': "table_inv t'"
    using table_inv_input [OF assms(6), of lw local4 local6 dialer p] assms(1) by simp
  have port: "tf_internal_port f < 65536" if "f \<in> set (live_flows t')" for f
    using t' that by (auto simp: table_inv_def live_flows_def list_all_iff flow_ok_def)
  show ?thesis
  proof (cases family)
    case AF_INET
    have v: "drop_bit 4 (p ! 0) = 4" "ipv4_header_length p = h"
      using assms(3) AF_INET by simp_all
    then obtain f where flow: "input_flow lw t AF_INET sa sp ta tp (p ! (h + 13)) = (t', Inr (Some f))"
      and q: "q = ch_ip_stack_ipv4_checksums (ch_ip_stack_write_u16 (put p 16 local4) (h + 2) (tf_internal_port f))"
      using assms(1-3) AF_INET
      by (auto simp: ch_ip_stack_prepare_tcp_input_def ch_ip_stack_prepare_ipv4_tcp_input_def Let_def
          split: if_splits prod.splits sum.splits option.splits)
    show ?thesis
      using input_flow_live [OF flow] port [of f] redirected4(1) [of p h sa sp ta tp local4] assms(3,4) q t' AF_INET
      by (intro that [of f]) auto
  next
    case AF_INET6
    then have "drop_bit 4 (p ! 0) = 6" "ch_ip_stack_ipv6_transport p = Some (6, h)"
      using assms(3) segment_version by auto
    then obtain f where flow: "input_flow lw t AF_INET6 sa sp ta tp (p ! (h + 13)) = (t', Inr (Some f))"
      and q: "q = ch_ip_stack_ipv6_tcp_checksum (ch_ip_stack_write_u16 (put p 24 local6) (h + 2) (tf_internal_port f))"
      using assms(1-3) AF_INET6
      by (auto simp: ch_ip_stack_prepare_tcp_input_def ch_ip_stack_prepare_ipv6_tcp_input_def Let_def
          split: if_splits prod.splits sum.splits option.splits)
    show ?thesis
      using input_flow_live [OF flow] port [of f] redirected6(1) [of p h sa sp ta tp local6] assms(3,5) q t' AF_INET6
      by (intro that [of f]) auto
  qed
qed

lemma output_restores:
  assumes "table_inv t" "f \<in> set (live_flows t)" "flow_key f = (family, sa, sp, ta, tp)"
    and "tcp_segment family r h a (tf_internal_port f) sa sp"
  shows "tcp_segment family (ch_ip_stack_rewrite_tcp_output t r) h ta tp sa sp"
proof -
  have found: "ch_ip_stack_tcp_flow_for_output t family sa sp (tf_internal_port f) = Some f"
    by (rule output_finds [OF assms(1-3)])
  have f: "tf_target_address f = ta" "tf_target_port f = tp" "tp < 65536" "length ta = ch_ip_stack_address_length family"
    using assms(1-3) by (auto simp: table_inv_def live_flows_def list_all_iff flow_ok_def flow_key_def)
  show ?thesis
  proof (cases family)
    case AF_INET
    then have "ch_ip_stack_rewrite_tcp_output t r =
        ch_ip_stack_ipv4_checksums (ch_ip_stack_write_u16 (put r 12 ta) h tp)"
      using assms(4) found f by (simp add: ch_ip_stack_rewrite_tcp_output_def Let_def)
    then show ?thesis
      using redirected4(2) [of r h a "tf_internal_port f" sa sp ta tp] assms(4) f AF_INET
      by (simp add: ch_ip_stack_address_length_def)
  next
    case AF_INET6
    then have "ch_ip_stack_rewrite_tcp_output t r =
        ch_ip_stack_ipv6_tcp_checksum (ch_ip_stack_write_u16 (put r 8 ta) h tp)"
      using assms(4) found f segment_version [of r h a] by (simp add: ch_ip_stack_rewrite_tcp_output_def Let_def)
    then show ?thesis
      using redirected6(2) [of r h a "tf_internal_port f" sa sp ta tp] assms(4) f AF_INET6
      by (simp add: ch_ip_stack_address_length_def)
  qed
qed

section \<open>A port is always found\<close>

lemma allocate_first:
  "0 < k \<Longrightarrow> \<not> ch_ip_stack_tcp_port_in_use flows n \<Longrightarrow> bind n = Some ERR_OK \<Longrightarrow>
    allocate_port k bind flows n e = (Some n, ERR_OK, following_port n)"
  by (cases k) simp_all

text \<open>The ports that are tried, in their order around the range.\<close>

lemma following_port_mod:
  "20000 \<le> n \<Longrightarrow> n \<le> 59999 \<Longrightarrow> following_port n = 20000 + (n - 20000 + 1) mod 40000"
  by (cases "n = 59999") (auto simp: following_port_def Let_def)

lemma allocate_port_tries:
  "allocate_port k bind flows n e = (None, e', n') \<Longrightarrow> (\<And>p. bind p = Some ERR_OK) \<Longrightarrow> 20000 \<le> n \<Longrightarrow> n \<le> 59999 \<Longrightarrow>
    i < k \<Longrightarrow> ch_ip_stack_tcp_port_in_use flows (20000 + (n - 20000 + i) mod 40000)"
proof (induction k arbitrary: n e i)
  case (Suc k)
  have used: "ch_ip_stack_tcp_port_in_use flows n"
    using Suc.prems(1,2) by (auto split: if_splits)
  show ?case
  proof (cases i)
    case 0
    with used Suc.prems(3,4) show ?thesis
      by simp
  next
    case (Suc j)
    let ?m = "following_port n"
    have m: "20000 \<le> ?m" "?m \<le> 59999" "?m - 20000 = (n - 20000 + 1) mod 40000"
      using following_port_bounds [OF Suc.prems(3,4)] following_port_mod [OF Suc.prems(3,4)] by simp_all
    have "ch_ip_stack_tcp_port_in_use flows (20000 + (?m - 20000 + j) mod 40000)"
      using Suc.IH [OF _ Suc.prems(2) m(1,2), of e j] Suc.prems(1,5) used Suc by simp
    then show ?thesis
      using m(3) Suc by (simp add: mod_add_left_eq add.assoc)
  qed
qed simp

lemma allocate_port_ok: "allocate_port k bind flows n e = (Some p, e', n') \<Longrightarrow> e' = ERR_OK"
  by (induction k bind flows n e rule: allocate_port.induct) (auto split: if_splits option.splits err_t.splits)

lemma allocate_port_finds:
  assumes "\<And>p. bind p = Some ERR_OK" "20000 \<le> n" "n \<le> 59999" "length flows < 40000"
  obtains p n' where "allocate_port 40000 bind flows n e = (Some p, ERR_OK, n')"
proof (cases "allocate_port 40000 bind flows n e")
  case (fields port e' n')
  have "port \<noteq> None"
  proof
    assume "port = None"
    then have used: "ch_ip_stack_tcp_port_in_use flows (20000 + (n - 20000 + i) mod 40000)" if "i < 40000" for i
      using allocate_port_tries [of 40000 bind flows n e e' n' i] fields assms(1-3) that by simp
    have "20000 + j \<in> tf_internal_port ` set flows" if "j < 40000" for j
    proof -
      let ?i = "(j + 40000 - (n - 20000)) mod 40000"
      have "(n - 20000 + ?i) mod 40000 = (n - 20000 + (j + 40000 - (n - 20000))) mod 40000"
        by (rule mod_add_right_eq)
      also have "\<dots> = j"
        using that assms(2,3) by simp
      finally show ?thesis
        using used [of ?i] by (auto simp: ch_ip_stack_tcp_port_in_use_def list_ex_iff image_iff eq_commute)
    qed
    then have "(+) 20000 ` {..<40000} \<subseteq> tf_internal_port ` set flows"
      by auto
    then have "card ((+) 20000 ` {..<40000 :: nat}) \<le> card (tf_internal_port ` set flows)"
      by (intro card_mono) simp_all
    also have "\<dots> \<le> length flows"
      using card_image_le [of "set flows" tf_internal_port] card_length [of flows] by simp
    finally show False
      using assms(4) by (simp add: card_image)
  qed
  then show ?thesis
    using that fields allocate_port_ok by blast
qed

section \<open>Properties of the translation\<close>

text \<open>C27: The translation is undone for the answers: when the stack redirects a client's segment to its own
  address and an internal port, a segment from that address and port back to the client leaves with the
  original target as its source and the client as its destination, whatever happened before.\<close>

theorem nat_round_trip:
  assumes "nat_reach ob junk local4 local6 t" "length local4 = 4" "length local6 = 16"
    and "tcp_segment family p h sa sp ta tp"
    and "ch_ip_stack_prepare_tcp_input lw local4 local6 dialer t p = (t', Inr q)" "q \<noteq> p"
    and "tcp_segment family r k (local_address family local4 local6) (ch_ip_stack_read_u16 q (h + 2)) sa sp"
  shows "tcp_segment family q h sa sp (local_address family local4 local6) (ch_ip_stack_read_u16 q (h + 2)) \<and>
    tcp_segment family (ch_ip_stack_rewrite_tcp_output t' r) k ta tp sa sp"
proof -
  obtain f where f: "f \<in> set (live_flows t')" "flow_key f = (family, sa, sp, ta, tp)" "table_inv t'"
    and q: "tcp_segment family q h sa sp (local_address family local4 local6) (tf_internal_port f)"
    using input_redirects [OF assms(5,6,4,2,3) table_inv_reach [OF assms(1)]] .
  have "ch_ip_stack_read_u16 q (h + 2) = tf_internal_port f"
    using q by (cases family) simp_all
  with assms(7) q output_restores [OF f(3,1,2)] show ?thesis
    by simp
qed

definition sample_lwip :: lwip_results where
  "sample_lwip = \<lparr>lw_now = 5, lw_bind = (\<lambda>_. Some ERR_OK), lw_listener = True, lw_listen = ERR_OK\<rparr>"

definition sample_local4 :: "byte list" where
  "sample_local4 = [198, 18, 0, 1]"

definition sample_local6 :: "byte list" where
  "sample_local6 = [0xfd, 0x7a, 0x63, 0x6c, 0x61, 0x6d, 0, 0, 0, 0, 0, 0, 0, 0, 0, 1]"

definition sample_answer :: "byte list" where
  "sample_answer = [0x45, 0, 0, 40, 0, 1, 0x40, 0, 64, 6, 0, 0, 198, 18, 0, 1, 10, 0, 0, 1] @
     [0x4e, 0x20, 0x1f, 0x90, 0, 0, 0, 1, 0, 0, 0, 0, 0x50, 0x12, 0xff, 0xff, 0, 0, 0, 0]"

definition sample_opened :: tcp_table where
  "sample_opened = \<lparr>tt_flows = [new_tcp_flow AF_INET [10, 0, 0, 1] 8080 [10, 0, 0, 2] 80 5 [] 20000], tt_count = 1,
     tt_next_port = 20001, tt_cache = empty_cache\<rparr>"

lemma sample_segments:
  "tcp_segment AF_INET sample_tcp4 20 [10, 0, 0, 1] 8080 [10, 0, 0, 2] 80"
  "tcp_segment AF_INET sample_answer 20 sample_local4 20000 [10, 0, 0, 1] 8080"
  by (simp_all add: sample_tcp4_def sample_answer_def sample_local4_def ipv4_header_length_def sub_bytes_def
      ch_ip_stack_read_u16_def)

lemma sample_redirect:
  "ch_ip_stack_prepare_tcp_input sample_lwip sample_local4 sample_local6 True empty_tcp_table sample_tcp4 =
     (sample_opened, Inr (ch_ip_stack_ipv4_checksums
        (ch_ip_stack_write_u16 (put sample_tcp4 16 sample_local4) (20 + 2) 20000)))"
proof -
  have "input_flow sample_lwip empty_tcp_table AF_INET [10, 0, 0, 1] 8080 [10, 0, 0, 2] 80 2 =
      (sample_opened, Inr (Some (new_tcp_flow AF_INET [10, 0, 0, 1] 8080 [10, 0, 0, 2] 80 5 [] 20000)))"
    by (simp add: input_flow_def ch_ip_stack_tcp_flow_for_input_def empty_tcp_table_def ch_ip_stack_tcp_flow_create_def
        allocate_first ch_ip_stack_tcp_port_in_use_def sample_lwip_def ch_ip_stack_domain_hint_def
        ch_ip_stack_dns_cache_lookup_def empty_cache_def following_port_def sample_opened_def Let_def)
  moreover have "sample_tcp4 ! (20 + 13) = 2" "ch_ip_stack_read_u16 sample_tcp4 2 = 40" "length sample_tcp4 = 40"
    "ch_ip_stack_read_u16 sample_tcp4 6 mod 0x4000 = 0" "tcp_header_length sample_tcp4 20 = 20"
    by (simp_all add: sample_tcp4_def ch_ip_stack_read_u16_def tcp_header_length_def)
  ultimately show ?thesis
    using sample_segments(1)
    by (simp add: ch_ip_stack_prepare_tcp_input_def ch_ip_stack_prepare_ipv4_tcp_input_def Let_def sample_local4_def
        new_tcp_flow_def)
qed

theorem nat_round_trip_witness:
  "tcp_segment AF_INET (ch_ip_stack_rewrite_tcp_output sample_opened sample_answer) 20 [10, 0, 0, 2] 80 [10, 0, 0, 1] 8080"
proof -
  let ?q = "ch_ip_stack_ipv4_checksums (ch_ip_stack_write_u16 (put sample_tcp4 16 sample_local4) (20 + 2) 20000)"
  have q: "tcp_segment AF_INET ?q 20 [10, 0, 0, 1] 8080 sample_local4 20000"
    using redirected4(1) [OF sample_segments(1), of sample_local4 20000] by (simp add: sample_local4_def)
  then have "?q \<noteq> sample_tcp4"
    using sample_segments(1) by (auto simp: sample_local4_def)
  moreover have "nat_reach \<lparr>ob_bytes = True, ob_close = True\<rparr> (\<lambda>_. 0) sample_local4 sample_local6 empty_tcp_table"
    by (rule nat_start)
  ultimately show ?thesis
    using nat_round_trip [OF _ _ _ sample_segments(1) sample_redirect, of "\<lparr>ob_bytes = True, ob_close = True\<rparr>" "\<lambda>_. 0"
        sample_answer 20] q sample_segments(2)
    by (simp add: sample_local4_def sample_local6_def)
qed

text \<open>C28: While fewer than 512 flows exist, a new flow always finds a free internal port, however the next port
  has advanced, as long as lwIP binds the ports it is asked for.\<close>

theorem flow_creation_finds_port:
  assumes "nat_reach ob junk local4 local6 t" "tt_count t < 512"
    and "\<And>port. lw_bind lw port = Some ERR_OK" "lw_listener lw" "lw_listen lw = ERR_OK"
  shows "\<exists>t' f. ch_ip_stack_tcp_flow_create lw t family sa sp ta tp = (t', Inr f) \<and> tt_count t' = tt_count t + 1"
proof -
  have bounds: "20000 \<le> tt_next_port t" "tt_next_port t \<le> 59999" "length (tt_flows t) < 40000"
    using table_inv_reach [OF assms(1)] assms(2) by (simp_all add: table_inv_def)
  obtain p n' where port: "allocate_port 40000 (lw_bind lw) (tt_flows t) (tt_next_port t) ERR_USE = (Some p, ERR_OK, n')"
    by (rule allocate_port_finds [OF assms(3) bounds])
  obtain c hint where "ch_ip_stack_domain_hint (lw_now lw) family ta tp (tt_cache t) = (c, hint)"
    by (cases "ch_ip_stack_domain_hint (lw_now lw) family ta tp (tt_cache t)")
  with port assms(2,4,5) show ?thesis
    by (simp add: ch_ip_stack_tcp_flow_create_def Let_def)
qed

theorem flow_creation_finds_port_witness:
  "\<exists>t' f. ch_ip_stack_tcp_flow_create sample_lwip empty_tcp_table AF_INET [10, 0, 0, 1] 8080 [10, 0, 0, 2] 80 = (t', Inr f) \<and>
     tt_count t' = tt_count empty_tcp_table + 1"
  by (rule flow_creation_finds_port [OF nat_start]) (simp_all add: empty_tcp_table_def sample_lwip_def)

end
