(* ===== verification/Ip_Stack.thy ===== *)
theory Ip_Stack
  imports Tcp_Nat Ip_Fragments
begin

text \<open>
  The user-space IP stack of \<^verbatim>\<open>src/native/src/ip_stack.c\<close> as a whole: UDP flows, DNS interception, and the entry
  points that compose fragment reassembly, TCP translation, UDP forwarding and the periodic tick.  The
  callbacks of the options are arguments; a UDP connection is a number; what lwIP does with a packet is the
  list of callbacks it makes on the TCP flows.
\<close>

section \<open>UDP flows\<close>

record ch_ip_stack_udp_flow =
  uf_connection :: nat
  uf_source_address :: "byte list"
  uf_target_address :: "byte list"
  uf_address_family :: family
  uf_source_port :: nat
  uf_target_port :: nat
  uf_domain_hint :: string
  uf_last_activity :: "32 word"
  uf_dead :: bool
  uf_flow_id :: nat
  uf_close_observed :: bool

record ch_ip_stack =
  is_tcp :: tcp_table
  is_udp :: "ch_ip_stack_udp_flow list"
  is_udp_count :: nat
  is_fragments :: fragment_table

text \<open>What stays the same after creation.  The UDP dialer answers a status, a connection if there is one, and a
  flow identifier; the DNS exchange answers a status and possibly a response.\<close>

record stack_config =
  sc_local4 :: "byte list"
  sc_local6 :: "byte list"
  sc_mtu :: nat
  sc_observers :: observers
  sc_tcp_dialer :: "tcp_dialer option"
  sc_udp_dialer :: "(string \<Rightarrow> string \<Rightarrow> string \<Rightarrow> ch_status \<times> nat option \<times> nat) option"
  sc_udp_sender :: "nat \<Rightarrow> string \<Rightarrow> byte list \<Rightarrow> ch_status"
  sc_dns_exchange :: "(byte list \<Rightarrow> ch_status \<times> byte list option) option"

definition udp_matches ::
  "family \<Rightarrow> byte list \<Rightarrow> nat \<Rightarrow> byte list \<Rightarrow> nat \<Rightarrow> ch_ip_stack_udp_flow \<Rightarrow> bool" where
  "udp_matches family sa sp ta tp f \<longleftrightarrow>
     \<not> uf_dead f \<and> uf_address_family f = family \<and> uf_source_port f = sp \<and> uf_target_port f = tp \<and>
     uf_source_address f = sa \<and> uf_target_address f = ta"

text \<open>The position of the flow.\<close>

fun ch_ip_stack_udp_flow_find ::
  "family \<Rightarrow> byte list \<Rightarrow> nat \<Rightarrow> byte list \<Rightarrow> nat \<Rightarrow> ch_ip_stack_udp_flow list \<Rightarrow> nat option" where
  "ch_ip_stack_udp_flow_find family sa sp ta tp [] = None"
| "ch_ip_stack_udp_flow_find family sa sp ta tp (f # fs) =
     (if udp_matches family sa sp ta tp f then Some 0
      else map_option Suc (ch_ip_stack_udp_flow_find family sa sp ta tp fs))"

definition ch_ip_stack_udp_flow_create ::
  "stack_config \<Rightarrow> 32 word \<Rightarrow> ch_ip_stack \<Rightarrow> family \<Rightarrow> byte list \<Rightarrow> nat \<Rightarrow> byte list \<Rightarrow> nat \<Rightarrow>
     ch_ip_stack \<times> effect list \<times> ch_status" where
  "ch_ip_stack_udp_flow_create cfg now s family sa sp ta tp =
     (if 512 \<le> is_udp_count s then (s, [], CH_ERROR_INVALID_STATE)
      else
        case ch_ip_stack_domain_hint now family ta tp (tt_cache (is_tcp s)) of (cache, hint) \<Rightarrow>
        (let s = s\<lparr>is_tcp := (is_tcp s)\<lparr>tt_cache := cache\<rparr>\<rparr> in
         case (ch_ip_stack_format_endpoint family ta tp, ch_ip_stack_format_endpoint family sa sp, sc_udp_dialer cfg) of
           (Some target, Some source, Some dialer) \<Rightarrow>
             (case dialer target source hint of
                (CH_OK, Some connection, flow_id) \<Rightarrow>
                  (s\<lparr>is_udp := \<lparr>uf_connection = connection, uf_source_address = sa, uf_target_address = ta,
                       uf_address_family = family, uf_source_port = sp, uf_target_port = tp, uf_domain_hint = hint,
                       uf_last_activity = now, uf_dead = False, uf_flow_id = flow_id,
                       uf_close_observed = False\<rparr> # is_udp s,
                     is_udp_count := is_udp_count s + 1\<rparr>, [], CH_OK)
              | (status, connection, flow_id) \<Rightarrow>
                  (s, case connection of None \<Rightarrow> [] | Some c \<Rightarrow> [Connection_Closed c],
                   if status = CH_OK then CH_ERROR_INVALID_STATE else status))
         | _ \<Rightarrow> (s, [], CH_ERROR_INTERNAL)))"

text \<open>One datagram that a connection receives: the status, the source and the payload, with the identification
  and the clock that go with it.\<close>

record udp_receive =
  ur_status :: ch_status
  ur_source :: "string option"
  ur_payload :: "byte list"
  ur_ident :: nat
  ur_now :: "32 word"

fun udp_receive_loop ::
  "stack_config \<Rightarrow> nat \<Rightarrow> udp_receive list \<Rightarrow> ch_ip_stack_udp_flow \<Rightarrow> ch_ip_stack_udp_flow \<times> effect list" where
  "udp_receive_loop cfg attempts [] f = (f, [])"
| "udp_receive_loop cfg attempts (r # rs) f =
     (if attempts = 0 \<or> ur_status r = CH_ERROR_NOT_FOUND then (f, [])
      else if ur_status r \<noteq> CH_OK \<or> ur_source r = None \<or> sc_mtu cfg < length (ur_payload r)
      then (f\<lparr>uf_dead := True\<rparr>, [])
      else
        (case ch_ip_stack_parse_endpoint (ur_source r) (uf_address_family f) of
           None \<Rightarrow> (f\<lparr>uf_dead := True\<rparr>, [])
         | Some (remote_address, remote_port) \<Rightarrow>
             (case ch_ip_stack_emit_udp_response (sc_mtu cfg) (ur_ident r) (uf_address_family f) remote_address
                     remote_port (uf_source_address f) (uf_source_port f) (ur_payload r) of
                Inl e \<Rightarrow> (f\<lparr>uf_dead := True\<rparr>, [])
              | Inr packet \<Rightarrow>
                  (case udp_receive_loop cfg (attempts - 1) rs (f\<lparr>uf_last_activity := ur_now r\<rparr>) of
                     (f', es) \<Rightarrow>
                       (f', Packet_Written packet #
                            ch_ip_stack_observe_bytes (sc_observers cfg) (uf_flow_id f) (length (ur_payload r)) 0 @
                            es)))))"

definition ch_ip_stack_udp_flow_tick ::
  "stack_config \<Rightarrow> 32 word \<Rightarrow> udp_receive list \<Rightarrow> ch_ip_stack_udp_flow \<Rightarrow> ch_ip_stack_udp_flow \<times> effect list" where
  "ch_ip_stack_udp_flow_tick cfg now rs f =
     (if uf_dead f then (f, [])
      else (case udp_receive_loop cfg 4 rs f of
          (f, es) \<Rightarrow> (if 120000 \<le> unat (now - uf_last_activity f) then f\<lparr>uf_dead := True\<rparr> else f, es)))"

definition ch_ip_stack_udp_observe_close :: "observers \<Rightarrow> string \<Rightarrow> ch_ip_stack_udp_flow \<Rightarrow> effect list" where
  "ch_ip_stack_udp_observe_close ob reason f =
     (if \<not> uf_close_observed f \<and> ob_close ob \<and> uf_flow_id f \<noteq> 0 then [Flow_Close (uf_flow_id f) reason] else [])"

definition ch_ip_stack_udp_sweep :: "stack_config \<Rightarrow> ch_ip_stack \<Rightarrow> ch_ip_stack \<times> effect list" where
  "ch_ip_stack_udp_sweep cfg s =
     (s\<lparr>is_udp := filter (\<lambda>f. \<not> uf_dead f) (is_udp s),
        is_udp_count := is_udp_count s - length (filter uf_dead (is_udp s))\<rparr>,
      concat (map (\<lambda>f. ch_ip_stack_udp_observe_close (sc_observers cfg) ''closed'' f @
                       [Connection_Closed (uf_connection f)]) (filter uf_dead (is_udp s))))"

section \<open>Datagrams from the client\<close>

record moment =
  mo_now :: "32 word"
  mo_answers :: "nat \<Rightarrow> 32 word"
  mo_ident :: nat

definition forward_datagram ::
  "stack_config \<Rightarrow> moment \<Rightarrow> family \<Rightarrow> udp_datagram \<Rightarrow> nat \<Rightarrow> ch_ip_stack \<Rightarrow>
     ch_ip_stack \<times> effect list \<times> ch_status" where
  "forward_datagram cfg mo family d i s =
     (let f = is_udp s ! i;
          kill = s\<lparr>is_udp := (is_udp s)[i := f\<lparr>uf_dead := True\<rparr>]\<rparr>
      in case ch_ip_stack_format_endpoint family (ud_target d) (ud_target_port d) of
           None \<Rightarrow> (kill, [], CH_ERROR_INTERNAL)
         | Some target \<Rightarrow>
             let status = sc_udp_sender cfg (uf_connection f) target (ud_payload d);
                 sent = Datagram_Sent (uf_connection f) target (ud_payload d)
             in if status \<noteq> CH_OK then (kill, [sent], status)
                else (s\<lparr>is_udp := (is_udp s)[i := f\<lparr>uf_last_activity := mo_now mo\<rparr>]\<rparr>,
                      sent # ch_ip_stack_observe_bytes (sc_observers cfg) (uf_flow_id f) 0 (length (ud_payload d)),
                      CH_OK))"

definition ch_ip_stack_handle_udp_payload ::
  "stack_config \<Rightarrow> moment \<Rightarrow> family \<Rightarrow> udp_datagram \<Rightarrow> ch_ip_stack \<Rightarrow> ch_ip_stack \<times> effect list \<times> ch_status" where
  "ch_ip_stack_handle_udp_payload cfg mo family d s =
     (case (if ud_target_port d = 53 then sc_dns_exchange cfg else None) of
        Some exchange \<Rightarrow>
          (case exchange (ud_payload d) of
             (status, None) \<Rightarrow> (s, [], status)
           | (status, Some response) \<Rightarrow>
               let cache = ch_ip_stack_dns_cache_response (mo_answers mo) (ud_payload d) response (tt_cache (is_tcp s));
                   s = s\<lparr>is_tcp := (is_tcp s)\<lparr>tt_cache := cache\<rparr>\<rparr>
               in (case ch_ip_stack_emit_udp_response (sc_mtu cfg) (mo_ident mo) family (ud_target d) (ud_target_port d)
                          (ud_source d) (ud_source_port d) response of
                     Inl e \<Rightarrow> (s, [], e)
                   | Inr packet \<Rightarrow> (s, [Packet_Written packet], CH_OK)))
      | None \<Rightarrow>
          if sc_udp_dialer cfg = None then (s, [], CH_ERROR_UNSUPPORTED)
          else
            (case ch_ip_stack_udp_flow_find family (ud_source d) (ud_source_port d) (ud_target d) (ud_target_port d)
                    (is_udp s) of
               Some i \<Rightarrow> forward_datagram cfg mo family d i s
             | None \<Rightarrow>
                 (case ch_ip_stack_udp_flow_create cfg (mo_now mo) s family (ud_source d) (ud_source_port d)
                         (ud_target d) (ud_target_port d) of
                    (s, es, status) \<Rightarrow>
                      if status \<noteq> CH_OK then (s, es, status)
                      else (case forward_datagram cfg mo family d 0 s of (s, es', status) \<Rightarrow> (s, es @ es', status)))))"

section \<open>The tick\<close>

text \<open>Callbacks that lwIP makes on the flows of the table.\<close>

definition run_events :: "stack_config \<Rightarrow> (nat \<Rightarrow> byte) \<Rightarrow> (nat \<times> relay_op) list \<Rightarrow> tcp_table \<Rightarrow> tcp_table" where
  "run_events cfg junk events t =
     fold (\<lambda>(i, a) t. if i < length (tt_flows t)
         then t\<lparr>tt_flows := (tt_flows t)[i := fst (run_relay (sc_observers cfg) junk a (tt_flows t ! i))]\<rparr> else t)
       events t"

text \<open>The callbacks of lwIP's expired timers, the results that the TCP flows and the UDP flows meet, by their
  position in the lists, and the clock.\<close>

record tick_world =
  tw_timers :: "(nat \<times> relay_op) list"
  tw_tcp :: "nat \<Rightarrow> tick_results"
  tw_udp :: "nat \<Rightarrow> udp_receive list"
  tw_now :: "32 word"

definition ch_ip_stack_tick ::
  "stack_config \<Rightarrow> (nat \<Rightarrow> byte) \<Rightarrow> tick_world \<Rightarrow> ch_ip_stack \<Rightarrow> ch_ip_stack" where
  "ch_ip_stack_tick cfg junk w s =
     (let s = s\<lparr>is_tcp := tcp_tick (sc_observers cfg) junk (tw_tcp w) (run_events cfg junk (tw_timers w) (is_tcp s))\<rparr>;
          s = s\<lparr>is_udp := map (\<lambda>(i, f). fst (ch_ip_stack_udp_flow_tick cfg (tw_now w) (tw_udp w i) f))
                  (enumerate 0 (is_udp s))\<rparr>;
          s = fst (ch_ip_stack_udp_sweep cfg s)
      in s\<lparr>is_fragments := fragment_tick (tw_now w) (is_fragments s)\<rparr>)"

section \<open>Packets from the tunnel\<close>

text \<open>What lwIP does with a packet: the callbacks it makes on the flows of the table, and its result.\<close>

record lwip_input =
  li_buffer :: bool
  li_events :: "(nat \<times> relay_op) list"
  li_result :: err_t

text \<open>The last stages of \<^verbatim>\<open>ch_ip_stack_inject\<close>: a whole packet, first towards the UDP code and lwIP, before that
  through the TCP translation.\<close>

definition inject_translated ::
  "stack_config \<Rightarrow> (nat \<Rightarrow> byte) \<Rightarrow> moment \<Rightarrow> lwip_input \<Rightarrow> tick_world \<Rightarrow> byte list \<Rightarrow> ch_ip_stack \<Rightarrow>
     ch_ip_stack \<times> ch_status" where
  "inject_translated cfg junk mo li w q s =
     (case ch_ip_stack_handle_udp_input (sc_local4 cfg) (sc_local6 cfg) q of
        Inl e \<Rightarrow> (ch_ip_stack_tick cfg junk w s, e)
      | Inr (Some d) \<Rightarrow>
          (case ch_ip_stack_handle_udp_payload cfg mo (if drop_bit 4 (q ! 0) = 4 then AF_INET else AF_INET6) d s of
             (s, es, status) \<Rightarrow> (ch_ip_stack_tick cfg junk w s, status))
      | Inr None \<Rightarrow>
          if \<not> li_buffer li then (s, CH_ERROR_OUT_OF_MEMORY)
          else
            let s = s\<lparr>is_tcp := run_events cfg junk (li_events li) (is_tcp s)\<rparr> in
            if li_result li \<noteq> ERR_OK then (s, CH_ERROR_PARSE)
            else (ch_ip_stack_tick cfg junk w s, CH_OK))"

definition inject_whole ::
  "stack_config \<Rightarrow> (nat \<Rightarrow> byte) \<Rightarrow> moment \<Rightarrow> lwip_results \<Rightarrow> lwip_input \<Rightarrow> tick_world \<Rightarrow> byte list \<Rightarrow>
     ch_ip_stack \<Rightarrow> ch_ip_stack \<times> ch_status" where
  "inject_whole cfg junk mo lw li w p s =
     (case ch_ip_stack_prepare_tcp_input lw (sc_local4 cfg) (sc_local6 cfg) (sc_tcp_dialer cfg \<noteq> None) (is_tcp s) p of
        (tcp, Inl e) \<Rightarrow> (s\<lparr>is_tcp := tcp\<rparr>, e)
      | (tcp, Inr q) \<Rightarrow> inject_translated cfg junk mo li w q (s\<lparr>is_tcp := tcp\<rparr>))"

definition ch_ip_stack_inject ::
  "stack_config \<Rightarrow> (nat \<Rightarrow> byte) \<Rightarrow> moment \<Rightarrow> lwip_results \<Rightarrow> lwip_input \<Rightarrow> tick_world \<Rightarrow> byte list option \<Rightarrow>
     ch_ip_stack \<Rightarrow> ch_ip_stack \<times> ch_status" where
  "ch_ip_stack_inject cfg junk mo lw li w packet s =
     (case packet of
        None \<Rightarrow> (s, CH_ERROR_INVALID_ARGUMENT)
      | Some p \<Rightarrow>
          if length p < 20 \<or> 65535 < length p then (s, CH_ERROR_INVALID_ARGUMENT)
          else
            let version = drop_bit 4 (p ! 0) in
            if version \<noteq> 4 \<and> version \<noteq> 6 \<or> version = 6 \<and> length p < 40 then (s, CH_ERROR_PARSE)
            else
              (case ch_ip_stack_prepare_input_packet junk (mo_now mo) p (is_fragments s) of
                 (fragments, Inl e) \<Rightarrow> (s\<lparr>is_fragments := fragments\<rparr>, e)
               | (fragments, Inr None) \<Rightarrow> (ch_ip_stack_tick cfg junk w (s\<lparr>is_fragments := fragments\<rparr>), CH_OK)
               | (fragments, Inr (Some q)) \<Rightarrow> inject_whole cfg junk mo lw li w q (s\<lparr>is_fragments := fragments\<rparr>)))"

section \<open>Creating and destroying the stack\<close>

record ch_ip_stack_options =
  io_packet_writer :: bool
  io_tcp_dialer :: "tcp_dialer option"
  io_udp_dialer :: "(string \<Rightarrow> string \<Rightarrow> string \<Rightarrow> ch_status \<times> nat option \<times> nat) option"
  io_udp_sender :: "(nat \<Rightarrow> string \<Rightarrow> byte list \<Rightarrow> ch_status) option"
  io_udp_receiver :: bool
  io_udp_closer :: bool
  io_flow_bytes :: bool
  io_flow_close :: bool
  io_dns_exchange :: "(byte list \<Rightarrow> ch_status \<times> byte list option) option"
  io_ipv4_address :: "string option"
  io_ipv4_netmask :: "string option"
  io_ipv6_address :: "string option"
  io_mtu :: nat

definition text_or :: "string \<Rightarrow> string option \<Rightarrow> string" where
  "text_or fallback given = (case given of None \<Rightarrow> fallback | Some s \<Rightarrow> if s = [] then fallback else s)"

text \<open>lwIP parses the addresses and adds the interface: \<open>aton4\<close>, \<open>aton6\<close>, \<open>added\<close> and \<open>added6\<close>.\<close>

definition ch_ip_stack_create ::
  "(string \<Rightarrow> byte list option) \<Rightarrow> (string \<Rightarrow> byte list option) \<Rightarrow> bool \<Rightarrow> bool \<Rightarrow> ch_ip_stack_options option \<Rightarrow>
     (stack_config \<times> ch_ip_stack) result" where
  "ch_ip_stack_create aton4 aton6 added added6 options =
     (case options of
        None \<Rightarrow> Inl CH_ERROR_INVALID_ARGUMENT
      | Some opts \<Rightarrow>
          if \<not> io_packet_writer opts then Inl CH_ERROR_INVALID_ARGUMENT
          else
            let mtu = (if io_mtu opts = 0 then 1500 else io_mtu opts) in
            if mtu < 1280 \<or> 65535 < mtu then Inl CH_ERROR_INVALID_ARGUMENT
            else
              let any = io_udp_dialer opts \<noteq> None \<or> io_udp_sender opts \<noteq> None \<or> io_udp_receiver opts \<or> io_udp_closer opts;
                  all = io_udp_dialer opts \<noteq> None \<and> io_udp_sender opts \<noteq> None \<and> io_udp_receiver opts \<and> io_udp_closer opts
              in if any \<and> \<not> all then Inl CH_ERROR_INVALID_ARGUMENT
                 else
                   (case (aton4 (text_or ''198.18.0.1'' (io_ipv4_address opts)),
                          aton4 (text_or ''255.255.255.252'' (io_ipv4_netmask opts)),
                          aton6 (text_or ''fd7a:636c:616d::1'' (io_ipv6_address opts))) of
                      (Some local4, Some netmask, Some local6) \<Rightarrow>
                        if \<not> added \<or> \<not> added6 then Inl CH_ERROR_INTERNAL
                        else
                          Inr (\<lparr>sc_local4 = local4, sc_local6 = local6, sc_mtu = mtu,
                                sc_observers = \<lparr>ob_bytes = io_flow_bytes opts, ob_close = io_flow_close opts\<rparr>,
                                sc_tcp_dialer = io_tcp_dialer opts, sc_udp_dialer = io_udp_dialer opts,
                                sc_udp_sender = (case io_udp_sender opts of
                                    None \<Rightarrow> (\<lambda>_ _ _. CH_ERROR_UNSUPPORTED) | Some sender \<Rightarrow> sender),
                                sc_dns_exchange = io_dns_exchange opts\<rparr>,
                               \<lparr>is_tcp = empty_tcp_table, is_udp = [], is_udp_count = 0, is_fragments = empty_table\<rparr>)
                    | _ \<Rightarrow> Inl CH_ERROR_INVALID_ARGUMENT))"

text \<open>Destroying aborts every flow and sweeps the tables; what is left holds no flow.\<close>

definition ch_ip_stack_destroy :: "stack_config \<Rightarrow> ch_ip_stack \<Rightarrow> ch_ip_stack" where
  "ch_ip_stack_destroy cfg s =
     (let t = is_tcp s;
          tcp = ch_ip_stack_tcp_sweep
            (t\<lparr>tt_flows := map (\<lambda>f. fst (ch_ip_stack_tcp_flow_abort (sc_observers cfg) f)) (tt_flows t)\<rparr>);
          s = s\<lparr>is_tcp := tcp, is_udp := map (\<lambda>f. f\<lparr>uf_dead := True\<rparr>) (is_udp s)\<rparr>;
          s = fst (ch_ip_stack_udp_sweep cfg s);
          fr = is_fragments s
      in s\<lparr>is_fragments := ch_ip_stack_fragment_sweep
             (fr\<lparr>ft_flows := map (\<lambda>f. f\<lparr>ff_dead := True\<rparr>) (ft_flows fr)\<rparr>)\<rparr>)"

section \<open>The invariant of the stack\<close>

definition udp_key :: "ch_ip_stack_udp_flow \<Rightarrow> family \<times> byte list \<times> nat \<times> byte list \<times> nat" where
  "udp_key f = (uf_address_family f, uf_source_address f, uf_source_port f, uf_target_address f, uf_target_port f)"

definition live_udp :: "ch_ip_stack \<Rightarrow> ch_ip_stack_udp_flow list" where
  "live_udp s = filter (\<lambda>f. \<not> uf_dead f) (is_udp s)"

definition stack_inv :: "ch_ip_stack \<Rightarrow> bool" where
  "stack_inv s \<longleftrightarrow> table_inv (is_tcp s) \<and> is_udp_count s = length (is_udp s) \<and> is_udp_count s \<le> 512 \<and>
     distinct (map udp_key (live_udp s)) \<and> table_ok (is_fragments s)"

definition udp_ages :: "ch_ip_stack_udp_flow \<Rightarrow> ch_ip_stack_udp_flow \<Rightarrow> bool" where
  "udp_ages f g \<longleftrightarrow> udp_key f = udp_key g \<and> (\<not> uf_dead g \<longrightarrow> \<not> uf_dead f)"

lemma udp_ages_update [simp]: "udp_ages f (f\<lparr>uf_dead := True\<rparr>)" "udp_ages f (f\<lparr>uf_last_activity := now\<rparr>)"
  by (simp_all add: udp_ages_def udp_key_def)

lemma udp_ages_refl [simp]: "udp_ages f f"
  by (simp add: udp_ages_def)

lemma udp_ages_trans: "udp_ages f g \<Longrightarrow> udp_ages g h \<Longrightarrow> udp_ages f h"
  by (simp add: udp_ages_def)

lemma stack_inv_ages:
  assumes "stack_inv s" "list_all2 udp_ages (is_udp s) fs"
  shows "stack_inv (s\<lparr>is_udp := fs\<rparr>)"
  using assms distinct_filter_all2 [OF assms(2) [unfolded udp_ages_def]] list_all2_lengthD [OF assms(2)]
  by (simp add: stack_inv_def live_udp_def)

lemma stack_inv_udp_update:
  assumes "stack_inv s" "udp_ages (is_udp s ! i) g"
  shows "stack_inv (s\<lparr>is_udp := (is_udp s)[i := g]\<rparr>)"
  using assms by (cases "i < length (is_udp s)") (auto intro!: stack_inv_ages simp: list_all2_conv_all_nth nth_list_update)

lemma udp_ages_receive: "udp_ages f (fst (udp_receive_loop cfg n rs f))"
proof (induction rs arbitrary: n f)
  case (Cons r rs)
  have "udp_ages f (fst (udp_receive_loop cfg (n - 1) rs (f\<lparr>uf_last_activity := ur_now r\<rparr>)))"
    by (rule udp_ages_trans [OF udp_ages_update(2) Cons.IH])
  then show ?case
    by (auto split: option.split sum.split prod.split)
qed simp

lemma udp_ages_tick: "udp_ages f (fst (ch_ip_stack_udp_flow_tick cfg now rs f))"
  using udp_ages_receive [of f cfg 4 rs]
  by (auto simp: ch_ip_stack_udp_flow_tick_def split: prod.split intro: udp_ages_trans)

lemma stack_inv_tcp: "stack_inv s \<Longrightarrow> table_inv t \<Longrightarrow> stack_inv (s\<lparr>is_tcp := t\<rparr>)"
  by (simp add: stack_inv_def live_udp_def)

lemma stack_inv_fragments: "stack_inv s \<Longrightarrow> table_ok fr \<Longrightarrow> stack_inv (s\<lparr>is_fragments := fr\<rparr>)"
  by (simp add: stack_inv_def live_udp_def)

lemma table_inv_cache: "table_inv t \<Longrightarrow> table_inv (t\<lparr>tt_cache := c\<rparr>)"
  by (simp add: table_inv_def live_flows_def)

lemma stack_inv_cache: "stack_inv s \<Longrightarrow> stack_inv (s\<lparr>is_tcp := (is_tcp s)\<lparr>tt_cache := c\<rparr>\<rparr>)"
  by (simp add: stack_inv_def live_udp_def table_inv_cache)

lemma stack_inv_sweep: "stack_inv s \<Longrightarrow> stack_inv (fst (ch_ip_stack_udp_sweep cfg s))"
  using sum_length_filter_compl [of uf_dead "is_udp s"]
  by (auto simp: stack_inv_def ch_ip_stack_udp_sweep_def live_udp_def)

lemma table_inv_events: "table_inv t \<Longrightarrow> table_inv (run_events cfg junk events t)"
  unfolding run_events_def by (induction events arbitrary: t) (auto simp: table_inv_event)

lemma stack_inv_tick: "stack_inv s \<Longrightarrow> stack_inv (ch_ip_stack_tick cfg junk w s)"
  unfolding ch_ip_stack_tick_def Let_def
  by (intro stack_inv_fragments stack_inv_sweep stack_inv_ages stack_inv_tcp table_inv_tick table_inv_events tick_table_ok)
    (auto simp: stack_inv_def list_all2_conv_all_nth nth_enumerate_eq udp_ages_tick ch_ip_stack_udp_sweep_def)

lemma udp_find_None:
  "ch_ip_stack_udp_flow_find family sa sp ta tp fs = None \<longleftrightarrow> (\<forall>f \<in> set fs. \<not> udp_matches family sa sp ta tp f)"
  by (induction fs) auto

lemma stack_inv_udp_create:
  assumes "stack_inv s" "ch_ip_stack_udp_flow_find family sa sp ta tp (is_udp s) = None"
    "ch_ip_stack_udp_flow_create cfg now s family sa sp ta tp = (s', es, status)"
  shows "stack_inv s'"
proof -
  have fresh: "(family, sa, sp, ta, tp) \<notin> udp_key ` set (live_udp s)"
    using assms(2) by (auto simp: udp_find_None udp_matches_def udp_key_def live_udp_def)
  show ?thesis
    using assms(1,3) fresh
    by (auto simp: ch_ip_stack_udp_flow_create_def Let_def stack_inv_def live_udp_def udp_key_def table_inv_cache
        split: if_splits prod.splits option.splits ch_status.splits)
qed

lemma stack_inv_forward: "stack_inv s \<Longrightarrow> stack_inv (fst (forward_datagram cfg mo family d i s))"
  by (auto simp: forward_datagram_def Let_def split: option.split intro!: stack_inv_udp_update)

lemma stack_inv_payload:
  assumes "stack_inv s" "ch_ip_stack_handle_udp_payload cfg mo family d s = (s', es, e)"
  shows "stack_inv s'"
proof -
  have forward: "stack_inv s'" if "stack_inv t" "forward_datagram cfg mo family d i t = (s', es', e')" for t i es' e'
    using stack_inv_forward [OF that(1), of cfg mo family d i] that(2) by simp
  have create: "stack_inv t"
    if "ch_ip_stack_udp_flow_find family (ud_source d) (ud_source_port d) (ud_target d) (ud_target_port d) (is_udp s) = None"
      "ch_ip_stack_udp_flow_create cfg (mo_now mo) s family (ud_source d) (ud_source_port d) (ud_target d)
         (ud_target_port d) = (t, es', e')" for t es' e'
    by (rule stack_inv_udp_create [OF assms(1) that])
  show ?thesis
    using assms create forward [of s] forward
    by (auto simp: ch_ip_stack_handle_udp_payload_def Let_def stack_inv_cache
        split: option.splits prod.splits sum.splits if_splits)
qed

lemma stack_inv_translated: "stack_inv s \<Longrightarrow> stack_inv (fst (inject_translated cfg junk mo li w q s))"
  using stack_inv_payload [of s cfg mo "if drop_bit 4 (q ! 0) = 4 then AF_INET else AF_INET6"]
  by (auto simp: inject_translated_def Let_def stack_inv_def [of s] split: sum.split option.split prod.split
      intro!: stack_inv_tick stack_inv_tcp table_inv_events)

lemma stack_inv_whole:
  assumes "stack_inv s"
  shows "stack_inv (fst (inject_whole cfg junk mo lw li w p s))"
proof -
  have "stack_inv (s\<lparr>is_tcp := t\<rparr>)"
    if "ch_ip_stack_prepare_tcp_input lw (sc_local4 cfg) (sc_local6 cfg) (sc_tcp_dialer cfg \<noteq> None) (is_tcp s) p = (t, r)"
    for t r
    using assms table_inv_input [of "is_tcp s" lw "sc_local4 cfg" "sc_local6 cfg" "sc_tcp_dialer cfg \<noteq> None" p] that
    by (intro stack_inv_tcp) (simp_all add: stack_inv_def)
  then show ?thesis
    by (auto simp: inject_whole_def split: prod.split sum.split intro: stack_inv_translated)
qed

lemma stack_inv_inject:
  assumes "stack_inv s"
  shows "stack_inv (fst (ch_ip_stack_inject cfg junk mo lw li w packet s))"
proof -
  have "stack_inv (s\<lparr>is_fragments := fr\<rparr>)"
    if "ch_ip_stack_prepare_input_packet junk (mo_now mo) p (is_fragments s) = (fr, r)" for p fr r
    using assms prepare_table_ok [of "is_fragments s" junk "mo_now mo" p] that
    by (intro stack_inv_fragments) (simp_all add: stack_inv_def)
  then show ?thesis
    using assms
    by (auto simp: ch_ip_stack_inject_def Let_def split: option.split prod.split sum.split
        intro: stack_inv_whole stack_inv_tick)
qed

section \<open>Replies\<close>

lemma receive_packets:
  "Packet_Written q \<in> set (snd (udp_receive_loop cfg n rs f)) \<Longrightarrow>
    \<exists>r remote port. r \<in> set rs \<and> ch_ip_stack_parse_endpoint (ur_source r) (uf_address_family f) = Some (remote, port) \<and>
      ch_ip_stack_emit_udp_response (sc_mtu cfg) (ur_ident r) (uf_address_family f) remote port (uf_source_address f)
        (uf_source_port f) (ur_payload r) = Inr q"
proof (induction rs arbitrary: n f)
  case (Cons r rs)
  let ?g = "f\<lparr>uf_last_activity := ur_now r\<rparr>"
  have "Packet_Written q \<notin> set (ch_ip_stack_observe_bytes ob i rx tx)" for ob i rx tx
    by (simp add: ch_ip_stack_observe_bytes_def)
  then consider (here) remote port where
      "ch_ip_stack_parse_endpoint (ur_source r) (uf_address_family f) = Some (remote, port)"
      "ch_ip_stack_emit_udp_response (sc_mtu cfg) (ur_ident r) (uf_address_family f) remote port (uf_source_address f)
        (uf_source_port f) (ur_payload r) = Inr q"
    | (later) "Packet_Written q \<in> set (snd (udp_receive_loop cfg (n - 1) rs ?g))"
    using Cons.prems by (auto split: if_splits option.splits sum.splits prod.splits)
  then show ?case
  proof cases
    case later
    then show ?thesis
      using Cons.IH [OF later] by auto
  qed auto
qed simp

lemma parse_endpoint_ok:
  "ch_ip_stack_parse_endpoint text family = Some (address, port) \<Longrightarrow>
    length address = ch_ip_stack_address_length family \<and> port < 65536"
  using inet_pton_length
  by (auto simp: ch_ip_stack_parse_endpoint_def Let_def ch_ip_stack_address_length_def
      split: option.splits if_splits family.splits)

section \<open>Properties of the stack\<close>

inductive stack_reach :: "stack_config \<Rightarrow> (nat \<Rightarrow> byte) \<Rightarrow> ch_ip_stack \<Rightarrow> bool" for cfg junk where
  stack_created: "ch_ip_stack_create aton4 aton6 added added6 options = Inr (cfg, s) \<Longrightarrow> stack_reach cfg junk s"
| stack_inject: "stack_reach cfg junk s \<Longrightarrow>
    stack_reach cfg junk (fst (ch_ip_stack_inject cfg junk mo lw li w packet s))"
| stack_tick: "stack_reach cfg junk s \<Longrightarrow> stack_reach cfg junk (ch_ip_stack_tick cfg junk w s)"

lemma stack_inv_reach: "stack_reach cfg junk s \<Longrightarrow> stack_inv s"
proof (induction rule: stack_reach.induct)
  case (stack_created aton4 aton6 added added6 options s)
  have "table_inv empty_tcp_table"
    by (rule table_inv_reach [OF nat_start])
  with stack_created show ?case
    by (auto simp: ch_ip_stack_create_def Let_def stack_inv_def live_udp_def table_ok_empty
        split: option.splits if_splits)
qed (simp_all add: stack_inv_inject stack_inv_tick)

text \<open>C25: In every state the stack can reach, through any packets from the tunnel, any answers of lwIP, the sockets
  and the callbacks, and any ticks: at most 512 TCP flows, 512 UDP flows and 64 reassemblies exist and the
  three counters are exact; the internal ports lie in the reserved range; and no two live TCP flows share an
  internal port or endpoints, nor two live UDP flows their endpoints.\<close>

theorem stack_invariant:
  assumes "stack_reach cfg junk s"
  shows "tt_count (is_tcp s) = length (tt_flows (is_tcp s)) \<and> tt_count (is_tcp s) \<le> 512 \<and>
    list_all (\<lambda>f. 20000 \<le> tf_internal_port f \<and> tf_internal_port f \<le> 59999) (tt_flows (is_tcp s)) \<and>
    distinct (map tf_internal_port (live_flows (is_tcp s))) \<and> distinct (map flow_key (live_flows (is_tcp s))) \<and>
    is_udp_count s = length (is_udp s) \<and> is_udp_count s \<le> 512 \<and> distinct (map udp_key (live_udp s)) \<and>
    ft_count (is_fragments s) = length (ft_flows (is_fragments s)) \<and> ft_count (is_fragments s) \<le> 64"
  using stack_inv_reach [OF assms] by (auto simp: stack_inv_def table_inv_def table_ok_def list_all_iff flow_ok_def)

definition sample_options :: ch_ip_stack_options where
  "sample_options = \<lparr>io_packet_writer = True, io_tcp_dialer = Some sample_dialer,
     io_udp_dialer = Some (\<lambda>_ _ _. (CH_OK, Some 3, 43)), io_udp_sender = Some (\<lambda>_ _ _. CH_OK), io_udp_receiver = True,
     io_udp_closer = True, io_flow_bytes = True, io_flow_close = True, io_dns_exchange = None, io_ipv4_address = None,
     io_ipv4_netmask = None, io_ipv6_address = None, io_mtu = 0\<rparr>"

definition sample_config :: stack_config where
  "sample_config = \<lparr>sc_local4 = sample_local4, sc_local6 = sample_local6, sc_mtu = 1500,
     sc_observers = \<lparr>ob_bytes = True, ob_close = True\<rparr>, sc_tcp_dialer = Some sample_dialer,
     sc_udp_dialer = Some (\<lambda>_ _ _. (CH_OK, Some 3, 43)), sc_udp_sender = (\<lambda>_ _ _. CH_OK), sc_dns_exchange = None\<rparr>"

definition fresh_stack :: ch_ip_stack where
  "fresh_stack = \<lparr>is_tcp = empty_tcp_table, is_udp = [], is_udp_count = 0, is_fragments = empty_table\<rparr>"

lemma sample_created:
  "ch_ip_stack_create (\<lambda>_. Some sample_local4) (\<lambda>_. Some sample_local6) True True (Some sample_options) =
     Inr (sample_config, fresh_stack)"
  by (simp add: ch_ip_stack_create_def sample_options_def sample_config_def fresh_stack_def Let_def)

definition sample_injected :: ch_ip_stack where
  "sample_injected = fst (ch_ip_stack_inject sample_config (\<lambda>_. 0)
     \<lparr>mo_now = 5, mo_answers = (\<lambda>_. 5), mo_ident = 1\<rparr> sample_lwip
     \<lparr>li_buffer = True, li_events = [(0, Accept sample_dialer True True ERR_OK)], li_result = ERR_OK\<rparr>
     \<lparr>tw_timers = [], tw_tcp = (\<lambda>_. sample_tick []), tw_udp = (\<lambda>_. []), tw_now = 6\<rparr>
     (Some (ch_ip_stack_ipv4_checksums sample_tcp4)) fresh_stack)"

theorem stack_invariant_witness:
  "tt_count (is_tcp sample_injected) \<le> 512 \<and> is_udp_count sample_injected \<le> 512 \<and>
   distinct (map tf_internal_port (live_flows (is_tcp sample_injected)))"
proof -
  have "stack_reach sample_config (\<lambda>_. 0) sample_injected"
    unfolding sample_injected_def by (intro stack_inject stack_created [OF sample_created])
  from stack_invariant [OF this] show ?thesis
    by blast
qed

text \<open>C26: Every packet that the tick of a UDP flow writes to the tunnel is a well-formed datagram from the endpoint
  that the connection reported to the client of the flow, carrying the bytes that were received.\<close>

theorem udp_replies_reach_client:
  assumes "length (uf_source_address f) = ch_ip_stack_address_length (uf_address_family f)" "uf_source_port f < 65536"
    and "uf_source_address f \<noteq> sc_local4 cfg" "uf_source_address f \<noteq> sc_local6 cfg"
    and "ch_ip_stack_udp_flow_tick cfg now rs f = (f', es)" "Packet_Written q \<in> set es"
  shows "\<exists>r remote port. r \<in> set rs \<and>
    ch_ip_stack_parse_endpoint (ur_source r) (uf_address_family f) = Some (remote, port) \<and>
    ch_ip_stack_handle_udp_input (sc_local4 cfg) (sc_local6 cfg) q = Inr (Some \<lparr>ud_source = remote,
      ud_source_port = port, ud_target = uf_source_address f, ud_target_port = uf_source_port f,
      ud_payload = ur_payload r\<rparr>)"
proof -
  have "Packet_Written q \<in> set (snd (udp_receive_loop cfg 4 rs f))"
    using assms(5,6) by (auto simp: ch_ip_stack_udp_flow_tick_def split: if_splits prod.splits)
  from receive_packets [OF this] obtain r remote port where r: "r \<in> set rs"
      "ch_ip_stack_parse_endpoint (ur_source r) (uf_address_family f) = Some (remote, port)"
      "ch_ip_stack_emit_udp_response (sc_mtu cfg) (ur_ident r) (uf_address_family f) remote port (uf_source_address f)
        (uf_source_port f) (ur_payload r) = Inr q"
    by blast
  with emit_accepted [OF _ assms(1) _ assms(2-4) r(3)] parse_endpoint_ok [OF r(2)] show ?thesis
    by blast
qed

definition sample_udp_flow :: ch_ip_stack_udp_flow where
  "sample_udp_flow = \<lparr>uf_connection = 3, uf_source_address = [10, 0, 0, 2], uf_target_address = [8, 8, 8, 8],
     uf_address_family = AF_INET, uf_source_port = 4000, uf_target_port = 53, uf_domain_hint = [], uf_last_activity = 0,
     uf_dead = False, uf_flow_id = 43, uf_close_observed = False\<rparr>"

definition sample_receive :: udp_receive where
  "sample_receive = \<lparr>ur_status = CH_OK, ur_source = Some ''8.8.8.8:53'', ur_payload = [1, 2, 3], ur_ident = 7, ur_now = 9\<rparr>"

theorem udp_replies_reach_client_witness:
  "\<exists>q. Packet_Written q \<in> set (snd (ch_ip_stack_udp_flow_tick sample_config 10 [sample_receive] sample_udp_flow)) \<and>
     ch_ip_stack_handle_udp_input (sc_local4 sample_config) (sc_local6 sample_config) q = Inr (Some
       \<lparr>ud_source = [8, 8, 8, 8], ud_source_port = 53, ud_target = [10, 0, 0, 2], ud_target_port = 4000,
        ud_payload = [1, 2, 3]\<rparr>)"
proof -
  have parsed: "ch_ip_stack_parse_endpoint (Some ''8.8.8.8:53'') AF_INET = Some ([8, 8, 8, 8], 53)"
    by code_simp
  obtain q where emitted:
      "ch_ip_stack_emit_udp_response 1500 7 AF_INET [8, 8, 8, 8] 53 [10, 0, 0, 2] 4000 [1, 2, 3] = Inr q"
    by (simp add: ch_ip_stack_emit_udp_response_def Let_def)
  have written: "Packet_Written q \<in> set (snd (ch_ip_stack_udp_flow_tick sample_config 10 [sample_receive] sample_udp_flow))"
    using parsed emitted
    by (simp add: ch_ip_stack_udp_flow_tick_def sample_receive_def sample_udp_flow_def sample_config_def)
  have "ch_ip_stack_handle_udp_input (sc_local4 sample_config) (sc_local6 sample_config) q = Inr (Some
       \<lparr>ud_source = [8, 8, 8, 8], ud_source_port = 53, ud_target = [10, 0, 0, 2], ud_target_port = 4000,
        ud_payload = [1, 2, 3]\<rparr>)"
    using udp_replies_reach_client [of sample_udp_flow sample_config 10 "[sample_receive]", OF _ _ _ _ prod.collapse [symmetric] written]
      parsed
    by (auto simp: sample_udp_flow_def sample_config_def sample_local4_def sample_local6_def sample_receive_def
        ch_ip_stack_address_length_def)
  with written show ?thesis
    by blast
qed

end
