(* ===== verification/Spec2Isabelle.thy ===== *)
theory Spec2Isabelle
  imports Json_Laws Event_Ring Ip_Packets Ip_Fragments Temporary_Rules Rules_Config Prompts Ip_Stack
begin

text \<open>
  Verification of the native core of clambhook (\<^verbatim>\<open>src/native/src\<close>), the C library behind a proxy and packet
  tunnel.  A configuration is read and validated; its rules are compiled into an engine that decides, for
  each connection, between chains, policy groups and blocking; temporary rules and prompts to the user come
  before the engine; a user-space IP stack turns the packets of a tunnel into connections; events and
  answers leave as JSON.

  \<^bold>\<open>Conventions.\<close>  A fallible function returns a \<^typ>\<open>'a result\<close>: \<^term>\<open>Inl\<close> the status code, \<^term>\<open>Inr\<close> the
  outputs.  Structs are records, enumerations are datatypes, a string that the code tests against NULL is an
  option.  Operations under a mutex are functions on the state, and executions are sequences of them.
  Clocks, fresh addresses, uninitialised memory and the answers of sockets, lwIP and threads are arguments;
  what a component sends is a list of effects.  Allocation succeeds, and message texts are left out.

  \<^bold>\<open>Theories.\<close>
  \<^item> \<open>CPrelude\<close>: status codes of \<^verbatim>\<open>error.h\<close>, characters, and the string and number routines of the C library.
  \<^item> \<open>Interfaces\<close>: the contracts that components share, as locales: keyed stores (interpreted for JSON objects),
    bounded logs (the event ring, the log of silent decisions) and first-match rule lists (the rule engine,
    the temporary rules).
  \<^item> \<open>Doubles\<close>: binary64 as far as JSON numbers use it.
  \<^item> \<open>Json\<close>, \<open>Json_Laws\<close>: \<^verbatim>\<open>json.c\<close>.  Printed values parse back, the buffer writes exactly the reference text, the
    parser always returns, and objects behave as maps.
  \<^item> \<open>Event_Ring\<close>: \<^verbatim>\<open>events.c\<close>.  The ring holds the last events of its history; a query returns every event
    since a sequence number, page by page; two calls that interleave can lose one.
  \<^item> \<open>Inet\<close>: \<^verbatim>\<open>inet_pton\<close> and \<^verbatim>\<open>inet_ntop\<close>, with their round trips.
  \<^item> \<open>Ip_Packets\<close>, \<open>Ip_Fragments\<close>, \<open>Dns_Cache\<close>, \<open>Tcp_Relay\<close>, \<open>Tcp_Nat\<close>, \<open>Ip_Stack\<close>: the parts of \<^verbatim>\<open>ip_stack.c\<close>.
    Checksums verify, UDP answers are accepted by the receiving side, fragments reassemble, DNS names and
    endpoints round trip, the relay keeps the order of bytes in both directions and drains its queue,
    translated segments return to the client's addresses, and the tables of flows stay bounded and
    consistent in every reachable state.
  \<^item> \<open>Rules\<close>: \<^verbatim>\<open>rules.c\<close>.  A compiled rule matches what its declarative reading covers, CIDR blocks are bit
    prefixes, the first applicable rule decides, and decisions name known routes.
  \<^item> \<open>Temporary_Rules\<close>: \<^verbatim>\<open>temporary_rules.c\<close>.  The list is bounded with unique identifiers, and the newest live
    rule that applies decides.
  \<^item> \<open>Toml\<close>: the tree of \<^verbatim>\<open>src/third_party/tomlc99/toml.c\<close> and the functions that read values from it.
  \<^item> \<open>Durations\<close>: \<^verbatim>\<open>ch_config_parse_duration_ns\<close> with the arithmetic of \<^verbatim>\<open>long double\<close>; whole numbers of units are
    read exactly.
  \<^item> \<open>Config\<close>: \<^verbatim>\<open>config.c\<close>: validation section by section, accessors, profiles, the rewritten document and path
    resolution.  A written string reads back unless it has a control character with a hexadecimal letter.
  \<^item> \<open>Rules_Config\<close>: \<^verbatim>\<open>rules_config.c\<close>.  A profile of a validated configuration compiles and every route in it
    can be explained; the exception is a subscription with an empty action.
  \<^item> \<open>Prompts\<close>: \<^verbatim>\<open>prompt.c\<close>.  A call of \<^verbatim>\<open>ch_prompt_manager_await\<close> is split at its wait into \<open>await_begin\<close> and
    \<open>await_wake\<close>.  Sleeping threads never lose their prompt, waiter counts are exact, a resolution reaches
    every thread, and a time-out that arrives late overrides it.

  \<^bold>\<open>Bounds and fuel.\<close>  The loops of the JSON parser take as fuel one more than the length of the text; each
  round consumes a byte, and \<open>json_parse_total\<close> shows that the fuel never runs out.  Its nesting limit of 64,
  the 256 silent decisions, the 512 UDP flows and the other limits are those of the sources.  The number of
  attempts of \<open>allocate_port\<close> is the bound of the loop in the code.  All other loops are functions with a
  termination proof.  Counters are taken modulo their width, and theorems about unique identifiers assume
  fewer calls than it holds.  Pointers and \<^verbatim>\<open>size_t\<close> have 64 bits, \<^verbatim>\<open>long double\<close> a significand of 64 bits.

  \<^bold>\<open>Hypotheses on code that is a parameter.\<close>  The loader of cached rule feeds (\<^verbatim>\<open>rule_feed.c\<close>) is an argument of
  \<open>Rules_Config\<close>; \<open>cache_ok\<close> states that it fails with one of three codes and that cached CIDR blocks are
  well formed.  The TOML parser is an argument of \<open>ch_config_parse\<close>.  The traffic store is an argument of
  the temporary rules; dialers, DNS exchange and lwIP are arguments of the IP stack.

  \<^bold>\<open>Not modelled.\<close>  The runtime, listeners and control server (threads, sockets and event loops); the outbound
  protocols, the developer capture and licensing (OpenSSL, curl, llhttp); DNS clients; traffic accounting;
  platform services (system calls); the programs.  The TOML parser and the conversions of configuration
  documents (\<^verbatim>\<open>config_import.c\<close>, \<^verbatim>\<open>config_mutation.c\<close>, \<^verbatim>\<open>config_payload.c\<close>, \<^verbatim>\<open>profile_converter.c\<close>, \<^verbatim>\<open>outline.c\<close>),
  the parser of rule feeds, policy probing and the SOCKS address coder are left out.  Of \<^verbatim>\<open>config.c\<close>, doubles,
  array kinds, the JSON export and files are left out.
\<close>

end
